(* ===== verification/Prelude.thy ===== *)
theory Prelude
  imports "HOL-Library.Word"
begin

text \<open>
  Shared vocabulary of the development: the C integer types as words, the errno values
  the sources return, the collections of rewrite rules that the component theories fill,
  and the generic lemmas about words, modular indices and lists on which several
  components rely.
\<close>

unbundle bit_operations_syntax

type_synonym u8 = "8 word"
type_synonym u16 = "16 word"
type_synonym u32 = "32 word"
type_synonym u64 = "64 word"

named_theorems ring_rules
named_theorems pool_rules

section \<open>Error numbers\<close>

text \<open>C functions that report an error do so by a negative \<open>errno\<close> value of type \<open>int\<close>.\<close>

abbreviation ENOENT :: int where "ENOENT \<equiv> 2"
abbreviation EAGAIN :: int where "EAGAIN \<equiv> 11"
abbreviation EINVAL :: int where "EINVAL \<equiv> 22"
abbreviation ENAMETOOLONG :: int where "ENAMETOOLONG \<equiv> 36"
abbreviation ENOBUFS :: int where "ENOBUFS \<equiv> 105"
abbreviation EDQUOT :: int where "EDQUOT \<equiv> 122"

section \<open>Faults and arrays\<close>

text \<open>
  A C function either returns, or stops the process (\<open>exit\<close>), or leaves the defined part of
  the language: an array access outside its bounds, or the use of a pointer that was never
  set or does not point to a live object, or the use of the value of a function that ended
  without one; or it runs forever.
\<close>

datatype c_fault = Exit | OutOfBounds | BadPointer | NoReturn | NoValue

type_synonym 'a c_res = "c_fault + 'a"

definition cbind :: "'a c_res \<Rightarrow> ('a \<Rightarrow> 'b c_res) \<Rightarrow> 'b c_res" where
  "cbind m f = (case m of Inl e \<Rightarrow> Inl e | Inr x \<Rightarrow> f x)"

text \<open>The result of a loop modelled as a partial function.\<close>

definition loop_res :: "'a option \<Rightarrow> 'a c_res" where
  "loop_res r = (case r of None \<Rightarrow> Inl NoReturn | Some x \<Rightarrow> Inr x)"

definition aget :: "'a list \<Rightarrow> int \<Rightarrow> 'a c_res" where
  "aget xs i = (if 0 \<le> i \<and> i < int (length xs) then Inr (xs ! nat i) else Inl OutOfBounds)"

definition aset :: "'a list \<Rightarrow> int \<Rightarrow> 'a \<Rightarrow> 'a list c_res" where
  "aset xs i v = (if 0 \<le> i \<and> i < int (length xs) then Inr (xs [nat i := v]) else Inl OutOfBounds)"

section \<open>Slices\<close>

text \<open>
  A ring of \<open>N\<close> slots is a list of length \<open>N\<close>; the slice of \<open>n\<close> elements that starts at
  index \<open>b\<close> is read round the end of the list.
\<close>

definition mod_slice :: "'a list \<Rightarrow> nat \<Rightarrow> nat \<Rightarrow> 'a list" where
  "mod_slice xs b n = map (\<lambda>i. xs ! ((b + i) mod length xs)) [0..<n]"

section \<open>Rules for results and arrays\<close>

lemma cbind_simps [simp]: "cbind (Inr x) f = f x" "cbind (Inl e) f = Inl e"
  by (simp_all add: cbind_def)

lemma loop_res_Some [simp]: "loop_res (Some x) = Inr x"
  by (simp add: loop_res_def)

lemma cbind_Inr_iff: "cbind m f = Inr y \<longleftrightarrow> (\<exists>x. m = Inr x \<and> f x = Inr y)"
  by (cases m) auto

lemma aget_ok [simp]: "0 \<le> i \<Longrightarrow> i < int (length xs) \<Longrightarrow> aget xs i = Inr (xs ! nat i)"
  by (simp add: aget_def)

lemma aset_ok [simp]: "0 \<le> i \<Longrightarrow> i < int (length xs) \<Longrightarrow> aset xs i v = Inr (xs [nat i := v])"
  by (simp add: aset_def)

section \<open>Words\<close>

lemma unat_and_mask_word:
  fixes w :: u32
  shows "unat (w AND mask k) = unat w mod 2 ^ k"
proof -
  have "unat (take_bit k w) = take_bit k (unat w)"
    by (simp add: unsigned_take_bit_eq)
  then show ?thesis
    by (simp add: take_bit_eq_mask [symmetric] take_bit_eq_mod)
qed

lemma unat_less_2p32 [simp]: "unat (w :: u32) < 4294967296"
  using unsigned_less [of w, where 'a = nat] by simp

lemma dvd_mod_mod:
  fixes a :: nat
  assumes "d dvd m"
  shows "a mod m mod d = a mod d"
  using assms by (rule mod_mod_cancel)

lemma pow_dvd_2p32: "k \<le> 32 \<Longrightarrow> (2::nat) ^ k dvd 4294967296"
proof -
  assume "k \<le> 32"
  then have "(2::nat) ^ k dvd 2 ^ 32" by (rule le_imp_power_dvd)
  then show ?thesis by simp
qed

lemma unat_add_of_nat_mask:
  fixes w :: u32
  assumes "k \<le> 32"
  shows "unat ((w + of_nat i) AND mask k) = (unat w + i) mod 2 ^ k"
proof -
  have "unat (w + of_nat i) mod 2 ^ k = ((unat w + i) mod 4294967296) mod 2 ^ k"
    by (simp add: unat_word_ariths unat_of_nat mod_simps)
  also have "\<dots> = (unat w + i) mod 2 ^ k"
    by (rule dvd_mod_mod [OF pow_dvd_2p32 [OF assms]])
  finally show ?thesis by (simp add: unat_and_mask_word)
qed

lemma unat_add_no_wrap:
  fixes a b :: u32
  assumes "unat a + unat b < 4294967296"
  shows "unat (a + b) = unat a + unat b"
  using assms by (simp add: unat_word_ariths)

lemma unat_diff_le:
  fixes a b :: u32
  assumes "unat b \<le> unat a"
  shows "unat (a - b) = unat a - unat b"
  using assms by (simp add: unat_sub word_le_nat_alt)

lemma unat_2p [simp]: "k < 32 \<Longrightarrow> unat ((2 :: u32) ^ k) = 2 ^ k"
proof -
  assume "k < 32"
  then have "(2::nat) ^ k < 2 ^ 32" by (rule power_strict_increasing) simp
  moreover have "(2 :: u32) ^ k = of_nat (2 ^ k)" by simp
  ultimately show ?thesis by (simp only: unat_of_nat) simp
qed

lemma pow27: "k \<le> 27 \<Longrightarrow> (2 :: nat) ^ k \<le> 134217728"
  using power_increasing [of k 27 "2 :: nat"] by simp

section \<open>Modular slices of a list\<close>

lemma length_mod_slice [simp]: "length (mod_slice xs b n) = n"
  by (simp add: mod_slice_def)

lemma nth_mod_slice [simp]: "i < n \<Longrightarrow> mod_slice xs b n ! i = xs ! ((b + i) mod length xs)"
  by (simp add: mod_slice_def)

lemma mod_slice_0 [simp]: "mod_slice xs b 0 = []"
  by (simp add: mod_slice_def)

lemma mod_slice_append: "mod_slice xs b (m + n) = mod_slice xs b m @ mod_slice xs (b + m) n"
  by (rule nth_equalityI) (auto simp: nth_append add.assoc)

lemma take_mod_slice: "take m (mod_slice xs b n) = mod_slice xs b (min m n)"
  by (rule nth_equalityI) auto

lemma drop_mod_slice: "m \<le> n \<Longrightarrow> drop m (mod_slice xs b n) = mod_slice xs (b + m) (n - m)"
  by (rule nth_equalityI) (auto simp: add.assoc)

lemma mod_slice_cong_base:
  "b mod length xs = c mod length xs \<Longrightarrow> mod_slice xs b n = mod_slice xs c n"
  by (rule nth_equalityI) (auto, metis mod_add_left_eq)

lemma mod_add_inj:
  fixes b :: nat
  assumes "(b + i) mod n = (b + j) mod n" "i < n" "j < n"
  shows "i = j"
proof -
  have "i mod n = j mod n"
    using assms(1) by (simp add: nat_mod_eq_iff)
  then show ?thesis using assms(2,3) by simp
qed

end
