(* ===== verification/Light_Types.thy ===== *)
theory Light_Types
  imports Prelude
begin

text \<open>
  The data shared between applications and the stack, from \<open>light_common.h\<close> and
  \<open>light_ring_ops.h\<close>: the command buffer with its union of arguments, the return value, the
  shared socket, the epoll object and its nodes, and the descriptor an application process
  keeps per socket.  Pointers into shared memory are addresses (natural numbers); a NULL
  pointer is \<open>None\<close>.
\<close>

type_synonym addr = nat

section \<open>Constants\<close>

definition MAX_CORES_NUM :: nat where "MAX_CORES_NUM = 32"
definition PKT_PAYLOAD_MAX_SIZE :: int where "PKT_PAYLOAD_MAX_SIZE = 1448"
definition MAX_CMD_DEQUEUE_NUM :: nat where "MAX_CMD_DEQUEUE_NUM = 100"
definition COMMAND_POOL_SIZE :: nat where "COMMAND_POOL_SIZE = 16384 * 2"
definition LIGHT_EVENT_INFO_POOL_SIZE :: nat where "LIGHT_EVENT_INFO_POOL_SIZE = 2 ^ 16"
definition LIGHT_CLIENTS_POOL_SIZE :: nat where "LIGHT_CLIENTS_POOL_SIZE = 64"
definition MAX_WORKER :: nat where "MAX_WORKER = 1024"
definition SOCKET_READY_MASK :: u32 where "SOCKET_READY_MASK = 0xFFFF"

section \<open>Epoll data\<close>

text \<open>
  The application stores an arbitrary 64-bit value with each registration; the library only
  copies it.
\<close>

type_synonym light_epoll_data_t = u64

record light_epoll_event =
  ev_events :: u32
  ev_data :: light_epoll_data_t

datatype light_epoll_op = LIGHT_EPOLL_CTL_ADD | LIGHT_EPOLL_CTL_DEL | LIGHT_EPOLL_CTL_MOD

definition LIGHT_EPOLLIN :: u32 where "LIGHT_EPOLLIN = 0x001"
definition LIGHT_EPOLLPRI :: u32 where "LIGHT_EPOLLPRI = 0x002"
definition LIGHT_EPOLLOUT :: u32 where "LIGHT_EPOLLOUT = 0x004"
definition LIGHT_EPOLLERR :: u32 where "LIGHT_EPOLLERR = 0x008"
definition LIGHT_EPOLLHUP :: u32 where "LIGHT_EPOLLHUP = 0x010"
definition LIGHT_EPOLLRDHUP :: u32 where "LIGHT_EPOLLRDHUP = 0x2000"
definition LIGHT_EPOLLONESHOT :: u32 where "LIGHT_EPOLLONESHOT = push_bit 30 1"
definition LIGHT_EPOLLET :: u32 where "LIGHT_EPOLLET = push_bit 31 1"

record epoll_node =
  node_epoll_idx :: int
  epoll_events :: u32
  ready_events :: u32
  ep_data :: light_epoll_data_t

record light_event_info_t =
  info_sockfd :: int
  info_event :: u32

section \<open>Commands\<close>

datatype light_command =
    LIGHT_DUMMY_COMMAND
  | LIGHT_OPEN_SOCKET_COMMAND
  | LIGHT_SOCKET_CONNECT_BIND_COMMAND
  | LIGHT_LISTEN_SOCKET_COMMAND
  | LIGHT_SETSOCKOPT_COMMAND
  | LIGHT_OPEN_SOCKET_FEEDBACK
  | LIGHT_SOCKET_TX_KICK_COMMAND
  | LIGHT_SOCKET_RX_KICK_COMMAND
  | LIGHT_SOCKET_ACCEPTED_COMMAND
  | LIGHT_SET_SOCKET_RING_COMMAND
  | LIGHT_SOCKET_READY_FEEDBACK
  | LIGHT_SOCKET_CLOSE_COMMAND
  | LIGHT_SOCKET_TX_POOL_EMPTY_COMMAND
  | LIGHT_ROUTE_ADD_COMMAND
  | LIGHT_ROUTE_DEL_COMMAND
  | LIGHT_CONNECT_CLIENT
  | LIGHT_DISCONNECT_CLIENT
  | LIGHT_NEW_IFACES
  | LIGHT_NEW_ADDRESSES
  | LIGHT_END_OF_RECORD
  | LIGHT_SOCKET_SHUTDOWN_COMMAND
  | LIGHT_SOCKET_DECLINE_COMMAND
  | LIGHT_EPOLL_CREATE_COMMAND
  | LIGHT_EPOLL_CLOSE_COMMAND
  | LIGHT_ADD_ARP_COMMAND

text \<open>The union of command arguments, one constructor per member.\<close>

datatype cmd_args =
    open_sock int int int
    \<comment> \<open>family, type, pid\<close>
  | socket_kick_cmd nat
  | accepted_socket nat u32 u16
    \<comment> \<open>socket descriptor, address, port\<close>
  | set_socket_ring nat int
    \<comment> \<open>socket descriptor, pid\<close>
  | socket_ready_feedback u32
  | socket_connect_bind u32 u16 u16
    \<comment> \<open>address, port, is\_connect\<close>
  | route u32 u32 u32 int
    \<comment> \<open>destination, mask, next hop, metric\<close>
  | setsockopt_args int int int "u8 list"
    \<comment> \<open>level, option name, length, value\<close>
  | socket_shutdown int
  | socket_decline nat
  | epoll_create_args int int
    \<comment> \<open>epoll index, pid\<close>
  | epoll_close_args int int
    \<comment> \<open>epoll index, pid\<close>
  | add_arp int u32 "u8 list" int int int
    \<comment> \<open>port number, source address, hardware address, creat, state, override\<close>
  | listen_backlog u32

record light_cmd_t =
  cmd :: light_command
  ringset_idx :: int
  parent_idx :: int
  res :: "addr option"
  u :: cmd_args

record light_return_value_t =
  ready_signal :: int
  return_value :: int
  return_errno :: int

section \<open>Sockets\<close>

record timeval =
  tv_sec :: int
  tv_usec :: int

record light_socket_t =
  connection_idx :: int
  write_done_from_app :: int
  occupied_mbuf_num :: int
  local_ipaddr :: u32
  local_port :: u16
  tx_space :: int
  send_timeout :: timeval
  receive_timeout :: timeval
  is_nonblock :: int
  connect_close_signal :: int
  presented_in_chain :: int
  epoll_node_list :: "addr list"
  is_multicore :: int
  multicore_socket_copies :: "int list"

record light_worker_info_t =
  register_worker :: int
  worker_appids :: "int list"
  worker_procids :: "int list"
  workers_served :: "int list"

end
