(* ===== verification/Rte_Ring.thy ===== *)
theory Rte_Ring
  imports Prelude
begin

text \<open>
  The fixed-size ring of \<open>dpdk-17.02/lib/librte_ring\<close>, through which every application
  process and the stack process exchange commands, packet buffers, sockets and events.
  The ring keeps free-running 32-bit producer and consumer indices that are masked when
  the slot array is accessed, so every theorem here holds across the wrap-around of the
  indices.  The loops of \<open>ENQUEUE_PTRS\<close> and \<open>DEQUEUE_PTRS\<close> are modelled as written
  (unrolled by four, with a fall-through switch) and shown to be one modular copy; the
  enqueue and dequeue functions are then shown to implement a bounded FIFO queue.
\<close>

section \<open>Data\<close>

record 'a rte_ring =
  name :: string
  flags :: u32
  watermark :: u32
  sp_enqueue :: bool
  prod_size :: u32
  prod_mask :: u32
  prod_head :: u32
  prod_tail :: u32
  sc_dequeue :: bool
  cons_size :: u32
  cons_mask :: u32
  cons_head :: u32
  cons_tail :: u32
  ring :: "'a list"

datatype rte_ring_queue_behavior = RTE_RING_QUEUE_FIXED | RTE_RING_QUEUE_VARIABLE

definition RING_F_SP_ENQ :: u32 where "RING_F_SP_ENQ = 1"
definition RING_F_SC_DEQ :: u32 where "RING_F_SC_DEQ = 2"
definition RTE_RING_QUOT_EXCEED :: u32 where "RTE_RING_QUOT_EXCEED = push_bit 31 1"
definition RTE_RING_SZ_MASK :: u32 where "RTE_RING_SZ_MASK = 0x0fffffff"
definition RTE_MEMZONE_NAMESIZE :: nat where "RTE_MEMZONE_NAMESIZE = 32"

section \<open>Creation\<close>

definition POWEROF2 :: "u32 \<Rightarrow> bool" where
  "POWEROF2 x \<longleftrightarrow> (x - 1) AND x = 0"

text \<open>
  The size of the header and the cache line come from the C layout of the structure; they
  are arguments of the size computation.
\<close>

definition rte_ring_get_memsize :: "int \<Rightarrow> int \<Rightarrow> u32 \<Rightarrow> int" where
  "rte_ring_get_memsize header cache_line count =
     (if \<not> POWEROF2 count \<or> count > RTE_RING_SZ_MASK then - EINVAL
      else let sz = header + uint count * 8
           in (sz + cache_line - 1) div cache_line * cache_line)"

text \<open>
  Initialisation clears the header and leaves the slot memory, which lies behind the
  header, as it is.  A name that does not fit leaves a cleared structure behind.
\<close>

definition rte_ring_cleared :: "'a list \<Rightarrow> string \<Rightarrow> 'a rte_ring" where
  "rte_ring_cleared mem nm =
     \<lparr> name = take (RTE_MEMZONE_NAMESIZE - 1) nm, flags = 0, watermark = 0, sp_enqueue = False,
       prod_size = 0, prod_mask = 0, prod_head = 0, prod_tail = 0,
       sc_dequeue = False, cons_size = 0, cons_mask = 0, cons_head = 0, cons_tail = 0,
       ring = mem \<rparr>"

definition rte_ring_init :: "'a list \<Rightarrow> string \<Rightarrow> u32 \<Rightarrow> u32 \<Rightarrow> int \<times> 'a rte_ring" where
  "rte_ring_init mem nm count fl =
     (let r = rte_ring_cleared mem nm in
      if length nm \<ge> RTE_MEMZONE_NAMESIZE then (- ENAMETOOLONG, r)
      else (0, r \<lparr> flags := fl, watermark := count,
                   sp_enqueue := (fl AND RING_F_SP_ENQ \<noteq> 0),
                   sc_dequeue := (fl AND RING_F_SC_DEQ \<noteq> 0),
                   prod_size := count, cons_size := count,
                   prod_mask := count - 1, cons_mask := count - 1,
                   prod_head := 0, cons_head := 0,
                   prod_tail := 0, cons_tail := 0 \<rparr>))"

definition rte_ring_set_water_mark :: "'a rte_ring \<Rightarrow> u32 \<Rightarrow> int \<times> 'a rte_ring" where
  "rte_ring_set_water_mark r count =
     (if count \<ge> prod_size r then (- EINVAL, r)
      else (0, r \<lparr> watermark := (if count = 0 then prod_size r else count) \<rparr>))"

section \<open>Copying object pointers into and out of the slots\<close>

text \<open>The loop that stores four pointers per iteration; \<open>lim\<close> is \<open>n & ~3\<close>.\<close>

function enq_quads :: "'a list \<Rightarrow> 'a list \<Rightarrow> nat \<Rightarrow> nat \<Rightarrow> nat \<Rightarrow> 'a list \<times> nat \<times> nat" where
  "enq_quads rg obj idx i lim =
     (if i < lim
      then enq_quads (rg [idx := obj ! i, idx + 1 := obj ! (i + 1),
                          idx + 2 := obj ! (i + 2), idx + 3 := obj ! (i + 3)])
                     obj (idx + 4) (i + 4) lim
      else (rg, idx, i))"
  by pat_completeness auto
termination by (relation "measure (\<lambda>(rg, obj, idx, i, lim). lim - i)") auto

text \<open>The fall-through switch on \<open>n & 3\<close>: case \<open>k\<close> stores \<open>k\<close> further pointers.\<close>

primrec enq_switch :: "nat \<Rightarrow> 'a list \<Rightarrow> 'a list \<Rightarrow> nat \<Rightarrow> nat \<Rightarrow> 'a list" where
  "enq_switch 0 rg obj idx i = rg"
| "enq_switch (Suc k) rg obj idx i = enq_switch k (rg [idx := obj ! i]) obj (idx + 1) (i + 1)"

function enq_to_end :: "'a list \<Rightarrow> 'a list \<Rightarrow> nat \<Rightarrow> nat \<Rightarrow> nat \<Rightarrow> 'a list \<times> nat" where
  "enq_to_end rg obj idx i sz =
     (if idx < sz then enq_to_end (rg [idx := obj ! i]) obj (idx + 1) (i + 1) sz
      else (rg, i))"
  by pat_completeness auto
termination by (relation "measure (\<lambda>(rg, obj, idx, i, sz). sz - idx)") auto

function enq_from_start :: "'a list \<Rightarrow> 'a list \<Rightarrow> nat \<Rightarrow> nat \<Rightarrow> nat \<Rightarrow> 'a list" where
  "enq_from_start rg obj idx i n =
     (if i < n then enq_from_start (rg [idx := obj ! i]) obj (idx + 1) (i + 1) n else rg)"
  by pat_completeness auto
termination by (relation "measure (\<lambda>(rg, obj, idx, i, n). n - i)") auto

definition ENQUEUE_PTRS :: "'a list \<Rightarrow> u32 \<Rightarrow> u32 \<Rightarrow> u32 \<Rightarrow> 'a list \<Rightarrow> u32 \<Rightarrow> 'a list" where
  "ENQUEUE_PTRS rg sz mask' head obj n =
     (let idx = head AND mask' in
      if idx + n < sz
      then let (rg', idx', i') = enq_quads rg obj (unat idx) 0 (unat (n AND NOT 3))
           in enq_switch (unat (n AND 3)) rg' obj idx' i'
      else let (rg', i') = enq_to_end rg obj (unat idx) 0 (unat sz)
           in enq_from_start rg' obj 0 i' (unat n))"

function deq_quads :: "'a list \<Rightarrow> 'a list \<Rightarrow> nat \<Rightarrow> nat \<Rightarrow> nat \<Rightarrow> 'a list \<times> nat \<times> nat" where
  "deq_quads obj rg idx i lim =
     (if i < lim
      then deq_quads (obj [i := rg ! idx, i + 1 := rg ! (idx + 1),
                           i + 2 := rg ! (idx + 2), i + 3 := rg ! (idx + 3)])
                     rg (idx + 4) (i + 4) lim
      else (obj, idx, i))"
  by pat_completeness auto
termination by (relation "measure (\<lambda>(obj, rg, idx, i, lim). lim - i)") auto

primrec deq_switch :: "nat \<Rightarrow> 'a list \<Rightarrow> 'a list \<Rightarrow> nat \<Rightarrow> nat \<Rightarrow> 'a list" where
  "deq_switch 0 obj rg idx i = obj"
| "deq_switch (Suc k) obj rg idx i = deq_switch k (obj [i := rg ! idx]) rg (idx + 1) (i + 1)"

function deq_to_end :: "'a list \<Rightarrow> 'a list \<Rightarrow> nat \<Rightarrow> nat \<Rightarrow> nat \<Rightarrow> 'a list \<times> nat" where
  "deq_to_end obj rg idx i sz =
     (if idx < sz then deq_to_end (obj [i := rg ! idx]) rg (idx + 1) (i + 1) sz
      else (obj, i))"
  by pat_completeness auto
termination by (relation "measure (\<lambda>(obj, rg, idx, i, sz). sz - idx)") auto

function deq_from_start :: "'a list \<Rightarrow> 'a list \<Rightarrow> nat \<Rightarrow> nat \<Rightarrow> nat \<Rightarrow> 'a list" where
  "deq_from_start obj rg idx i n =
     (if i < n then deq_from_start (obj [i := rg ! idx]) rg (idx + 1) (i + 1) n else obj)"
  by pat_completeness auto
termination by (relation "measure (\<lambda>(obj, rg, idx, i, n). n - i)") auto

definition DEQUEUE_PTRS :: "'a list \<Rightarrow> u32 \<Rightarrow> u32 \<Rightarrow> u32 \<Rightarrow> 'a list \<Rightarrow> u32 \<Rightarrow> 'a list" where
  "DEQUEUE_PTRS rg sz mask' head obj n =
     (let idx = head AND mask' in
      if idx + n < sz
      then let (obj', idx', i') = deq_quads obj rg (unat idx) 0 (unat (n AND NOT 3))
           in deq_switch (unat (n AND 3)) obj' rg idx' i'
      else let (obj', i') = deq_to_end obj rg (unat idx) 0 (unat sz)
           in deq_from_start obj' rg 0 i' (unat n))"

declare enq_quads.simps [simp del] enq_to_end.simps [simp del] enq_from_start.simps [simp del]
declare deq_quads.simps [simp del] deq_to_end.simps [simp del] deq_from_start.simps [simp del]

section \<open>Enqueue and dequeue\<close>

definition sp_do_enqueue ::
  "'a rte_ring \<Rightarrow> 'a list \<Rightarrow> u32 \<Rightarrow> rte_ring_queue_behavior \<Rightarrow> int \<times> 'a rte_ring" where
  "sp_do_enqueue r obj_table n0 behavior =
     (let mask' = prod_mask r;
          head = prod_head r;
          free_entries = mask' + cons_tail r - head in
      if n0 > free_entries \<and> behavior = RTE_RING_QUEUE_FIXED then (- ENOBUFS, r)
      else if n0 > free_entries \<and> free_entries = 0 then (0, r)
      else
        let n = (if n0 > free_entries then free_entries else n0);
            prod_next = head + n;
            r1 = r \<lparr> prod_head := prod_next \<rparr>;
            r2 = r1 \<lparr> ring := ENQUEUE_PTRS (ring r1) (prod_size r1) mask' head obj_table n \<rparr>;
            ret = (if (mask' + 1) - free_entries + n > watermark r2
                   then (if behavior = RTE_RING_QUEUE_FIXED then - EDQUOT
                         else sint (n OR RTE_RING_QUOT_EXCEED))
                   else (if behavior = RTE_RING_QUEUE_FIXED then 0 else sint n))
        in (ret, r2 \<lparr> prod_tail := prod_next \<rparr>))"

definition sc_do_dequeue ::
  "'a rte_ring \<Rightarrow> 'a list \<Rightarrow> u32 \<Rightarrow> rte_ring_queue_behavior \<Rightarrow> int \<times> 'a list \<times> 'a rte_ring" where
  "sc_do_dequeue r obj_table n0 behavior =
     (let mask' = prod_mask r;
          head = cons_head r;
          entries = prod_tail r - head in
      if n0 > entries \<and> behavior = RTE_RING_QUEUE_FIXED then (- ENOENT, obj_table, r)
      else if n0 > entries \<and> entries = 0 then (0, obj_table, r)
      else
        let n = (if n0 > entries then entries else n0);
            cons_next = head + n;
            r1 = r \<lparr> cons_head := cons_next \<rparr>;
            tab = DEQUEUE_PTRS (ring r1) (cons_size r1) mask' head obj_table n
        in (if behavior = RTE_RING_QUEUE_FIXED then 0 else sint n, tab,
            r1 \<lparr> cons_tail := cons_next \<rparr>))"

text \<open>
  The multi-producer and multi-consumer variants move the head by compare-and-set and wait
  for the tail to reach their own head.  The definitions below are one such call with no
  other call in flight: the compare-and-set succeeds at the first attempt and the tail has
  already arrived.  Interleaved executions are not modelled.
\<close>

definition mp_do_enqueue ::
  "'a rte_ring \<Rightarrow> 'a list \<Rightarrow> u32 \<Rightarrow> rte_ring_queue_behavior \<Rightarrow> int \<times> 'a rte_ring" where
  "mp_do_enqueue r obj_table n behavior =
     (if n = 0 then (0, r) else sp_do_enqueue r obj_table n behavior)"

definition mc_do_dequeue ::
  "'a rte_ring \<Rightarrow> 'a list \<Rightarrow> u32 \<Rightarrow> rte_ring_queue_behavior \<Rightarrow> int \<times> 'a list \<times> 'a rte_ring" where
  "mc_do_dequeue r obj_table n behavior =
     (if n = 0 then (0, obj_table, r) else sc_do_dequeue r obj_table n behavior)"

definition rte_ring_enqueue_bulk :: "'a rte_ring \<Rightarrow> 'a list \<Rightarrow> u32 \<Rightarrow> int \<times> 'a rte_ring" where
  "rte_ring_enqueue_bulk r obj_table n =
     (if sp_enqueue r then sp_do_enqueue r obj_table n RTE_RING_QUEUE_FIXED
      else mp_do_enqueue r obj_table n RTE_RING_QUEUE_FIXED)"

definition rte_ring_enqueue :: "'a rte_ring \<Rightarrow> 'a \<Rightarrow> int \<times> 'a rte_ring" where
  "rte_ring_enqueue r obj = rte_ring_enqueue_bulk r [obj] 1"

definition rte_ring_dequeue_bulk ::
  "'a rte_ring \<Rightarrow> 'a list \<Rightarrow> u32 \<Rightarrow> int \<times> 'a list \<times> 'a rte_ring" where
  "rte_ring_dequeue_bulk r obj_table n =
     (if sc_dequeue r then sc_do_dequeue r obj_table n RTE_RING_QUEUE_FIXED
      else mc_do_dequeue r obj_table n RTE_RING_QUEUE_FIXED)"

definition rte_ring_dequeue :: "'a rte_ring \<Rightarrow> 'a \<Rightarrow> int \<times> 'a \<times> 'a rte_ring" where
  "rte_ring_dequeue r obj_p =
     (let (ret, tab, r') = rte_ring_dequeue_bulk r [obj_p] 1 in (ret, hd tab, r'))"

definition rte_ring_enqueue_burst :: "'a rte_ring \<Rightarrow> 'a list \<Rightarrow> u32 \<Rightarrow> u32 \<times> 'a rte_ring" where
  "rte_ring_enqueue_burst r obj_table n =
     (let (ret, r') = (if sp_enqueue r then sp_do_enqueue r obj_table n RTE_RING_QUEUE_VARIABLE
                       else mp_do_enqueue r obj_table n RTE_RING_QUEUE_VARIABLE)
      in (word_of_int ret, r'))"

definition rte_ring_dequeue_burst ::
  "'a rte_ring \<Rightarrow> 'a list \<Rightarrow> u32 \<Rightarrow> u32 \<times> 'a list \<times> 'a rte_ring" where
  "rte_ring_dequeue_burst r obj_table n =
     (let (ret, tab, r') = (if sc_dequeue r then sc_do_dequeue r obj_table n RTE_RING_QUEUE_VARIABLE
                            else mc_do_dequeue r obj_table n RTE_RING_QUEUE_VARIABLE)
      in (word_of_int ret, tab, r'))"

section \<open>Observers\<close>

definition rte_ring_full :: "'a rte_ring \<Rightarrow> bool" where
  "rte_ring_full r \<longleftrightarrow> (cons_tail r - prod_tail r - 1) AND prod_mask r = 0"

definition rte_ring_empty :: "'a rte_ring \<Rightarrow> bool" where
  "rte_ring_empty r \<longleftrightarrow> cons_tail r = prod_tail r"

definition rte_ring_count :: "'a rte_ring \<Rightarrow> u32" where
  "rte_ring_count r = (prod_tail r - cons_tail r) AND prod_mask r"

definition rte_ring_free_count :: "'a rte_ring \<Rightarrow> u32" where
  "rte_ring_free_count r = (cons_tail r - prod_tail r - 1) AND prod_mask r"

section \<open>Invariant and abstraction\<close>

text \<open>
  A ring at rest: the size is a power of two within the limit checked at creation, both
  sides agree on size and mask, the slot memory has that size, no operation is in flight
  (head and tail coincide on both sides), and at most \<open>size - 1\<close> entries are published.
\<close>

definition wf_ring :: "'a rte_ring \<Rightarrow> bool" where
  "wf_ring r \<longleftrightarrow>
     prod_size r \<noteq> 0 \<and> POWEROF2 (prod_size r) \<and> prod_size r \<le> RTE_RING_SZ_MASK \<and>
     prod_mask r = prod_size r - 1 \<and> cons_size r = prod_size r \<and> cons_mask r = prod_mask r \<and>
     length (ring r) = unat (prod_size r) \<and>
     prod_head r = prod_tail r \<and> cons_head r = cons_tail r \<and>
     prod_tail r - cons_tail r \<le> prod_mask r"

text \<open>The queue a ring stands for: the published entries, oldest first.\<close>

definition contents :: "'a rte_ring \<Rightarrow> 'a list" where
  "contents r = mod_slice (ring r) (unat (cons_tail r)) (unat (prod_tail r - cons_tail r))"

definition capacity :: "'a rte_ring \<Rightarrow> nat" where
  "capacity r = unat (prod_mask r)"

text \<open>Light never sets a watermark: a ring keeps the value of its initialisation.\<close>

definition ring_ok :: "'a rte_ring \<Rightarrow> bool" where
  "ring_ok r \<longleftrightarrow> wf_ring r \<and> watermark r = prod_size r"

definition room :: "'a rte_ring \<Rightarrow> nat" where
  "room r = capacity r - length (contents r)"

text \<open>The two effects an operation can have on a ring at rest.\<close>

definition published :: "'a rte_ring \<Rightarrow> 'a list \<Rightarrow> u32 \<Rightarrow> 'a rte_ring" where
  "published r obj n =
     r \<lparr> prod_head := prod_head r + n,
         ring := ENQUEUE_PTRS (ring r) (prod_size r) (prod_mask r) (prod_head r) obj n,
         prod_tail := prod_head r + n \<rparr>"

definition consumed :: "'a rte_ring \<Rightarrow> u32 \<Rightarrow> 'a rte_ring" where
  "consumed r n = r \<lparr> cons_head := cons_head r + n, cons_tail := cons_head r + n \<rparr>"

text \<open>Enqueuing and dequeuing one object after the other, counting the refused ones.\<close>

primrec push_all :: "('q \<Rightarrow> 'a \<Rightarrow> int \<times> 'q) \<Rightarrow> 'a list \<Rightarrow> 'q \<Rightarrow> nat \<times> 'q" where
  "push_all enq [] q = (0, q)"
| "push_all enq (x # xs) q =
     (let (ret, q') = enq q x; (failed, q'') = push_all enq xs q'
      in (if ret = 0 then failed else failed + 1, q''))"

primrec pop_all :: "('q \<Rightarrow> 'a \<Rightarrow> int \<times> 'a \<times> 'q) \<Rightarrow> 'a \<Rightarrow> nat \<Rightarrow> 'q \<Rightarrow> 'a list \<times> 'q" where
  "pop_all deq p 0 q = ([], q)"
| "pop_all deq p (Suc n) q =
     (let (ret, x, q') = deq q p in
      if ret \<noteq> 0 then ([], q')
      else let (xs, q'') = pop_all deq p n q' in (x # xs, q''))"

text \<open>A ring whose indices have just passed the 32-bit limit, for concrete runs.\<close>

definition wrap_ring :: "nat rte_ring" where
  "wrap_ring = \<lparr> name = ''demo'', flags = 0, watermark = 8, sp_enqueue = False,
     prod_size = 8, prod_mask = 7, prod_head = 1, prod_tail = 1,
     sc_dequeue = False, cons_size = 8, cons_mask = 7, cons_head = 0xfffffffe, cons_tail = 0xfffffffe,
     ring = [12, 0, 0, 0, 0, 0, 10, 11] \<rparr>"

text \<open>A ring of \<open>2 ^ k\<close> slots that holds the given objects.\<close>

definition ring_of :: "nat \<Rightarrow> 'a \<Rightarrow> 'a list \<Rightarrow> 'a rte_ring" where
  "ring_of k pad xs = \<lparr> name = ''ring'', flags = 0, watermark = 2 ^ k, sp_enqueue = False,
     prod_size = 2 ^ k, prod_mask = mask k, prod_head = of_nat (length xs), prod_tail = of_nat (length xs),
     sc_dequeue = False, cons_size = 2 ^ k, cons_mask = mask k, cons_head = 0, cons_tail = 0,
     ring = xs @ replicate (2 ^ k - length xs) pad \<rparr>"

section \<open>The copy loops are one modular copy\<close>

lemma length_enq_switch [simp]: "length (enq_switch c rg obj idx i) = length rg"
  by (induction c arbitrary: rg idx i) auto

lemma enq_switch_add:
  "enq_switch (a + b) rg obj idx i = enq_switch b (enq_switch a rg obj idx i) obj (idx + a) (i + a)"
  by (induction a arbitrary: rg idx i) auto

lemma nth_enq_switch:
  "j < length rg \<Longrightarrow> enq_switch c rg obj idx i ! j =
     (if idx \<le> j \<and> j < idx + c then obj ! (i + (j - idx)) else rg ! j)"
proof (induction c arbitrary: rg idx i)
  case (Suc c)
  then show ?case
    by (cases "j \<le> idx") (auto simp: Suc.IH nth_list_update Suc_diff_le intro!: arg_cong [where f = "nth obj"])
qed auto

lemma enq_quads_switch:
  "enq_quads rg obj idx i (i + 4 * q) = (enq_switch (4 * q) rg obj idx i, idx + 4 * q, i + 4 * q)"
proof (induction q arbitrary: rg idx i)
  case 0
  show ?case by (subst enq_quads.simps) simp
next
  case (Suc q)
  have "enq_quads rg obj idx i (i + 4 * Suc q) =
        enq_quads (enq_switch 4 rg obj idx i) obj (idx + 4) (i + 4) ((i + 4) + 4 * q)"
    by (subst enq_quads.simps) (simp add: eval_nat_numeral)
  also have "\<dots> = (enq_switch (4 + 4 * q) rg obj idx i, idx + 4 + 4 * q, i + 4 + 4 * q)"
    by (simp only: Suc.IH enq_switch_add)
  finally show ?case by simp
qed

lemma enq_to_end_switch:
  "enq_to_end rg obj idx i (idx + c) = (enq_switch c rg obj idx i, i + c)"
proof (induction c arbitrary: rg idx i)
  case 0
  show ?case by (subst enq_to_end.simps) simp
next
  case (Suc c)
  have "enq_to_end rg obj idx i (idx + Suc c) =
        enq_to_end (rg[idx := obj ! i]) obj (Suc idx) (Suc i) (Suc idx + c)"
    by (subst enq_to_end.simps) simp
  then show ?case by (simp only: Suc.IH) simp
qed

lemma enq_from_start_switch:
  "enq_from_start rg obj idx i (i + c) = enq_switch c rg obj idx i"
proof (induction c arbitrary: rg idx i)
  case 0
  show ?case by (subst enq_from_start.simps) simp
next
  case (Suc c)
  have "enq_from_start rg obj idx i (i + Suc c) =
        enq_from_start (rg[idx := obj ! i]) obj (Suc idx) (Suc i) (Suc i + c)"
    by (subst enq_from_start.simps) simp
  then show ?case by (simp only: Suc.IH) simp
qed

lemma deq_switch_enq: "deq_switch c obj rg idx i = enq_switch c obj rg i idx"
  by (induction c arbitrary: obj idx i) auto

lemma deq_quads_enq:
  "deq_quads obj rg idx i (i + 4 * q) = (enq_switch (4 * q) obj rg i idx, idx + 4 * q, i + 4 * q)"
proof (induction q arbitrary: obj idx i)
  case 0
  show ?case by (subst deq_quads.simps) simp
next
  case (Suc q)
  have "deq_quads obj rg idx i (i + 4 * Suc q) =
        deq_quads (enq_switch 4 obj rg i idx) rg (idx + 4) (i + 4) ((i + 4) + 4 * q)"
    by (subst deq_quads.simps) (simp add: eval_nat_numeral)
  also have "\<dots> = (enq_switch (4 + 4 * q) obj rg i idx, idx + 4 + 4 * q, i + 4 + 4 * q)"
    by (simp only: Suc.IH enq_switch_add)
  finally show ?case by simp
qed

lemma deq_to_end_enq:
  "deq_to_end obj rg idx i (idx + c) = (enq_switch c obj rg i idx, i + c)"
proof (induction c arbitrary: obj idx i)
  case 0
  show ?case by (subst deq_to_end.simps) simp
next
  case (Suc c)
  have "deq_to_end obj rg idx i (idx + Suc c) =
        deq_to_end (obj[i := rg ! idx]) rg (Suc idx) (Suc i) (Suc idx + c)"
    by (subst deq_to_end.simps) simp
  then show ?case by (simp only: Suc.IH) simp
qed

lemma deq_from_start_enq:
  "deq_from_start obj rg idx i (i + c) = enq_switch c obj rg i idx"
proof (induction c arbitrary: obj idx i)
  case 0
  show ?case by (subst deq_from_start.simps) simp
next
  case (Suc c)
  have "deq_from_start obj rg idx i (i + Suc c) =
        deq_from_start (obj[i := rg ! idx]) rg (Suc idx) (Suc i) (Suc i + c)"
    by (subst deq_from_start.simps) simp
  then show ?case by (simp only: Suc.IH) simp
qed

lemma three_mask: "(3 :: u32) = mask 2"
  by (simp add: mask_eq_exp_minus_1)

lemma unat_and_3: "unat (n AND 3 :: u32) = unat n mod 4"
  using unat_and_mask_word [of n 2] by (simp add: three_mask)

lemma unat_and_not_3: "unat (n AND NOT 3 :: u32) = 4 * (unat n div 4)"
proof -
  have "n AND NOT (mask 2) = push_bit 2 (drop_bit 2 n)"
    by (rule bit_word_eqI) (auto simp: bit_simps le_add_diff_inverse simp del: add_2_eq_Suc)
  moreover have "n = push_bit 2 (drop_bit 2 n) + (n AND mask 2)"
    by (simp add: bits_ident flip: take_bit_eq_mask)
  ultimately have "n AND NOT 3 = n - (n AND 3)"
    by (simp add: three_mask algebra_simps)
  moreover have "(n AND 3) \<le> n" by (simp add: word_and_le2)
  ultimately have "unat (n AND NOT 3) = unat n - unat n mod 4"
    by (simp add: unat_sub unat_and_3)
  then show ?thesis by (simp add: minus_mod_eq_mult_div)
qed

lemmas unat_and_m4 = unat_and_not_3 [simplified]

lemma enq_modular:
  fixes b :: nat
  assumes len: "length rg = N" and b: "b < N" and n: "n \<le> N" and i: "i < N"
  shows "(if b + n < N then enq_switch n rg obj b 0
          else enq_switch (n - (N - b)) (enq_switch (N - b) rg obj b 0) obj 0 (N - b)) ! ((b + i) mod N)
         = (if i < n then obj ! i else rg ! ((b + i) mod N))"
proof (cases "b + i < N")
  case True
  then show ?thesis using assms by (auto simp: nth_enq_switch)
next
  case False
  then have "(b + i) mod N = b + i - N"
    using b i by (simp add: mod_if)
  then show ?thesis using assms False by (auto simp: nth_enq_switch)
qed

lemma deq_modular:
  fixes b :: nat
  assumes len: "length rg = N" and b: "b < N" and n: "n \<le> N" and i: "i < length obj"
  shows "(if b + n < N then enq_switch n obj rg 0 b
          else enq_switch (n - (N - b)) (enq_switch (N - b) obj rg 0 b) rg (N - b) 0) ! i
         = (if i < n then rg ! ((b + i) mod N) else obj ! i)"
proof (cases "b + i < N")
  case True
  then show ?thesis using assms by (auto simp: nth_enq_switch)
next
  case False
  then have "i < n \<Longrightarrow> (b + i) mod N = b + i - N"
    using b n by (simp add: mod_if)
  then show ?thesis using assms False by (auto simp: nth_enq_switch add.commute)
qed

lemma ring_idx_less:
  fixes head n :: u32
  assumes k: "k \<le> 27" and n: "unat n \<le> 2 ^ k"
  shows "(head AND mask k) + n < 2 ^ k \<longleftrightarrow> unat head mod 2 ^ k + unat n < 2 ^ k"
proof -
  have N: "(2::nat) ^ k \<le> 134217728"
    using power_increasing [of k 27 "2 :: nat"] k by simp
  have "unat head mod 2 ^ k < (2 :: nat) ^ k" by simp
  then have "unat head mod 2 ^ k + unat n < 4294967296"
    using n N by linarith
  then have "unat ((head AND mask k) + n) = unat head mod 2 ^ k + unat n"
    by (subst unat_add_no_wrap) (auto simp: unat_and_mask_word)
  then show ?thesis using k by (simp add: word_less_nat_alt)
qed

lemmas ptrs_rules = unat_and_mask_word unat_and_3 unat_and_m4 ring_idx_less not_less Let_def

lemma ENQUEUE_PTRS_switch:
  assumes k: "k \<le> 27" and n: "unat n \<le> 2 ^ k"
  shows "ENQUEUE_PTRS rg (2 ^ k) (mask k) head obj n =
     (let b = unat head mod 2 ^ k in
      if b + unat n < 2 ^ k then enq_switch (unat n) rg obj b 0
      else enq_switch (unat n - (2 ^ k - b)) (enq_switch (2 ^ k - b) rg obj b 0) obj 0 (2 ^ k - b))"
proof -
  define b where "b = unat head mod 2 ^ k"
  have bN: "b < 2 ^ k" by (simp add: b_def)
  have quads: "enq_quads rg obj b 0 (4 * (unat n div 4)) =
       (enq_switch (4 * (unat n div 4)) rg obj b 0, b + 4 * (unat n div 4), 4 * (unat n div 4))"
    using enq_quads_switch [of rg obj b 0 "unat n div 4"] by simp
  have join: "enq_switch (unat n mod 4) (enq_switch (4 * (unat n div 4)) rg obj b 0) obj
        (b + 4 * (unat n div 4)) (4 * (unat n div 4)) = enq_switch (unat n) rg obj b 0"
    using enq_switch_add [of "4 * (unat n div 4)" "unat n mod 4" rg obj b 0] by simp
  have stop: "enq_to_end rg obj b 0 (2 ^ k) = (enq_switch (2 ^ k - b) rg obj b 0, 2 ^ k - b)"
    using enq_to_end_switch [of rg obj b 0 "2 ^ k - b"] bN by simp
  have start: "b + unat n \<ge> 2 ^ k \<Longrightarrow> enq_from_start r' obj 0 (2 ^ k - b) (unat n) =
      enq_switch (unat n - (2 ^ k - b)) r' obj 0 (2 ^ k - b)" for r'
    using enq_from_start_switch [of r' obj 0 "2 ^ k - b" "unat n - (2 ^ k - b)"] by simp
  show ?thesis
    using k n by (auto simp: ENQUEUE_PTRS_def ptrs_rules quads join stop start b_def [symmetric])
qed

lemma DEQUEUE_PTRS_switch:
  assumes k: "k \<le> 27" and n: "unat n \<le> 2 ^ k"
  shows "DEQUEUE_PTRS rg (2 ^ k) (mask k) head obj n =
     (let b = unat head mod 2 ^ k in
      if b + unat n < 2 ^ k then enq_switch (unat n) obj rg 0 b
      else enq_switch (unat n - (2 ^ k - b)) (enq_switch (2 ^ k - b) obj rg 0 b) rg (2 ^ k - b) 0)"
proof -
  define b where "b = unat head mod 2 ^ k"
  have bN: "b < 2 ^ k" by (simp add: b_def)
  have quads: "deq_quads obj rg b 0 (4 * (unat n div 4)) =
       (enq_switch (4 * (unat n div 4)) obj rg 0 b, b + 4 * (unat n div 4), 4 * (unat n div 4))"
    using deq_quads_enq [of obj rg b 0 "unat n div 4"] by simp
  have join: "enq_switch (unat n mod 4) (enq_switch (4 * (unat n div 4)) obj rg 0 b) rg
        (4 * (unat n div 4)) (b + 4 * (unat n div 4)) = enq_switch (unat n) obj rg 0 b"
    using enq_switch_add [of "4 * (unat n div 4)" "unat n mod 4" obj rg 0 b] by simp
  have stop: "deq_to_end obj rg b 0 (2 ^ k) = (enq_switch (2 ^ k - b) obj rg 0 b, 2 ^ k - b)"
    using deq_to_end_enq [of obj rg b 0 "2 ^ k - b"] bN by simp
  have start: "b + unat n \<ge> 2 ^ k \<Longrightarrow> deq_from_start r' rg 0 (2 ^ k - b) (unat n) =
      enq_switch (unat n - (2 ^ k - b)) r' rg (2 ^ k - b) 0" for r'
    using deq_from_start_enq [of r' rg 0 "2 ^ k - b" "unat n - (2 ^ k - b)"] by simp
  show ?thesis
    using k n by (auto simp: DEQUEUE_PTRS_def ptrs_rules quads join stop start deq_switch_enq
        b_def [symmetric])
qed

lemma nth_ENQUEUE_PTRS:
  assumes "k \<le> 27" "unat n \<le> 2 ^ k" "length rg = 2 ^ k" "i < 2 ^ k"
  shows "ENQUEUE_PTRS rg (2 ^ k) (mask k) head obj n ! ((unat head + i) mod 2 ^ k) =
     (if i < unat n then obj ! i else rg ! ((unat head + i) mod 2 ^ k))"
  using enq_modular [of rg "2 ^ k" "unat head mod 2 ^ k" "unat n" i obj] assms
  by (simp add: ENQUEUE_PTRS_switch Let_def mod_simps)

lemma length_ENQUEUE_PTRS:
  "k \<le> 27 \<Longrightarrow> unat n \<le> 2 ^ k \<Longrightarrow> length (ENQUEUE_PTRS rg (2 ^ k) (mask k) head obj n) = length rg"
  by (simp add: ENQUEUE_PTRS_switch Let_def)

lemma length_DEQUEUE_PTRS:
  "k \<le> 27 \<Longrightarrow> unat n \<le> 2 ^ k \<Longrightarrow> length (DEQUEUE_PTRS rg (2 ^ k) (mask k) head obj n) = length obj"
  by (simp add: DEQUEUE_PTRS_switch Let_def)

lemma DEQUEUE_PTRS_slice:
  assumes k: "k \<le> 27" and n: "unat n \<le> 2 ^ k" and len: "length rg = 2 ^ k"
    and obj: "unat n \<le> length obj"
  shows "DEQUEUE_PTRS rg (2 ^ k) (mask k) head obj n =
     mod_slice rg (unat head) (unat n) @ drop (unat n) obj"
proof (rule nth_equalityI)
  show "length (DEQUEUE_PTRS rg (2 ^ k) (mask k) head obj n) =
        length (mod_slice rg (unat head) (unat n) @ drop (unat n) obj)"
    using assms by (simp add: length_DEQUEUE_PTRS)
next
  fix i assume "i < length (DEQUEUE_PTRS rg (2 ^ k) (mask k) head obj n)"
  then have i: "i < length obj" using k n by (simp add: length_DEQUEUE_PTRS)
  show "DEQUEUE_PTRS rg (2 ^ k) (mask k) head obj n ! i =
        (mod_slice rg (unat head) (unat n) @ drop (unat n) obj) ! i"
    using deq_modular [of rg "2 ^ k" "unat head mod 2 ^ k" "unat n" i obj] assms i
    by (auto simp: DEQUEUE_PTRS_switch Let_def mod_simps nth_append)
qed

lemma POWEROF2_exp:
  assumes x: "x \<noteq> 0" and p: "POWEROF2 x" and le: "x \<le> RTE_RING_SZ_MASK"
  shows "\<exists>k \<le> 27. x = 2 ^ k"
proof -
  have pos: "1 \<le> unat x" using x by (simp add: Suc_le_eq unat_gt_0)
  obtain k where k: "2 ^ k \<le> unat x" "unat x < 2 ^ (k + 1)"
    using ex_power_ivl1 [of 2 "unat x"] pos by auto
  have "unat x < 2 ^ 28"
    using le by (simp add: RTE_RING_SZ_MASK_def word_le_nat_alt)
  then have "(2::nat) ^ k < 2 ^ 28" using k(1) by linarith
  then have k27: "k \<le> 27" using power_less_imp_less_exp [of "2::nat" k 28] by simp
  have x1: "unat (x - 1) = unat x - 1"
    using pos by (simp add: unat_sub word_le_nat_alt)
  have "unat x = 2 ^ k"
  proof (rule ccontr)
    assume "unat x \<noteq> 2 ^ k"
    then have "2 ^ k \<le> unat x - 1" "unat x - 1 < 2 ^ (k + 1)" using k by linarith+
    then have "(unat x - 1) div 2 ^ k = 1" "unat x div 2 ^ k = 1"
      using k by (auto intro!: div_nat_eqI)
    then have "bit (unat (x - 1)) k" "bit (unat x) k"
      by (simp_all add: bit_iff_odd x1)
    then have "bit ((x - 1) AND x) k" by (simp add: bit_simps bit_unsigned_iff)
    then show False using p by (simp add: POWEROF2_def)
  qed
  then have "x = 2 ^ k" using k27 by (intro word_unat_eq_iff [THEN iffD2]) simp
  with k27 show ?thesis by blast
qed

section \<open>Rings at rest\<close>

lemma exp_minus_1_mask: "(2 :: u32) ^ k - 1 = mask k"
  by (simp add: mask_eq_exp_minus_1)

lemma unat_mask: "k \<le> 27 \<Longrightarrow> unat (mask k :: u32) = 2 ^ k - 1"
  by (simp add: mask_eq_exp_minus_1 unat_sub word_le_nat_alt)

lemma wf_ringE:
  assumes "wf_ring r"
  obtains k where "k \<le> 27" "prod_size r = 2 ^ k" "prod_mask r = mask k" "cons_size r = 2 ^ k"
    "cons_mask r = mask k" "length (ring r) = 2 ^ k" "prod_head r = prod_tail r"
    "cons_head r = cons_tail r" "unat (prod_tail r - cons_tail r) \<le> 2 ^ k - 1"
    "capacity r = 2 ^ k - 1"
proof -
  obtain k where "k \<le> 27" "prod_size r = 2 ^ k"
    using POWEROF2_exp [of "prod_size r"] assms by (auto simp: wf_ring_def)
  with assms show thesis
    by (intro that [of k]) (auto simp: wf_ring_def exp_minus_1_mask capacity_def unat_mask
        word_le_nat_alt)
qed

lemma wf_ringI:
  assumes "k \<le> 27" "prod_size r = 2 ^ k" "prod_mask r = mask k" "cons_size r = 2 ^ k"
    "cons_mask r = mask k" "length (ring r) = 2 ^ k" "prod_head r = prod_tail r"
    "cons_head r = cons_tail r" "unat (prod_tail r - cons_tail r) \<le> 2 ^ k - 1"
  shows "wf_ring r"
proof -
  have "(2 ^ k - 1) AND (2 ^ k) = (0 :: u32)"
    by (rule bit_word_eqI) (auto simp: bit_simps exp_minus_1_mask)
  moreover have "(2 :: nat) ^ k \<le> 134217728"
    using power_increasing [of k 27 "2 :: nat"] assms(1) by simp
  moreover have "(2 :: u32) ^ k \<noteq> 0"
  proof
    assume "(2 :: u32) ^ k = 0"
    then have "unat ((2 :: u32) ^ k) = 0" by (simp only: unsigned_0)
    then show False using unat_2p [of k] assms(1) by simp
  qed
  ultimately show ?thesis
    using assms by (simp add: wf_ring_def POWEROF2_def RTE_RING_SZ_MASK_def word_le_nat_alt
        exp_minus_1_mask unat_mask)
qed

lemma wf_ring_count: "wf_ring r \<Longrightarrow> length (contents r) \<le> capacity r"
  by (erule wf_ringE) (simp add: contents_def)

lemma head_mod:
  fixes h t :: u32
  assumes "k \<le> 32"
  shows "unat h mod 2 ^ k = (unat t + unat (h - t)) mod 2 ^ k"
  using unat_add_of_nat_mask [OF assms, of t "unat (h - t)"] by (simp add: unat_and_mask_word)

lemma unat_index_advance:
  fixes h t n :: u32
  assumes "unat (h - t) + unat n < 4294967296"
  shows "unat (h + n - t) = unat (h - t) + unat n"
proof -
  have "h + n - t = (h - t) + n" by simp
  then show ?thesis using assms by (simp only: unat_add_no_wrap)
qed

lemma published_count:
  assumes wf: "wf_ring r" and n: "length (contents r) + unat n \<le> capacity r"
  shows "unat (prod_tail r + n - cons_tail r) = length (contents r) + unat n"
proof -
  from wf obtain k where k: "k \<le> 27" "capacity r = 2 ^ k - 1" by (rule wf_ringE)
  then show ?thesis
    using n pow27 [of k] by (subst unat_index_advance) (auto simp: contents_def)
qed

lemma wf_published:
  assumes wf: "wf_ring r" and n: "length (contents r) + unat n \<le> capacity r"
  shows "wf_ring (published r obj n)"
proof -
  from wf obtain k where k: "k \<le> 27" "prod_size r = 2 ^ k" "prod_mask r = mask k"
    "cons_size r = 2 ^ k" "cons_mask r = mask k" "length (ring r) = 2 ^ k"
    "prod_head r = prod_tail r" "cons_head r = cons_tail r" "capacity r = 2 ^ k - 1"
    by (rule wf_ringE)
  show ?thesis
    by (rule wf_ringI [of k])
      (use k n published_count [OF wf n] in \<open>auto simp: published_def length_ENQUEUE_PTRS\<close>)
qed

lemma contents_published:
  assumes wf: "wf_ring r" and n: "length (contents r) + unat n \<le> capacity r"
    and obj: "unat n \<le> length obj"
  shows "contents (published r obj n) = contents r @ take (unat n) obj"
proof -
  from wf obtain k where k: "k \<le> 27" "prod_size r = 2 ^ k" "prod_mask r = mask k"
    "length (ring r) = 2 ^ k" "prod_head r = prod_tail r" "capacity r = 2 ^ k - 1"
    by (rule wf_ringE)
  define c where "c = unat (prod_tail r - cons_tail r)"
  let ?N = "2 ^ k :: nat"
  let ?t = "unat (cons_tail r)" and ?h = "unat (prod_tail r)"
  let ?rg = "ENQUEUE_PTRS (ring r) (2 ^ k) (mask k) (prod_tail r) obj n"
  have len: "length ?rg = ?N" using k n by (subst length_ENQUEUE_PTRS) auto
  have cn: "c + unat n < ?N" 
  proof -
    have "(0 :: nat) < ?N" by simp
    moreover have "c + unat n \<le> ?N - 1" using n k by (simp add: contents_def c_def)
    ultimately show ?thesis by linarith
  qed
  have hm: "?h mod ?N = (?t + c) mod ?N"
    unfolding c_def using k by (intro head_mod) simp
  have nth: "?rg ! ((?t + c + i) mod ?N) =
      (if i < unat n then obj ! i else ring r ! ((?t + c + i) mod ?N))" if "i < ?N" for i
  proof -
    have "(?t + c + i) mod ?N = (?h + i) mod ?N"
      using hm by (metis mod_add_left_eq)
    then show ?thesis
      using nth_ENQUEUE_PTRS [of k n "ring r" i "prod_tail r" obj] that k cn by simp
  qed
  have "mod_slice ?rg ?t (c + unat n) = mod_slice (ring r) ?t c @ take (unat n) obj"
  proof (rule nth_equalityI)
    fix i assume "i < length (mod_slice ?rg ?t (c + unat n))"
    then have i: "i < c + unat n" by simp
    show "mod_slice ?rg ?t (c + unat n) ! i = (mod_slice (ring r) ?t c @ take (unat n) obj) ! i"
    proof (cases "i < c")
      case True
      have "?t + c + (?N - c + i) = (?t + i) + ?N"
        using cn by simp
      then have "(?t + c + (?N - c + i)) mod ?N = (?t + i) mod ?N"
        by (simp only: mod_add_self2)
      moreover have "?N - c + i < ?N" "\<not> ?N - c + i < unat n" using True cn by linarith+
      ultimately have "?rg ! ((?t + i) mod ?N) = ring r ! ((?t + i) mod ?N)"
        using nth [of "?N - c + i"] by (simp only: if_False)
      then show ?thesis using True k len by (simp add: nth_append)
    next
      case False
      then have "i - c < unat n" "i - c < ?N" "?t + c + (i - c) = ?t + i" using i cn by linarith+
      with nth [of "i - c"] have "?rg ! ((?t + i) mod ?N) = obj ! (i - c)" by (simp only: if_True)
      then show ?thesis using False i obj len by (simp add: nth_append)
    qed
  qed (use obj in simp)
  then show ?thesis
    using published_count [OF wf n] k by (simp add: contents_def published_def c_def)
qed

lemma consumed_props:
  assumes wf: "wf_ring r" and n: "unat n \<le> length (contents r)"
  shows "wf_ring (consumed r n)" "contents (consumed r n) = drop (unat n) (contents r)"
proof -
  from wf obtain k where k: "k \<le> 27" "prod_size r = 2 ^ k" "prod_mask r = mask k"
    "cons_size r = 2 ^ k" "cons_mask r = mask k" "length (ring r) = 2 ^ k"
    "prod_head r = prod_tail r" "cons_head r = cons_tail r"
    "unat (prod_tail r - cons_tail r) \<le> 2 ^ k - 1"
    by (rule wf_ringE)
  have cnt: "unat (prod_tail r - (cons_tail r + n)) = unat (prod_tail r - cons_tail r) - unat n"
    using n by (simp add: diff_diff_eq [symmetric] unat_diff_le contents_def)
  show "wf_ring (consumed r n)"
    by (rule wf_ringI [of k]) (use k cnt in \<open>auto simp: consumed_def\<close>)
  have "unat (cons_tail r + n) mod 2 ^ k = (unat (cons_tail r) + unat n) mod 2 ^ k"
    using unat_add_of_nat_mask [of k "cons_tail r" "unat n"] k by (simp add: unat_and_mask_word)
  then show "contents (consumed r n) = drop (unat n) (contents r)"
    using n k cnt by (simp add: contents_def consumed_def drop_mod_slice)
      (intro mod_slice_cong_base, simp)
qed


lemma free_entries_eq:
  assumes "wf_ring r"
  shows "unat (prod_mask r + cons_tail r - prod_head r) = capacity r - length (contents r)"
proof -
  from assms obtain k where k: "prod_head r = prod_tail r" "capacity r = 2 ^ k - 1"
    "unat (prod_tail r - cons_tail r) \<le> 2 ^ k - 1" by (rule wf_ringE)
  have "prod_mask r + cons_tail r - prod_tail r = prod_mask r - (prod_tail r - cons_tail r)"
    by simp
  moreover have "unat (prod_mask r - (prod_tail r - cons_tail r)) =
      unat (prod_mask r) - unat (prod_tail r - cons_tail r)"
    using k by (intro unat_diff_le) (simp add: capacity_def)
  ultimately show ?thesis
    by (simp only: k(1)) (simp add: capacity_def contents_def)
qed

lemma watermark_cmp:
  assumes wf: "wf_ring r" and n: "length (contents r) + unat n \<le> capacity r"
  shows "(prod_mask r + 1) - (prod_mask r + cons_tail r - prod_head r) + n > watermark r \<longleftrightarrow>
         length (contents r) + unat n + 1 > unat (watermark r)"
proof -
  from wf obtain k where k: "k \<le> 27" "prod_head r = prod_tail r" "capacity r = 2 ^ k - 1"
    "prod_mask r = mask k" by (rule wf_ringE)
  have "(prod_mask r + 1) - (prod_mask r + cons_tail r - prod_head r) + n =
        ((prod_tail r - cons_tail r) + n) + 1" by (simp add: k)
  moreover have "unat ((prod_tail r - cons_tail r) + n) = length (contents r) + unat n"
    using published_count [OF wf n] by (simp add: algebra_simps)
  moreover have "(2::nat) ^ k \<le> 134217728" using pow27 k by blast
  ultimately have "unat ((prod_mask r + 1) - (prod_mask r + cons_tail r - prod_head r) + n) =
        length (contents r) + unat n + 1"
    using n k by (simp only: unat_add_no_wrap) (subst unat_add_no_wrap, auto)
  then show ?thesis by (simp add: word_less_nat_alt)
qed

text \<open>Every branch of the enqueue on a ring at rest.\<close>

lemma sp_do_enqueue_fixed:
  assumes wf: "wf_ring r"
  shows "sp_do_enqueue r obj n RTE_RING_QUEUE_FIXED =
    (if unat n \<le> room r
     then (if length (contents r) + unat n + 1 > unat (watermark r) then - EDQUOT else 0,
           published r obj n)
     else (- ENOBUFS, r))"
  using free_entries_eq [OF wf] watermark_cmp [OF wf, of n] wf_ring_count [OF wf]
  by (auto simp: sp_do_enqueue_def Let_def word_less_nat_alt published_def room_def)

lemma sc_do_dequeue_fixed:
  assumes wf: "wf_ring r" and tab: "unat n \<le> length obj"
  shows "sc_do_dequeue r obj n RTE_RING_QUEUE_FIXED =
    (if unat n \<le> length (contents r)
     then (0, take (unat n) (contents r) @ drop (unat n) obj, consumed r n)
     else (- ENOENT, obj, r))"
proof -
  from wf obtain k where k: "k \<le> 27" "cons_size r = 2 ^ k" "prod_mask r = mask k"
    "length (ring r) = 2 ^ k" "cons_head r = cons_tail r" "capacity r = 2 ^ k - 1"
    "unat (prod_tail r - cons_tail r) \<le> 2 ^ k - 1"
    by (rule wf_ringE)
  then show ?thesis
    using tab by (auto simp: sc_do_dequeue_def Let_def word_less_nat_alt consumed_def contents_def
        DEQUEUE_PTRS_slice take_mod_slice min_def)
qed

lemma published_0: "wf_ring r \<Longrightarrow> published r obj 0 = r"
proof -
  assume wf: "wf_ring r"
  from wf obtain k where k: "k \<le> 27" "prod_size r = 2 ^ k" "prod_mask r = mask k"
    "prod_head r = prod_tail r" by (rule wf_ringE)
  have "ENQUEUE_PTRS (ring r) (2 ^ k) (mask k) (prod_tail r) obj 0 = ring r"
    using k by (simp add: ENQUEUE_PTRS_switch Let_def)
  then show ?thesis using k by (simp add: published_def)
qed

lemma consumed_0: "wf_ring r \<Longrightarrow> consumed r 0 = r"
  by (erule wf_ringE) (simp add: consumed_def)

lemma published_fields [simp]:
  "capacity (published r obj n) = capacity r" "watermark (published r obj n) = watermark r"
  "prod_size (published r obj n) = prod_size r" "sp_enqueue (published r obj n) = sp_enqueue r"
  "sc_dequeue (published r obj n) = sc_dequeue r"
  by (simp_all add: published_def capacity_def)

lemma consumed_fields [simp]:
  "capacity (consumed r n) = capacity r" "watermark (consumed r n) = watermark r"
  "prod_size (consumed r n) = prod_size r" "sp_enqueue (consumed r n) = sp_enqueue r"
  "sc_dequeue (consumed r n) = sc_dequeue r"
  by (simp_all add: consumed_def capacity_def)

lemma ring_ok_wf [simp]: "ring_ok r \<Longrightarrow> wf_ring r"
  by (simp add: ring_ok_def)

lemma ring_ok_watermark: "ring_ok r \<Longrightarrow> unat (watermark r) = capacity r + 1"
  unfolding ring_ok_def by (elim conjE wf_ringE) simp

lemma ring_ok_count: "ring_ok r \<Longrightarrow> length (contents r) \<le> capacity r"
  by (simp add: wf_ring_count)

lemma ring_ok_published:
  "ring_ok r \<Longrightarrow> unat n \<le> room r \<Longrightarrow> ring_ok (published r obj n)"
  using ring_ok_count [of r] by (simp add: ring_ok_def wf_published room_def)

lemma ring_ok_consumed:
  "ring_ok r \<Longrightarrow> unat n \<le> length (contents r) \<Longrightarrow> ring_ok (consumed r n)"
  by (simp add: ring_ok_def consumed_props)

lemma contents_published_room:
  "ring_ok r \<Longrightarrow> unat n \<le> room r \<Longrightarrow> unat n \<le> length obj \<Longrightarrow>
   contents (published r obj n) = contents r @ take (unat n) obj"
  using ring_ok_count [of r] by (simp add: contents_published room_def)

lemma contents_consumed:
  "ring_ok r \<Longrightarrow> unat n \<le> length (contents r) \<Longrightarrow>
   contents (consumed r n) = drop (unat n) (contents r)"
  by (simp add: consumed_props)

lemma capacity_small: "wf_ring r \<Longrightarrow> capacity r < 134217728"
proof -
  assume "wf_ring r"
  then obtain k where "k \<le> 27" "capacity r = 2 ^ k - 1" by (rule wf_ringE)
  then show ?thesis using pow27 [of k] by simp
qed

lemma unat_of_nat_small: "m < 4294967296 \<Longrightarrow> unat (of_nat m :: u32) = m"
  by (simp add: unat_of_nat)

lemma rte_ring_enqueue_bulk_eq:
  assumes ok: "ring_ok r"
  shows "rte_ring_enqueue_bulk r obj n =
    (if unat n \<le> room r then (0, published r obj n) else (- ENOBUFS, r))"
  using sp_do_enqueue_fixed [of r obj n] ring_ok_watermark [OF ok] ring_ok_count [OF ok] ok
  by (auto simp: rte_ring_enqueue_bulk_def mp_do_enqueue_def room_def published_0)

lemma rte_ring_dequeue_bulk_eq:
  assumes ok: "ring_ok r" and tab: "unat n \<le> length obj"
  shows "rte_ring_dequeue_bulk r obj n =
    (if unat n \<le> length (contents r)
     then (0, take (unat n) (contents r) @ drop (unat n) obj, consumed r n)
     else (- ENOENT, obj, r))"
  using sc_do_dequeue_fixed [of r n obj] ok tab
  by (auto simp: rte_ring_dequeue_bulk_def mc_do_dequeue_def consumed_0)

lemma rte_ring_enqueue_eq:
  "ring_ok r \<Longrightarrow> rte_ring_enqueue r x =
    (if length (contents r) < capacity r then (0, published r [x] 1) else (- ENOBUFS, r))"
  using ring_ok_count [of r] by (auto simp: rte_ring_enqueue_def rte_ring_enqueue_bulk_eq room_def)

lemma rte_ring_dequeue_eq:
  "ring_ok r \<Longrightarrow> rte_ring_dequeue r p =
    (case contents r of [] \<Rightarrow> (- ENOENT, p, r) | x # xs \<Rightarrow> (0, x, consumed r 1))"
  by (auto simp: rte_ring_dequeue_def rte_ring_dequeue_bulk_eq split: list.split)

lemma sp_do_enqueue_variable:
  assumes ok: "ring_ok r"
  shows "sp_do_enqueue r obj n RTE_RING_QUEUE_VARIABLE =
    (let m = of_nat (min (unat n) (room r)) in (sint m, published r obj m))"
proof -
  define f where "f = prod_mask r + cons_tail r - prod_head r"
  have f: "unat f = room r" using free_entries_eq [of r] ok by (simp add: room_def f_def)
  have f0: "f = 0 \<longleftrightarrow> room r = 0" using f by (metis unat_eq_zero)
  have fw: "of_nat (room r) = f" by (simp add: f [symmetric])
  have wm: "\<not> (prod_mask r + 1) - f + m > watermark r" if "unat m \<le> room r" for m
    unfolding f_def using watermark_cmp [of r m] that ok ring_ok_watermark [OF ok] ring_ok_count [OF ok]
    by (simp add: room_def)
  have p0: "published r obj 0 = r" using ok by (simp add: published_0)
  show ?thesis
  proof (cases "unat n \<le> room r")
    case True
    then have "\<not> n > f" using f by (simp add: word_less_nat_alt)
    then show ?thesis
      using True wm [of n] by (simp add: sp_do_enqueue_def Let_def f_def [symmetric] published_def)
  next
    case False
    then have n: "n > f" and m: "of_nat (min (unat n) (room r)) = f"
      using f fw by (simp_all add: word_less_nat_alt)
    show ?thesis
    proof (cases "f = 0")
      case True
      then have "prod_mask r + cons_tail r = prod_head r" by (simp add: f_def)
      then show ?thesis
        using n m p0 True by (simp add: sp_do_enqueue_def Let_def)
    next
      case False
      then have "prod_mask r + cons_tail r \<noteq> prod_head r" by (simp add: f_def)
      then show ?thesis
        using False n m wm [of f] f by (simp add: sp_do_enqueue_def Let_def f_def [symmetric] published_def)
    qed
  qed
qed

lemma sc_do_dequeue_variable:
  assumes ok: "ring_ok r" and tab: "unat n \<le> length obj"
  shows "sc_do_dequeue r obj n RTE_RING_QUEUE_VARIABLE =
    (let m = of_nat (min (unat n) (length (contents r)))
     in (sint m, take (unat m) (contents r) @ drop (unat m) obj, consumed r m))"
proof -
  have wf: "wf_ring r" using ok by simp
  define f where "f = prod_tail r - cons_tail r"
  have f: "unat f = length (contents r)" by (simp add: contents_def f_def)
  have f0: "f = 0 \<longleftrightarrow> contents r = []" using f by (metis unat_eq_zero length_0_conv)
  have fw: "of_nat (length (contents r)) = f" by (simp add: f [symmetric])
  from wf obtain k where k: "k \<le> 27" "cons_size r = 2 ^ k" "prod_mask r = mask k"
    "length (ring r) = 2 ^ k" "cons_head r = cons_tail r"
    "unat (prod_tail r - cons_tail r) \<le> 2 ^ k - 1"
    by (rule wf_ringE)
  have deq: "DEQUEUE_PTRS (ring r) (2 ^ k) (mask k) (cons_tail r) obj m =
       take (unat m) (contents r) @ drop (unat m) obj" if "unat m \<le> length (contents r)" "unat m \<le> unat n" for m
    using that k tab by (simp add: contents_def DEQUEUE_PTRS_slice take_mod_slice min_def)
  have c0: "consumed r 0 = r" using wf by (simp add: consumed_0)
  show ?thesis
  proof (cases "unat n \<le> length (contents r)")
    case True
    then have "\<not> n > f" using f by (simp add: word_less_nat_alt)
    then show ?thesis
      using True deq [of n] k by (simp add: sc_do_dequeue_def Let_def f_def [symmetric] consumed_def)
  next
    case False
    then have n: "n > f" and m: "of_nat (min (unat n) (length (contents r))) = f"
      using f fw by (simp_all add: word_less_nat_alt)
    show ?thesis
    proof (cases "f = 0")
      case True
      then have "prod_tail r = cons_tail r" by (simp add: f_def)
      then show ?thesis
        using n m c0 k True by (simp add: sc_do_dequeue_def Let_def)
    next
      case False
      then have "prod_tail r \<noteq> cons_tail r" by (simp add: f_def)
      then show ?thesis
        using False n m deq [of f] f k \<open>\<not> unat n \<le> _\<close>
        by (simp add: sc_do_dequeue_def Let_def f_def [symmetric] consumed_def)
    qed
  qed
qed

lemma rte_ring_enqueue_burst_eq:
  assumes ok: "ring_ok r"
  shows "rte_ring_enqueue_burst r obj n =
    (let m = of_nat (min (unat n) (room r)) in (m, published r obj m))"
  using sp_do_enqueue_variable [OF ok, of obj n] ok
  by (auto simp: rte_ring_enqueue_burst_def mp_do_enqueue_def published_0 Let_def)

lemma rte_ring_dequeue_burst_eq:
  assumes ok: "ring_ok r" and tab: "unat n \<le> length obj"
  shows "rte_ring_dequeue_burst r obj n =
    (let m = of_nat (min (unat n) (length (contents r)))
     in (m, take (unat m) (contents r) @ drop (unat m) obj, consumed r m))"
  using sc_do_dequeue_variable [OF ok tab] ok
  by (auto simp: rte_ring_dequeue_burst_def mc_do_dequeue_def consumed_0 Let_def)

lemma rte_ring_count_eq:
  assumes "wf_ring r"
  shows "unat (rte_ring_count r) = length (contents r)"
proof -
  from assms obtain k where k: "prod_mask r = mask k" "unat (prod_tail r - cons_tail r) \<le> 2 ^ k - 1"
    by (rule wf_ringE)
  have "unat (prod_tail r - cons_tail r) < 2 ^ k"
    using k(2) by (metis One_nat_def Suc_pred le_imp_less_Suc zero_less_numeral zero_less_power)
  then show ?thesis using k by (simp add: rte_ring_count_def contents_def unat_and_mask_word)
qed

lemma rte_ring_free_count_eq:
  assumes "wf_ring r"
  shows "unat (rte_ring_free_count r) = room r"
proof -
  from assms obtain k where k: "k \<le> 27" "prod_mask r = mask k" "capacity r = 2 ^ k - 1"
    "unat (prod_tail r - cons_tail r) \<le> 2 ^ k - 1" "prod_head r = prod_tail r"
    by (rule wf_ringE)
  define y where "y = cons_tail r - prod_tail r - 1"
  have "mask k + cons_tail r - prod_tail r = y + of_nat (2 ^ k)"
    by (simp add: mask_eq_exp_minus_1 y_def)
  then have "unat ((mask k + cons_tail r - prod_tail r) AND mask k) = unat (y AND mask k)"
    using unat_add_of_nat_mask [of k y "2 ^ k"] k by (simp add: unat_and_mask_word)
  then have "unat (rte_ring_free_count r) = unat (mask k + cons_tail r - prod_tail r) mod 2 ^ k"
    by (simp add: rte_ring_free_count_def k unat_and_mask_word y_def)
  moreover have f: "unat (mask k + cons_tail r - prod_tail r) = room r"
    using free_entries_eq [OF assms] k by (simp add: room_def)
  moreover have "room r < 2 ^ k" using k by (simp add: room_def less_imp_diff_less)
  ultimately show ?thesis by (simp add: unat_and_mask_word)
qed

lemma rte_ring_empty_eq: "wf_ring r \<Longrightarrow> rte_ring_empty r \<longleftrightarrow> contents r = []"
  by (auto simp: rte_ring_empty_def contents_def mod_slice_def unat_eq_zero)

lemma rte_ring_full_eq: "wf_ring r \<Longrightarrow> rte_ring_full r \<longleftrightarrow> room r = 0"
  by (metis rte_ring_free_count_def rte_ring_free_count_eq rte_ring_full_def unat_eq_zero)

lemma rte_ring_init_ok:
  assumes "count \<noteq> 0" "rte_ring_get_memsize header cache_line count \<ge> 0" "0 \<le> header" "0 < cache_line"
    "length mem = unat count" "length nm < RTE_MEMZONE_NAMESIZE"
  shows "fst (rte_ring_init mem nm count fl) = 0"
    "ring_ok (snd (rte_ring_init mem nm count fl))"
    "contents (snd (rte_ring_init mem nm count fl)) = []"
    "capacity (snd (rte_ring_init mem nm count fl)) = unat count - 1"
proof -
  have c: "POWEROF2 count" "count \<le> RTE_RING_SZ_MASK"
    using assms(2) by (auto simp: rte_ring_get_memsize_def split: if_splits)
  have "1 \<le> unat count" using assms(1) by (simp add: Suc_le_eq unat_gt_0)
  then have "unat (count - 1) = unat count - 1" by (simp add: unat_diff_le)
  then show "fst (rte_ring_init mem nm count fl) = 0"
    "ring_ok (snd (rte_ring_init mem nm count fl))"
    "contents (snd (rte_ring_init mem nm count fl)) = []"
    "capacity (snd (rte_ring_init mem nm count fl)) = unat count - 1"
    using assms c by (auto simp: rte_ring_init_def rte_ring_cleared_def ring_ok_def wf_ring_def
        contents_def capacity_def Let_def)
qed


lemma ring_of_ok:
  assumes k: "k \<le> 27" and xs: "length xs < 2 ^ k"
  shows "ring_ok (ring_of k pad xs)" "contents (ring_of k pad xs) = xs"
    "capacity (ring_of k pad xs) = 2 ^ k - 1"
proof -
  have n: "unat (of_nat (length xs) :: u32) = length xs"
    using pow27 [OF k] xs by (intro unat_of_nat_small) simp
  have "wf_ring (ring_of k pad xs)"
    by (rule wf_ringI [OF k]) (use n xs in \<open>auto simp: ring_of_def\<close>)
  then show "ring_ok (ring_of k pad xs)" by (simp add: ring_ok_def ring_of_def)
  show "contents (ring_of k pad xs) = xs"
    using n xs by (intro nth_equalityI) (auto simp: contents_def ring_of_def nth_append)
  show "capacity (ring_of k pad xs) = 2 ^ k - 1"
    using k by (simp add: capacity_def ring_of_def unat_mask)
qed

section \<open>The bounded-queue interface\<close>

text \<open>
  What the clients of a ring rely on: one-object enqueue and dequeue with the C return
  codes, the queue they stand for, and the number of objects that fit.
\<close>

locale bounded_queue =
  fixes ok :: "'q \<Rightarrow> bool"
    and elems :: "'q \<Rightarrow> 'a list"
    and cap :: "'q \<Rightarrow> nat"
    and enq :: "'q \<Rightarrow> 'a \<Rightarrow> int \<times> 'q"
    and deq :: "'q \<Rightarrow> 'a \<Rightarrow> int \<times> 'a \<times> 'q"
  assumes bound: "ok q \<Longrightarrow> length (elems q) \<le> cap q"
    and enq_room: "ok q \<Longrightarrow> length (elems q) < cap q \<Longrightarrow>
      fst (enq q x) = 0 \<and> elems (snd (enq q x)) = elems q @ [x]"
    and enq_full: "ok q \<Longrightarrow> length (elems q) = cap q \<Longrightarrow> fst (enq q x) \<noteq> 0 \<and> snd (enq q x) = q"
    and enq_ok: "ok q \<Longrightarrow> ok (snd (enq q x)) \<and> cap (snd (enq q x)) = cap q"
    and deq_some: "ok q \<Longrightarrow> elems q = x # xs \<Longrightarrow>
      fst (deq q p) = 0 \<and> fst (snd (deq q p)) = x \<and> elems (snd (snd (deq q p))) = xs"
    and deq_none: "ok q \<Longrightarrow> elems q = [] \<Longrightarrow> fst (deq q p) \<noteq> 0 \<and> snd (deq q p) = (p, q)"
    and deq_ok: "ok q \<Longrightarrow> ok (snd (snd (deq q p))) \<and> cap (snd (snd (deq q p))) = cap q"
begin

lemma push_all_spec:
  "ok q \<Longrightarrow> ok (snd (push_all enq xs q)) \<and> cap (snd (push_all enq xs q)) = cap q \<and>
     elems (snd (push_all enq xs q)) = elems q @ take (cap q - length (elems q)) xs \<and>
     fst (push_all enq xs q) = length xs - (cap q - length (elems q))"
proof (induction xs arbitrary: q)
  case (Cons x xs)
  obtain ret q' where e: "enq q x = (ret, q')" by (cases "enq q x")
  have q': "ok q'" "cap q' = cap q" using enq_ok [OF Cons.prems, of x] e by auto
  show ?case
  proof (cases "length (elems q) < cap q")
    case True
    then have "ret = 0" "elems q' = elems q @ [x]" using enq_room [OF Cons.prems, of x] e by auto
    moreover have "cap q - length (elems q) = Suc (cap q - length (elems q'))"
      using True calculation by simp
    ultimately show ?thesis using Cons.IH [OF q'(1)] q' e by (auto simp: case_prod_unfold)
  next
    case False
    then have full: "length (elems q) = cap q" using bound [OF Cons.prems] by simp
    then have "ret \<noteq> 0" "q' = q" using enq_full [OF Cons.prems full, of x] e by auto
    then show ?thesis using Cons.IH [OF q'(1)] full e by (auto simp: case_prod_unfold)
  qed
qed (use bound in auto)

lemma pop_all_spec:
  "ok q \<Longrightarrow> ok (snd (pop_all deq p n q)) \<and> cap (snd (pop_all deq p n q)) = cap q \<and>
     fst (pop_all deq p n q) = take n (elems q) \<and> elems (snd (pop_all deq p n q)) = drop n (elems q)"
proof (induction n arbitrary: q)
  case (Suc n)
  obtain ret x q' where d: "deq q p = (ret, x, q')" by (cases "deq q p")
  have q': "ok q'" "cap q' = cap q" using deq_ok [OF Suc.prems, of p] d by auto
  show ?case
  proof (cases "elems q")
    case Nil
    then show ?thesis using deq_none [OF Suc.prems Nil, of p] d Suc.prems by auto
  next
    case (Cons y ys)
    then have "ret = 0" "x = y" "elems q' = ys" using deq_some [OF Suc.prems Cons, of p] d by auto
    then show ?thesis using Suc.IH [OF q'(1)] q' d Cons by (auto simp: case_prod_unfold)
  qed
qed simp

text \<open>Whatever is pushed into an empty queue comes out again in the same order.\<close>

lemma fifo:
  assumes "ok q" "elems q = []" "length xs \<le> cap q"
  shows "fst (pop_all deq p (length xs) (snd (push_all enq xs q))) = xs"
  using push_all_spec [OF assms(1), of xs] pop_all_spec assms by auto

end

interpretation rq: bounded_queue ring_ok contents capacity rte_ring_enqueue rte_ring_dequeue
proof unfold_locales
  show "ring_ok q \<Longrightarrow> length (contents q) \<le> capacity q" for q :: "'a rte_ring"
    by (rule ring_ok_count)
qed (auto simp: rte_ring_enqueue_eq rte_ring_dequeue_eq contents_published_room room_def
      ring_ok_published ring_ok_consumed contents_consumed split: list.split)

section \<open>Properties\<close>

lemma wrap_ring_ok: "ring_ok wrap_ring"
  by (simp add: ring_ok_def wf_ring_def wrap_ring_def POWEROF2_def RTE_RING_SZ_MASK_def)

lemma wrap_ring_contents: "contents wrap_ring = [10, 11, 12]"
  by (simp add: contents_def wrap_ring_def mod_slice_def upt_rec)

lemma wrap_ring_capacity: "capacity wrap_ring = 7"
  by (simp add: capacity_def wrap_ring_def)

text \<open>C1. Bulk enqueue refines the bounded FIFO queue: if all objects fit they are appended in order
  and 0 is returned, otherwise the ring is unchanged and the result is \<open>-ENOBUFS\<close>; the ring
  invariant is kept in both cases, whatever the position of the 32-bit indices.\<close>

theorem rte_ring_enqueue_bulk_refines:
  assumes "ring_ok r" "unat n \<le> length obj_table"
    and "rte_ring_enqueue_bulk r obj_table n = (ret, r')"
  shows "ring_ok r' \<and> capacity r' = capacity r \<and>
    (if length (contents r) + unat n \<le> capacity r
     then ret = 0 \<and> contents r' = contents r @ take (unat n) obj_table
     else ret = - ENOBUFS \<and> r' = r)"
  using assms ring_ok_count [OF assms(1)]
  by (auto simp: rte_ring_enqueue_bulk_eq room_def ring_ok_published contents_published_room
      split: if_splits)

theorem rte_ring_enqueue_bulk_refines_witness:
  "ring_ok (snd (rte_ring_enqueue_bulk wrap_ring [20, 21, 22, 23] 4)) \<and>
   contents (snd (rte_ring_enqueue_bulk wrap_ring [20, 21, 22, 23] 4)) = [10, 11, 12, 20, 21, 22, 23]"
  using rte_ring_enqueue_bulk_refines [OF wrap_ring_ok, of 4 "[20, 21, 22, 23]"
      "fst (rte_ring_enqueue_bulk wrap_ring [20, 21, 22, 23] 4)"
      "snd (rte_ring_enqueue_bulk wrap_ring [20, 21, 22, 23] 4)"]
  by (simp add: wrap_ring_contents wrap_ring_capacity)

text \<open>C2. Bulk dequeue refines the bounded FIFO queue: it delivers the oldest objects in the order
  of their enqueue and removes exactly them, or reports \<open>-ENOENT\<close> and changes neither the ring
  nor the caller's table.\<close>

theorem rte_ring_dequeue_bulk_refines:
  assumes "ring_ok r" "unat n \<le> length obj_table"
    and "rte_ring_dequeue_bulk r obj_table n = (ret, tab, r')"
  shows "ring_ok r' \<and> capacity r' = capacity r \<and>
    (if unat n \<le> length (contents r)
     then ret = 0 \<and> tab = take (unat n) (contents r) @ drop (unat n) obj_table \<and>
          contents r' = drop (unat n) (contents r)
     else ret = - ENOENT \<and> tab = obj_table \<and> r' = r)"
  using assms
  by (auto simp: rte_ring_dequeue_bulk_eq ring_ok_consumed contents_consumed split: if_splits)

theorem rte_ring_dequeue_bulk_refines_witness:
  "fst (snd (rte_ring_dequeue_bulk wrap_ring [0, 0, 0] 3)) = [10, 11, 12]"
  using rte_ring_dequeue_bulk_refines [OF wrap_ring_ok, of 3 "[0, 0, 0]"
      "fst (rte_ring_dequeue_bulk wrap_ring [0, 0, 0] 3)"
      "fst (snd (rte_ring_dequeue_bulk wrap_ring [0, 0, 0] 3))"
      "snd (snd (rte_ring_dequeue_bulk wrap_ring [0, 0, 0] 3))"]
  by (simp add: wrap_ring_contents wrap_ring_capacity)

text \<open>C3. The burst variants move as many objects as fit or as are there, report that number, and
  keep order: what a dequeue delivers followed by what remains is the queue before it.\<close>

theorem rte_ring_burst_moves_what_fits:
  assumes "ring_ok r" "unat n \<le> length obj_table"
    and "rte_ring_enqueue_burst r obj_table n = (done, r1)"
    and "rte_ring_dequeue_burst r obj_table n = (got, tab, r2)"
  shows "unat done = min (unat n) (capacity r - length (contents r)) \<and>
         contents r1 = contents r @ take (unat done) obj_table \<and> ring_ok r1 \<and>
         unat got = min (unat n) (length (contents r)) \<and>
         contents r = take (unat got) tab @ contents r2 \<and> ring_ok r2"
proof -
  have c: "capacity r < 4294967296" using capacity_small [of r] assms(1) by simp
  have l: "length (contents r) \<le> capacity r" using assms(1) by (rule ring_ok_count)
  have m1: "unat (of_nat (min (unat n) (room r)) :: u32) = min (unat n) (room r)"
    using c by (intro unat_of_nat_small) (auto simp: room_def min_def intro: less_imp_diff_less)
  have m2: "unat (of_nat (min (unat n) (length (contents r))) :: u32) = min (unat n) (length (contents r))"
    using c l by (intro unat_of_nat_small) (simp add: min_def)
  show ?thesis
    using assms m1 m2
    by (auto simp: rte_ring_enqueue_burst_eq rte_ring_dequeue_burst_eq Let_def room_def [symmetric]
        contents_published_room contents_consumed ring_ok_published ring_ok_consumed)
qed

theorem rte_ring_burst_moves_what_fits_witness:
  "unat (fst (rte_ring_enqueue_burst wrap_ring [20, 21, 22, 23, 24, 25] 6)) = 4 \<and>
   unat (fst (rte_ring_dequeue_burst wrap_ring [20, 21, 22, 23, 24, 25] 6)) = 3"
  using rte_ring_burst_moves_what_fits [OF wrap_ring_ok, of 6 "[20, 21, 22, 23, 24, 25]"
      "fst (rte_ring_enqueue_burst wrap_ring [20, 21, 22, 23, 24, 25] 6)"
      "snd (rte_ring_enqueue_burst wrap_ring [20, 21, 22, 23, 24, 25] 6)"
      "fst (rte_ring_dequeue_burst wrap_ring [20, 21, 22, 23, 24, 25] 6)"
      "fst (snd (rte_ring_dequeue_burst wrap_ring [20, 21, 22, 23, 24, 25] 6))"
      "snd (snd (rte_ring_dequeue_burst wrap_ring [20, 21, 22, 23, 24, 25] 6))"]
  by (simp add: wrap_ring_contents wrap_ring_capacity)

text \<open>C4. The unrolled and split loops of the copy macro are equivalent to a modular copy: slot
  \<open>(head + i) & mask\<close> receives object \<open>i\<close> for \<open>i < n\<close>, and every other slot keeps its content.\<close>

theorem ENQUEUE_PTRS_modular_copy:
  assumes "k \<le> 27" "length rg = 2 ^ k" "unat n \<le> 2 ^ k" "i < 2 ^ k"
  shows "ENQUEUE_PTRS rg (2 ^ k) (mask k) head obj n ! unat ((head + of_nat i) AND mask k) =
     (if i < unat n then obj ! i else rg ! unat ((head + of_nat i) AND mask k))"
  using assms nth_ENQUEUE_PTRS [of k n rg i head obj]
  by (simp add: unat_add_of_nat_mask)

theorem ENQUEUE_PTRS_modular_copy_witness:
  "ENQUEUE_PTRS [0, 0, 0, 0, 0, 0, 0, 0 :: nat] 8 7 0xfffffffd [1, 2, 3, 4, 5] 5 ! 1 = 5"
  using ENQUEUE_PTRS_modular_copy [of 3 "[0, 0, 0, 0, 0, 0, 0, 0 :: nat]" 5 4 "0xfffffffd" "[1, 2, 3, 4, 5]"]
  by (simp add: mask_eq_exp_minus_1)

text \<open>The observers of a ring are exact, also when the 32-bit indices have wrapped around: the
  count is the number of queued objects, count and free count add up to the capacity, and the
  full and empty tests agree with the queue.\<close>

theorem rte_ring_counts_exact:
  assumes "wf_ring r"
  shows "unat (rte_ring_count r) = length (contents r) \<and>
    unat (rte_ring_count r) + unat (rte_ring_free_count r) = capacity r \<and>
    (rte_ring_empty r \<longleftrightarrow> contents r = []) \<and>
    (rte_ring_full r \<longleftrightarrow> length (contents r) = capacity r)"
  using rte_ring_count_eq [OF assms] rte_ring_free_count_eq [OF assms] wf_ring_count [OF assms]
    rte_ring_empty_eq [OF assms] rte_ring_full_eq [OF assms]
  by (auto simp: room_def)

theorem rte_ring_counts_exact_witness:
  "unat (rte_ring_count wrap_ring) = 3 \<and> unat (rte_ring_count wrap_ring) + unat (rte_ring_free_count wrap_ring) = 7"
  using rte_ring_counts_exact [OF ring_ok_wf [OF wrap_ring_ok]]
  by (simp add: wrap_ring_contents wrap_ring_capacity)


end
