(* ===== verification/Mempool.thy ===== *)
theory Mempool
  imports Rte_Ring "HOL-Library.Multiset"
begin

text \<open>
  The fixed-size object pools of \<open>dpdk-17.02/lib/librte_mempool\<close>: a ring of free objects
  with an optional per-core cache in front of it.  Light keeps its command buffers, return
  values, epoll nodes and descriptor records in such pools.  The lemmas show that no object
  is lost or handed out twice, with and without the cache; locale \<open>object_pool\<close> is the
  contract on which the other components build.
\<close>

section \<open>Data\<close>

text \<open>
  The cache holds \<open>len\<close> valid pointers at the start of its array; the list below is that
  valid part, so \<open>len\<close> is its length.
\<close>

record 'a rte_mempool_cache =
  cache_sz :: u32
  flushthresh :: u32
  objs :: "'a list"

record 'a rte_mempool =
  pool_data :: "'a rte_ring"
  pool_size :: u32
  cache_size :: u32
  local_cache :: "'a rte_mempool_cache list"

definition RTE_MEMPOOL_CACHE_MAX_SIZE :: u32 where "RTE_MEMPOOL_CACHE_MAX_SIZE = 512"
definition RTE_MAX_LCORE :: nat where "RTE_MAX_LCORE = 128"

section \<open>Operations\<close>

text \<open>The ring operations of a pool that is created without flags.\<close>

definition common_ring_mp_enqueue ::
  "'a rte_mempool \<Rightarrow> 'a list \<Rightarrow> u32 \<Rightarrow> int \<times> 'a rte_mempool" where
  "common_ring_mp_enqueue mp obj_table n =
     (let (ret, r) = mp_do_enqueue (pool_data mp) obj_table n RTE_RING_QUEUE_FIXED
      in (ret, mp \<lparr> pool_data := r \<rparr>))"

definition common_ring_mc_dequeue ::
  "'a rte_mempool \<Rightarrow> 'a list \<Rightarrow> u32 \<Rightarrow> int \<times> 'a list \<times> 'a rte_mempool" where
  "common_ring_mc_dequeue mp obj_table n =
     (let (ret, tab, r) = mc_do_dequeue (pool_data mp) obj_table n RTE_RING_QUEUE_FIXED
      in (ret, tab, mp \<lparr> pool_data := r \<rparr>))"

definition common_ring_get_count :: "'a rte_mempool \<Rightarrow> u32" where
  "common_ring_get_count mp = rte_ring_count (pool_data mp)"

definition rte_mempool_default_cache ::
  "'a rte_mempool \<Rightarrow> nat \<Rightarrow> 'a rte_mempool_cache option" where
  "rte_mempool_default_cache mp lcore_id =
     (if cache_size mp = 0 then None
      else if lcore_id \<ge> RTE_MAX_LCORE then None
      else Some (local_cache mp ! lcore_id))"

definition mempool_generic_put ::
  "'a rte_mempool \<Rightarrow> 'a list \<Rightarrow> u32 \<Rightarrow> 'a rte_mempool_cache option
     \<Rightarrow> 'a rte_mempool \<times> 'a rte_mempool_cache option" where
  "mempool_generic_put mp obj_table n cache =
     (case cache of
        None \<Rightarrow> (snd (common_ring_mp_enqueue mp obj_table n), None)
      | Some c \<Rightarrow>
          if n > RTE_MEMPOOL_CACHE_MAX_SIZE
          then (snd (common_ring_mp_enqueue mp obj_table n), Some c)
          else
            let c1 = c \<lparr> objs := objs c @ take (unat n) obj_table \<rparr>;
                sz = unat (cache_sz c1)
            in if length (objs c1) \<ge> unat (flushthresh c1)
               then (snd (common_ring_mp_enqueue mp (drop sz (objs c1))
                            (of_nat (length (objs c1) - sz))),
                     Some (c1 \<lparr> objs := take sz (objs c1) \<rparr>))
               else (mp, Some c1))"

definition mempool_generic_get ::
  "'a rte_mempool \<Rightarrow> 'a list \<Rightarrow> u32 \<Rightarrow> 'a rte_mempool_cache option
     \<Rightarrow> int \<times> 'a list \<times> 'a rte_mempool \<times> 'a rte_mempool_cache option" where
  "mempool_generic_get mp obj_table n cache =
     (let ring_dequeue = (\<lambda>cache.
            let (ret, tab, mp') = common_ring_mc_dequeue mp obj_table n in (ret, tab, mp', cache));
          from_cache = (\<lambda>mp c.
            (0, rev (drop (length (objs c) - unat n) (objs c)) @ drop (unat n) obj_table, mp,
             Some (c \<lparr> objs := take (length (objs c) - unat n) (objs c) \<rparr>)))
      in case cache of
           None \<Rightarrow> ring_dequeue None
         | Some c \<Rightarrow>
             if n \<ge> cache_sz c then ring_dequeue (Some c)
             else if length (objs c) < unat n
             then let req = n + (cache_sz c - of_nat (length (objs c)));
                      (ret, tab, mp') = common_ring_mc_dequeue mp
                         (replicate (unat req) (obj_table ! 0)) req
                  in if ret < 0 then ring_dequeue (Some c)
                     else from_cache mp' (c \<lparr> objs := objs c @ tab \<rparr>)
             else from_cache mp c)"

definition store_cache ::
  "nat \<Rightarrow> 'a rte_mempool_cache option \<Rightarrow> 'a rte_mempool \<Rightarrow> 'a rte_mempool" where
  "store_cache lcore_id cache mp =
     (case cache of None \<Rightarrow> mp
      | Some c \<Rightarrow> mp \<lparr> local_cache := (local_cache mp) [lcore_id := c] \<rparr>)"

definition rte_mempool_get_bulk ::
  "nat \<Rightarrow> 'a rte_mempool \<Rightarrow> 'a list \<Rightarrow> u32 \<Rightarrow> int \<times> 'a list \<times> 'a rte_mempool" where
  "rte_mempool_get_bulk lcore_id mp obj_table n =
     (let (ret, tab, mp', cache) =
            mempool_generic_get mp obj_table n (rte_mempool_default_cache mp lcore_id)
      in (ret, tab, store_cache lcore_id cache mp'))"

definition rte_mempool_get :: "nat \<Rightarrow> 'a rte_mempool \<Rightarrow> 'a \<Rightarrow> int \<times> 'a \<times> 'a rte_mempool" where
  "rte_mempool_get lcore_id mp obj_p =
     (let (ret, tab, mp') = rte_mempool_get_bulk lcore_id mp [obj_p] 1 in (ret, hd tab, mp'))"

definition rte_mempool_put_bulk :: "nat \<Rightarrow> 'a rte_mempool \<Rightarrow> 'a list \<Rightarrow> u32 \<Rightarrow> 'a rte_mempool" where
  "rte_mempool_put_bulk lcore_id mp obj_table n =
     (let (mp', cache) = mempool_generic_put mp obj_table n (rte_mempool_default_cache mp lcore_id)
      in store_cache lcore_id cache mp')"

definition rte_mempool_put :: "nat \<Rightarrow> 'a rte_mempool \<Rightarrow> 'a \<Rightarrow> 'a rte_mempool" where
  "rte_mempool_put lcore_id mp obj = rte_mempool_put_bulk lcore_id mp [obj] 1"

definition rte_mempool_avail_count :: "'a rte_mempool \<Rightarrow> u32" where
  "rte_mempool_avail_count mp =
     (let count = common_ring_get_count mp in
      if cache_size mp = 0 then count
      else let total = fold (\<lambda>c acc. acc + of_nat (length (objs c))) (local_cache mp) count
           in if total > pool_size mp then pool_size mp else total)"

definition rte_mempool_in_use_count :: "'a rte_mempool \<Rightarrow> u32" where
  "rte_mempool_in_use_count mp = pool_size mp - rte_mempool_avail_count mp"

section \<open>Abstraction\<close>

text \<open>
  The pools of Light are created with cache size 0; their free objects are exactly the
  queue of the ring.
\<close>

definition pool_ok :: "'a rte_mempool \<Rightarrow> bool" where
  "pool_ok mp \<longleftrightarrow> ring_ok (pool_data mp) \<and> cache_size mp = 0"

definition pool_free :: "'a rte_mempool \<Rightarrow> 'a list" where
  "pool_free mp = contents (pool_data mp)"

definition pool_cap :: "'a rte_mempool \<Rightarrow> nat" where
  "pool_cap mp = capacity (pool_data mp)"

text \<open>All objects a pool and one cache hold between them.\<close>

definition pool_objs :: "'a rte_mempool \<Rightarrow> 'a rte_mempool_cache option \<Rightarrow> 'a multiset" where
  "pool_objs mp cache =
     mset (contents (pool_data mp)) + (case cache of None \<Rightarrow> {#} | Some c \<Rightarrow> mset (objs c))"

definition cache_ok :: "'a rte_mempool_cache \<Rightarrow> bool" where
  "cache_ok c \<longleftrightarrow> cache_sz c \<le> RTE_MEMPOOL_CACHE_MAX_SIZE \<and> cache_sz c \<le> flushthresh c \<and>
     length (objs c) \<le> unat (flushthresh c) \<and> unat (flushthresh c) \<le> 768"

definition demo_pool :: "nat rte_mempool" where
  "demo_pool = \<lparr> pool_data = wrap_ring, pool_size = 4, cache_size = 2, local_cache = [] \<rparr>"

definition demo_cache :: "nat rte_mempool_cache" where
  "demo_cache = \<lparr> cache_sz = 2, flushthresh = 3, objs = [13] \<rparr>"

text \<open>A pool without cache that holds the given objects.\<close>

definition pool_of :: "nat \<Rightarrow> 'a \<Rightarrow> 'a list \<Rightarrow> 'a rte_mempool" where
  "pool_of k pad xs = \<lparr> pool_data = ring_of k pad xs, pool_size = of_nat (length xs), cache_size = 0,
     local_cache = [] \<rparr>"

section \<open>Lemmas\<close>

lemma common_ring_mp_enqueue_eq:
  assumes "ring_ok (pool_data mp)"
  shows "common_ring_mp_enqueue mp obj_table n =
    (if unat n \<le> room (pool_data mp)
     then (0, mp \<lparr> pool_data := published (pool_data mp) obj_table n \<rparr>) else (- ENOBUFS, mp))"
proof -
  let ?r = "pool_data mp"
  have "mp_do_enqueue ?r obj_table n RTE_RING_QUEUE_FIXED =
      (if unat n \<le> room ?r then (0, published ?r obj_table n) else (- ENOBUFS, ?r))"
    using sp_do_enqueue_fixed [of ?r obj_table n] ring_ok_watermark [OF assms] ring_ok_count [OF assms]
      assms
    by (auto simp: mp_do_enqueue_def room_def published_0)
  then show ?thesis by (simp add: common_ring_mp_enqueue_def)
qed

lemma common_ring_mc_dequeue_eq:
  assumes "ring_ok (pool_data mp)" "unat n \<le> length obj_table"
  shows "common_ring_mc_dequeue mp obj_table n =
    (if unat n \<le> length (contents (pool_data mp))
     then (0, take (unat n) (contents (pool_data mp)) @ drop (unat n) obj_table,
           mp \<lparr> pool_data := consumed (pool_data mp) n \<rparr>)
     else (- ENOENT, obj_table, mp))"
proof -
  let ?r = "pool_data mp"
  have "mc_do_dequeue ?r obj_table n RTE_RING_QUEUE_FIXED =
      (if unat n \<le> length (contents ?r)
       then (0, take (unat n) (contents ?r) @ drop (unat n) obj_table, consumed ?r n)
       else (- ENOENT, obj_table, ?r))"
    using sc_do_dequeue_fixed [of ?r n obj_table] assms
    by (auto simp: mc_do_dequeue_def consumed_0)
  then show ?thesis by (simp add: common_ring_mc_dequeue_def)
qed

lemma rte_mempool_get_eq:
  "pool_ok mp \<Longrightarrow> rte_mempool_get lc mp p =
    (case pool_free mp of [] \<Rightarrow> (- ENOENT, p, mp)
     | x # xs \<Rightarrow> (0, x, mp \<lparr> pool_data := consumed (pool_data mp) 1 \<rparr>))"
  by (auto simp: rte_mempool_get_def rte_mempool_get_bulk_def rte_mempool_default_cache_def
      mempool_generic_get_def pool_ok_def pool_free_def common_ring_mc_dequeue_eq store_cache_def
      split: list.split)

lemma rte_mempool_put_eq:
  "pool_ok mp \<Longrightarrow> rte_mempool_put lc mp x =
    (if length (pool_free mp) < pool_cap mp
     then mp \<lparr> pool_data := published (pool_data mp) [x] 1 \<rparr> else mp)"
  using ring_ok_count [of "pool_data mp"]
  by (auto simp: rte_mempool_put_def rte_mempool_put_bulk_def rte_mempool_default_cache_def
      mempool_generic_put_def pool_ok_def pool_free_def pool_cap_def common_ring_mp_enqueue_eq
      store_cache_def room_def)

lemma pool_of_ok:
  assumes "k \<le> 27" "length xs < 2 ^ k"
  shows "pool_ok (pool_of k pad xs)" "pool_free (pool_of k pad xs) = xs"
    "pool_cap (pool_of k pad xs) = 2 ^ k - 1"
  using ring_of_ok [OF assms] by (simp_all add: pool_ok_def pool_free_def pool_cap_def pool_of_def)

section \<open>The object-pool interface\<close>

text \<open>
  What a client of a pool relies on.  The derived facts are about the objects a client
  holds: a list \<open>held\<close> that is disjoint from the free objects stays so.
\<close>

locale object_pool =
  fixes ok :: "'p \<Rightarrow> bool"
    and free :: "'p \<Rightarrow> 'a list"
    and cap :: "'p \<Rightarrow> nat"
    and get :: "'p \<Rightarrow> 'a \<Rightarrow> int \<times> 'a \<times> 'p"
    and put :: "'p \<Rightarrow> 'a \<Rightarrow> 'p"
  assumes bound: "ok p \<Longrightarrow> length (free p) \<le> cap p"
    and get_some: "ok p \<Longrightarrow> free p = x # xs \<Longrightarrow>
      fst (get p d) = 0 \<and> fst (snd (get p d)) = x \<and> free (snd (snd (get p d))) = xs"
    and get_none: "ok p \<Longrightarrow> free p = [] \<Longrightarrow> fst (get p d) \<noteq> 0 \<and> snd (get p d) = (d, p)"
    and get_ok: "ok p \<Longrightarrow> ok (snd (snd (get p d))) \<and> cap (snd (snd (get p d))) = cap p"
    and put_room: "ok p \<Longrightarrow> length (free p) < cap p \<Longrightarrow> free (put p x) = free p @ [x]"
    and put_ok: "ok p \<Longrightarrow> ok (put p x) \<and> cap (put p x) = cap p"
begin

lemma get_success_iff: "ok p \<Longrightarrow> fst (get p d) = 0 \<longleftrightarrow> free p \<noteq> []"
  by (cases "free p") (auto simp: get_some get_none)

lemma get_free:
  assumes "ok p" "get p d = (0, x, p')"
  shows "free p = x # free p'"
  using assms get_none [of p d] get_some [of p _ _ d] by (cases "free p") auto

lemma get_fails: "ok p \<Longrightarrow> get p d = (r, x, p') \<Longrightarrow> r \<noteq> 0 \<Longrightarrow> free p = [] \<and> p' = p"
  using get_none [of p d] get_some [of p _ _ d] by (cases "free p") auto

lemma get_distinct:
  assumes "ok p" "get p d = (0, x, p')" "distinct (free p @ held)"
  shows "distinct (free p' @ x # held) \<and> set (free p' @ x # held) = set (free p @ held)"
  using get_free [OF assms(1,2)] assms(3) by auto

lemma put_distinct:
  assumes "ok p" "distinct (free p @ x # held)" "length (free p) < cap p"
  shows "distinct (free (put p x) @ held) \<and> set (free (put p x) @ held) = set (free p @ x # held)"
  using put_room [OF assms(1,3), of x] assms(2) by auto

lemma put_get_roundtrip:
  assumes "ok p" "free p = []" "0 < cap p"
  shows "fst (snd (get (put p x) d)) = x \<and> free (snd (snd (get (put p x) d))) = []"
  using get_some [of "put p x" x "[]" d] put_room [OF assms(1), of x] put_ok [OF assms(1), of x]
    assms by auto

end

interpretation mpool: object_pool pool_ok pool_free pool_cap "rte_mempool_get lc" "rte_mempool_put lc"
proof unfold_locales
  show "pool_ok p \<Longrightarrow> length (pool_free p) \<le> pool_cap p" for p :: "'a rte_mempool"
    by (simp add: pool_ok_def pool_free_def pool_cap_def ring_ok_count)
qed (auto simp: rte_mempool_get_eq rte_mempool_put_eq pool_ok_def pool_free_def pool_cap_def
      ring_ok_published ring_ok_consumed contents_published_room contents_consumed room_def
      split: list.split)

lemma size_pool_objs:
  "size (pool_objs mp cache) =
     length (contents (pool_data mp)) + (case cache of None \<Rightarrow> 0 | Some c \<Rightarrow> length (objs c))"
  by (simp add: pool_objs_def split: option.split)

lemma take_drop_mset: "mset (take k xs) + mset (drop k xs) = mset xs"
  by (metis append_take_drop_id mset_append)

lemma ring_put_objs:
  assumes "ring_ok (pool_data mp)" "unat n \<le> length tab"
    "length (contents (pool_data mp)) + unat n \<le> capacity (pool_data mp)"
  shows "mset (contents (pool_data (snd (common_ring_mp_enqueue mp tab n)))) =
         mset (contents (pool_data mp)) + mset (take (unat n) tab)"
proof -
  have "unat n \<le> room (pool_data mp)" using assms(3) by (simp add: room_def)
  then show ?thesis using assms by (simp add: common_ring_mp_enqueue_eq contents_published_room)
qed

lemma ring_get_objs:
  assumes "ring_ok (pool_data mp)" "unat n \<le> length obj_table"
    and "common_ring_mc_dequeue mp obj_table n = (ret, tab, mp')"
  shows "if ret = 0
    then pool_objs mp cache = pool_objs mp' cache + mset (take (unat n) tab)
    else ret = - ENOENT \<and> tab = obj_table \<and> mp' = mp \<and> length (contents (pool_data mp)) < unat n"
  using assms take_drop_mset [of "unat n" "contents (pool_data mp)"]
  by (auto simp: common_ring_mc_dequeue_eq pool_objs_def contents_consumed union_commute
      split: if_splits)

lemma backfill_req:
  assumes "cache_ok c" "\<not> n \<ge> cache_sz c" "length (objs c) < unat n"
  shows "unat (n + (cache_sz c - of_nat (length (objs c)))) =
    unat n + (unat (cache_sz c) - length (objs c))"
proof -
  have sz: "unat (cache_sz c) \<le> 512"
    using assms(1) by (simp add: cache_ok_def RTE_MEMPOOL_CACHE_MAX_SIZE_def word_le_nat_alt)
  have n: "unat n < unat (cache_sz c)" using assms(2) by (simp add: word_less_nat_alt not_le)
  have "unat (of_nat (length (objs c)) :: u32) = length (objs c)"
    using assms(3) n sz by (intro unat_of_nat_small) simp
  then have "unat (cache_sz c - of_nat (length (objs c))) = unat (cache_sz c) - length (objs c)"
    using assms(3) n by (subst unat_diff_le) auto
  then show ?thesis using n sz by (simp add: unat_add_no_wrap)
qed

lemma cache_pick:
  "mset xs = mset (take (length xs - k) xs) + mset (rev (drop (length xs - k) xs))"
  by (simp add: take_drop_mset)

lemma get_backfilled:
  assumes ok: "ring_ok (pool_data mp)" "cache_ok c" and n: "unat n \<le> length obj_table"
    and c3: "\<not> n \<ge> cache_sz c" "length (objs c) < unat n"
    and req: "req = n + (cache_sz c - of_nat (length (objs c)))"
    and fits: "unat req \<le> length (contents (pool_data mp))"
    and get: "mempool_generic_get mp obj_table n (Some c) = (ret, tab, mp', cache')"
  shows "ret = 0 \<and> pool_objs mp (Some c) = pool_objs mp' cache' + mset (take (unat n) tab)"
proof -
  let ?xs = "objs c @ take (unat req) (contents (pool_data mp))"
  have bf: "common_ring_mc_dequeue mp (replicate (unat req) (obj_table ! 0)) req =
    (0, take (unat req) (contents (pool_data mp)), mp \<lparr> pool_data := consumed (pool_data mp) req \<rparr>)"
    using fits ok(1) by (simp add: common_ring_mc_dequeue_eq)
  have "tab = rev (drop (length ?xs - unat n) ?xs) @ drop (unat n) obj_table"
    and "mp' = mp \<lparr> pool_data := consumed (pool_data mp) req \<rparr>" "ret = 0"
    and "cache' = Some (c \<lparr> objs := take (length ?xs - unat n) ?xs \<rparr>)"
    using get c3 bf by (auto simp: mempool_generic_get_def req [symmetric] Let_def)
  moreover have "unat n \<le> length ?xs"
    using backfill_req [OF ok(2) c3] fits by (simp add: req)
  moreover have "mset (contents (pool_data mp)) =
      mset (take (unat req) (contents (pool_data mp))) + mset (drop (unat req) (contents (pool_data mp)))"
    by (simp add: take_drop_mset)
  ultimately show ?thesis
    using fits ok(1) cache_pick [of ?xs "unat n"] by (simp add: pool_objs_def contents_consumed union_ac)
qed

text \<open>C23. Returning objects to a pool conserves objects: whether they go to the ring, into the cache,
  or cause the cache to be flushed, pool and cache together hold exactly the objects they held
  before plus the returned ones, provided the ring was created large enough for all of them.\<close>

theorem mempool_put_conserves:
  assumes "ring_ok (pool_data mp)" "\<forall>c. cache = Some c \<longrightarrow> cache_ok c" "unat n \<le> length obj_table"
    and "size (pool_objs mp cache) + unat n \<le> capacity (pool_data mp)"
    and "mempool_generic_put mp obj_table n cache = (mp', cache')"
  shows "pool_objs mp' cache' = pool_objs mp cache + mset (take (unat n) obj_table)"
proof (cases cache)
  case None
  then show ?thesis
    using assms ring_put_objs [of mp n obj_table]
    by (auto simp: mempool_generic_put_def pool_objs_def)
next
  case (Some c)
  define xs where "xs = objs c @ take (unat n) obj_table"
  let ?sz = "unat (cache_sz c)"
  have room: "length (contents (pool_data mp)) + length xs \<le> capacity (pool_data mp)"
    using assms(3,4) Some by (simp add: size_pool_objs xs_def)
  have small: "unat (of_nat (length xs - ?sz) :: u32) = length xs - ?sz"
    using capacity_small [of "pool_data mp"] assms(1) room by (intro unat_of_nat_small) simp
  have flush: "mset (contents (pool_data (snd (common_ring_mp_enqueue mp (drop ?sz xs)
        (of_nat (length xs - ?sz)))))) + mset (take ?sz xs) = mset (contents (pool_data mp)) + mset xs"
    using ring_put_objs [of mp "of_nat (length xs - ?sz)" "drop ?sz xs"] assms(1) room small
      take_drop_mset [of ?sz xs]
    by (simp add: union_ac)
  have direct: "mset (contents (pool_data (snd (common_ring_mp_enqueue mp obj_table n)))) =
      mset (contents (pool_data mp)) + mset (take (unat n) obj_table)"
    using ring_put_objs [of mp n obj_table] assms(1,3) room by (simp add: xs_def)
  show ?thesis
    using assms(5) Some flush direct
    by (auto simp: mempool_generic_put_def pool_objs_def Let_def xs_def [symmetric] union_ac
        split: if_splits) (simp_all add: xs_def union_ac)
qed

theorem mempool_put_conserves_witness:
  "pool_objs (fst (mempool_generic_put demo_pool [20, 21] 2 (Some demo_cache)))
             (snd (mempool_generic_put demo_pool [20, 21] 2 (Some demo_cache))) =
   {#10, 11, 12, 13, 20, 21#}"
proof -
  have ok: "ring_ok (pool_data demo_pool)" by (simp add: demo_pool_def wrap_ring_ok)
  have c: "\<forall>c. Some demo_cache = Some c \<longrightarrow> cache_ok c"
    by (simp add: demo_cache_def cache_ok_def RTE_MEMPOOL_CACHE_MAX_SIZE_def)
  have o: "pool_objs demo_pool (Some demo_cache) = {#10, 11, 12, 13#}"
    by (simp add: pool_objs_def demo_pool_def demo_cache_def wrap_ring_contents)
  show ?thesis
    using mempool_put_conserves [OF ok c, of 2 "[20, 21]"] o
    by (simp add: demo_pool_def wrap_ring_capacity prod_eq_iff)
qed

text \<open>C24. A get from a pool, through the cache or not, hands out objects that were in the pool and
  removes exactly those; when it fails, with \<open>-ENOENT\<close>, neither the pool, the cache nor the
  caller's table is changed and the ring really holds fewer objects than were asked for.\<close>

theorem mempool_get_conserves:
  assumes "ring_ok (pool_data mp)" "\<forall>c. cache = Some c \<longrightarrow> cache_ok c" "unat n \<le> length obj_table"
    and "mempool_generic_get mp obj_table n cache = (ret, tab, mp', cache')"
  shows "if ret = 0
    then pool_objs mp cache = pool_objs mp' cache' + mset (take (unat n) tab)
    else ret = - ENOENT \<and> tab = obj_table \<and> mp' = mp \<and> cache' = cache \<and>
         length (contents (pool_data mp)) < unat n"
proof -
  note direct = ring_get_objs [OF assms(1,3), of ret tab mp' cache]
  show ?thesis
  proof (cases cache)
    case None
    then show ?thesis
      using direct assms(4) by (auto simp: mempool_generic_get_def split: prod.splits)
  next
    case (Some c)
    define req where "req = n + (cache_sz c - of_nat (length (objs c)))"
    consider "n \<ge> cache_sz c" | "\<not> n \<ge> cache_sz c" "\<not> length (objs c) < unat n"
      | "\<not> n \<ge> cache_sz c" "length (objs c) < unat n" by blast
    then show ?thesis
    proof cases
      case 1
      then show ?thesis
        using direct assms(4) Some by (auto simp: mempool_generic_get_def split: prod.splits)
    next
      case 2
      then show ?thesis
        using assms(3,4) Some cache_pick [of "objs c" "unat n"]
        by (auto simp: mempool_generic_get_def pool_objs_def)
    next
      case 3
      show ?thesis
      proof (cases "unat req \<le> length (contents (pool_data mp))")
        case True
        then show ?thesis
          using get_backfilled [OF assms(1) _ assms(3) 3 req_def True] assms(2,4) Some by simp
      next
        case False
        then have "common_ring_mc_dequeue mp (replicate (unat req) (obj_table ! 0)) req =
            (- ENOENT, replicate (unat req) (obj_table ! 0), mp)"
          using assms(1) by (simp add: common_ring_mc_dequeue_eq)
        then show ?thesis
          using direct assms(4) Some 3
          by (auto simp: mempool_generic_get_def req_def [symmetric] Let_def split: prod.splits)
      qed
    qed
  qed
qed

theorem mempool_get_conserves_witness:
  "pool_objs demo_pool (Some demo_cache) =
     pool_objs (fst (snd (snd (mempool_generic_get demo_pool [0] 1 (Some demo_cache)))))
       (snd (snd (snd (mempool_generic_get demo_pool [0] 1 (Some demo_cache))))) + {#13#}"
proof -
  have ok: "ring_ok (pool_data demo_pool)" by (simp add: demo_pool_def wrap_ring_ok)
  have c: "\<forall>c. Some demo_cache = Some c \<longrightarrow> cache_ok c"
    by (simp add: demo_cache_def cache_ok_def RTE_MEMPOOL_CACHE_MAX_SIZE_def)
  have g: "mempool_generic_get demo_pool [0] 1 (Some demo_cache) =
      (0, [13], demo_pool, Some (demo_cache \<lparr> objs := [] \<rparr>))"
    by (simp add: mempool_generic_get_def demo_cache_def word_le_nat_alt)
  show ?thesis
    using mempool_get_conserves [OF ok c _ g] by (simp add: g)
qed

end
