(* ===== verification/Commands.thy ===== *)
theory Commands
  imports Light_Types Mempool
begin

text \<open>
  Command buffers.  A buffer is taken from the pool of the stack process it is meant for,
  filled, and put on that process's command ring; the stack returns it to the pool.  The
  lemmas follow one buffer through these steps: a buffer is always in exactly one place.
\<close>

section \<open>State\<close>

text \<open>
  The record is extended by the components that issue commands; the operations below are
  stated for every extension.
\<close>

record cmd_env =
  free_command_pools :: "nat \<Rightarrow> addr rte_mempool"
  command_rings :: "nat \<Rightarrow> addr rte_ring"
  cmd_mem :: "addr \<Rightarrow> light_cmd_t"

section \<open>Operations\<close>

definition light_get_free_command_buf_by_proc_id ::
  "nat \<Rightarrow> 'z cmd_env_scheme \<Rightarrow> addr option \<times> 'z cmd_env_scheme" where
  "light_get_free_command_buf_by_proc_id pr s =
     (let (ret, c, mp) = rte_mempool_get 0 (free_command_pools s pr) 0 in
      if ret \<noteq> 0 then (None, s)
      else (Some c, s \<lparr> free_command_pools := (free_command_pools s) (pr := mp) \<rparr>))"

definition light_free_command_buf_by_proc_id ::
  "addr \<Rightarrow> nat \<Rightarrow> 'z cmd_env_scheme \<Rightarrow> 'z cmd_env_scheme" where
  "light_free_command_buf_by_proc_id c pr s =
     s \<lparr> free_command_pools := (free_command_pools s)
           (pr := rte_mempool_put 0 (free_command_pools s pr) c) \<rparr>"

definition light_enqueue_command_buf_by_proc_id ::
  "addr \<Rightarrow> nat \<Rightarrow> 'z cmd_env_scheme \<Rightarrow> int \<times> 'z cmd_env_scheme" where
  "light_enqueue_command_buf_by_proc_id c pr s =
     (let (rc, rg) = rte_ring_enqueue (command_rings s pr) c;
          ret = (if rc = - ENOBUFS then 1 else 0)
      in (ret, s \<lparr> command_rings := (command_rings s) (pr := rg) \<rparr>))"

text \<open>Storing the fields of a command.\<close>

definition write_cmd :: "addr \<Rightarrow> (light_cmd_t \<Rightarrow> light_cmd_t) \<Rightarrow> 'z cmd_env_scheme \<Rightarrow> 'z cmd_env_scheme" where
  "write_cmd c f s = s \<lparr> cmd_mem := (cmd_mem s) (c := f (cmd_mem s c)) \<rparr>"

text \<open>
  The pattern most API functions follow: take a buffer, fill it, enqueue it, and give it back
  when the ring is full.
\<close>

datatype post_result = NoBuffer | RingFull | Posted addr

definition post_command ::
  "nat \<Rightarrow> (light_cmd_t \<Rightarrow> light_cmd_t) \<Rightarrow> 'z cmd_env_scheme \<Rightarrow> post_result \<times> 'z cmd_env_scheme" where
  "post_command pr f s =
     (case light_get_free_command_buf_by_proc_id pr s of
        (None, s1) \<Rightarrow> (NoBuffer, s1)
      | (Some c, s1) \<Rightarrow>
          (case light_enqueue_command_buf_by_proc_id c pr (write_cmd c f s1) of
             (rc, s2) \<Rightarrow>
               if rc \<noteq> 0 then (RingFull, light_free_command_buf_by_proc_id c pr s2)
               else (Posted c, s2)))"

text \<open>The variant that ignores the result of the enqueue, as the receive path does.\<close>

definition post_command_unchecked ::
  "nat \<Rightarrow> (light_cmd_t \<Rightarrow> light_cmd_t) \<Rightarrow> 'z cmd_env_scheme \<Rightarrow> 'z cmd_env_scheme" where
  "post_command_unchecked pr f s =
     (case light_get_free_command_buf_by_proc_id pr s of
        (None, s1) \<Rightarrow> s1
      | (Some c, s1) \<Rightarrow> snd (light_enqueue_command_buf_by_proc_id c pr (write_cmd c f s1)))"

section \<open>Invariant\<close>

text \<open>The buffers of one stack process that are queued or free.\<close>

definition cmd_bufs :: "'z cmd_env_scheme \<Rightarrow> nat \<Rightarrow> addr list" where
  "cmd_bufs s pr = contents (command_rings s pr) @ pool_free (free_command_pools s pr)"

text \<open>
  Ring and pool are well formed, no buffer is in two places, and the pool can take back
  every buffer there is; \<open>held\<close> are the buffers in the hands of running operations.
\<close>

definition cmd_inv :: "'z cmd_env_scheme \<Rightarrow> nat \<Rightarrow> addr list \<Rightarrow> bool" where
  "cmd_inv s pr held \<longleftrightarrow>
     ring_ok (command_rings s pr) \<and> pool_ok (free_command_pools s pr) \<and>
     distinct (cmd_bufs s pr @ held) \<and>
     length (cmd_bufs s pr @ held) \<le> pool_cap (free_command_pools s pr)"

text \<open>The commands waiting for one stack process, oldest first.\<close>

definition queued_cmds :: "'z cmd_env_scheme \<Rightarrow> nat \<Rightarrow> light_cmd_t list" where
  "queued_cmds s pr = map (cmd_mem s) (contents (command_rings s pr))"

text \<open>A process with room for one queued command and two free buffers, for concrete runs.\<close>

definition demo_env :: "addr list \<Rightarrow> cmd_env" where
  "demo_env queued = \<lparr> free_command_pools = (\<lambda>_. pool_of 3 0 [6, 7]),
     command_rings = (\<lambda>_. ring_of 1 0 queued),
     cmd_mem = (\<lambda>_. \<lparr> cmd = LIGHT_DUMMY_COMMAND, ringset_idx = 0, parent_idx = 0, res = None,
                      u = socket_shutdown 0 \<rparr>) \<rparr>"

section \<open>Lemmas\<close>

lemma cmd_get_some:
  assumes inv: "cmd_inv s pr held" and c: "pool_free (free_command_pools s pr) = c # cs"
  obtains s1 where "light_get_free_command_buf_by_proc_id pr s = (Some c, s1)"
    "cmd_inv s1 pr (c # held)" "command_rings s1 = command_rings s" "cmd_mem s1 = cmd_mem s"
    "pool_free (free_command_pools s1 pr) = cs" "cmd_env.more s1 = cmd_env.more s"
    "\<And>q. q \<noteq> pr \<Longrightarrow> free_command_pools s1 q = free_command_pools s q"
proof -
  have ok: "pool_ok (free_command_pools s pr)" using inv by (simp add: cmd_inv_def)
  obtain mp where mp: "rte_mempool_get 0 (free_command_pools s pr) 0 = (0, c, mp)" "pool_ok mp"
    "pool_free mp = cs" "pool_cap mp = pool_cap (free_command_pools s pr)"
    using mpool.get_some [OF ok c, of 0 0] mpool.get_ok [OF ok, of 0 0]
    by (cases "rte_mempool_get 0 (free_command_pools s pr) 0") auto
  define s1 where "s1 = s \<lparr> free_command_pools := (free_command_pools s) (pr := mp) \<rparr>"
  have "cmd_inv s1 pr (c # held)"
    using inv mp c by (auto simp: cmd_inv_def cmd_bufs_def s1_def)
  then show thesis using that [of s1] mp by (simp add: light_get_free_command_buf_by_proc_id_def s1_def)
qed

lemma cmd_get_none:
  "cmd_inv s pr held \<Longrightarrow> pool_free (free_command_pools s pr) = [] \<Longrightarrow>
   light_get_free_command_buf_by_proc_id pr s = (None, s)"
  by (simp add: light_get_free_command_buf_by_proc_id_def cmd_inv_def rte_mempool_get_eq)

lemma cmd_enqueue_room:
  assumes inv: "cmd_inv s pr (c # held)"
    and room: "length (contents (command_rings s pr)) < capacity (command_rings s pr)"
  obtains s1 where "light_enqueue_command_buf_by_proc_id c pr s = (0, s1)"
    "cmd_inv s1 pr held" "contents (command_rings s1 pr) = contents (command_rings s pr) @ [c]"
    "cmd_mem s1 = cmd_mem s" "free_command_pools s1 = free_command_pools s"
    "cmd_env.more s1 = cmd_env.more s" "\<And>q. q \<noteq> pr \<Longrightarrow> command_rings s1 q = command_rings s q"
    "capacity (command_rings s1 pr) = capacity (command_rings s pr)"
proof -
  have ok: "ring_ok (command_rings s pr)" using inv by (simp add: cmd_inv_def)
  let ?rg = "published (command_rings s pr) [c] 1"
  have rg: "rte_ring_enqueue (command_rings s pr) c = (0, ?rg)" "ring_ok ?rg"
    "contents ?rg = contents (command_rings s pr) @ [c]"
    using ok room by (simp_all add: rte_ring_enqueue_eq ring_ok_published contents_published_room room_def)
  define s1 where "s1 = s \<lparr> command_rings := (command_rings s) (pr := ?rg) \<rparr>"
  have "cmd_inv s1 pr held"
    using inv rg by (auto simp: cmd_inv_def cmd_bufs_def s1_def)
  then show thesis using that [of s1] rg by (simp add: light_enqueue_command_buf_by_proc_id_def s1_def)
qed

lemma cmd_enqueue_full:
  "ring_ok (command_rings s pr) \<Longrightarrow> length (contents (command_rings s pr)) \<ge> capacity (command_rings s pr) \<Longrightarrow>
   light_enqueue_command_buf_by_proc_id c pr s = (1, s)"
  by (simp add: light_enqueue_command_buf_by_proc_id_def rte_ring_enqueue_eq)

lemma cmd_free:
  assumes inv: "cmd_inv s pr (c # held)"
  shows "cmd_inv (light_free_command_buf_by_proc_id c pr s) pr held"
    "pool_free (free_command_pools (light_free_command_buf_by_proc_id c pr s) pr) =
       pool_free (free_command_pools s pr) @ [c]"
proof -
  have ok: "pool_ok (free_command_pools s pr)"
    and room: "length (pool_free (free_command_pools s pr)) < pool_cap (free_command_pools s pr)"
    using inv by (auto simp: cmd_inv_def cmd_bufs_def)
  note put = mpool.put_room [OF ok room, of 0 c] mpool.put_ok [OF ok, of 0 c]
  show "pool_free (free_command_pools (light_free_command_buf_by_proc_id c pr s) pr) =
       pool_free (free_command_pools s pr) @ [c]"
    using put by (simp add: light_free_command_buf_by_proc_id_def)
  show "cmd_inv (light_free_command_buf_by_proc_id c pr s) pr held"
    using inv put by (auto simp: cmd_inv_def cmd_bufs_def light_free_command_buf_by_proc_id_def)
qed

lemma write_cmd_fields [simp]:
  "free_command_pools (write_cmd c f s) = free_command_pools s"
  "command_rings (write_cmd c f s) = command_rings s"
  "cmd_mem (write_cmd c f s) = (cmd_mem s) (c := f (cmd_mem s c))"
  "cmd_env.more (write_cmd c f s) = cmd_env.more s"
  by (simp_all add: write_cmd_def)

lemma cmd_inv_write [simp]: "cmd_inv (write_cmd c f s) pr held = cmd_inv s pr held"
  by (simp add: cmd_inv_def cmd_bufs_def)

text \<open>What posting a command does, by its three outcomes.\<close>

lemma post_command_outcome:
  assumes inv: "cmd_inv s pr held" and post: "post_command pr f s = (r, s')"
  shows "cmd_inv s' pr held \<and> mset (cmd_bufs s' pr) = mset (cmd_bufs s pr) \<and>
    (case r of
       Posted c \<Rightarrow> contents (command_rings s' pr) = contents (command_rings s pr) @ [c] \<and>
                   queued_cmds s' pr = queued_cmds s pr @ [f (cmd_mem s c)]
     | RingFull \<Rightarrow> queued_cmds s' pr = queued_cmds s pr \<and>
                   length (contents (command_rings s pr)) = capacity (command_rings s pr)
     | NoBuffer \<Rightarrow> s' = s \<and> pool_free (free_command_pools s pr) = [])"
proof (cases "pool_free (free_command_pools s pr)")
  case Nil
  then show ?thesis using post inv by (auto simp: post_command_def cmd_get_none)
next
  case (Cons c cs)
  obtain s1 where s1: "light_get_free_command_buf_by_proc_id pr s = (Some c, s1)"
    "cmd_inv s1 pr (c # held)" "command_rings s1 = command_rings s" "cmd_mem s1 = cmd_mem s"
    "pool_free (free_command_pools s1 pr) = cs"
    using cmd_get_some [OF inv Cons] by metis
  define w where "w = write_cmd c f s1"
  have w: "cmd_inv w pr (c # held)" "command_rings w = command_rings s"
    "cmd_mem w = (cmd_mem s) (c := f (cmd_mem s c))" "pool_free (free_command_pools w pr) = cs"
    using s1 by (simp_all add: w_def)
  have fresh: "c \<notin> set (contents (command_rings s pr))"
    using inv Cons by (simp add: cmd_inv_def cmd_bufs_def)
  have bound: "length (contents (command_rings s pr)) \<le> capacity (command_rings s pr)"
    "ring_ok (command_rings s pr)"
    using inv by (simp_all add: cmd_inv_def ring_ok_count)
  show ?thesis
  proof (cases "length (contents (command_rings s pr)) < capacity (command_rings s pr)")
    case True
    obtain s2 where s2: "light_enqueue_command_buf_by_proc_id c pr w = (0, s2)" "cmd_inv s2 pr held"
      "contents (command_rings s2 pr) = contents (command_rings w pr) @ [c]"
      "cmd_mem s2 = cmd_mem w" "free_command_pools s2 = free_command_pools w"
      using cmd_enqueue_room [OF w(1)] True w(2) by metis
    have "r = Posted c" "s' = s2" using post s1 s2 by (simp_all add: post_command_def w_def)
    then show ?thesis
      using s2 w Cons fresh by (auto simp: cmd_bufs_def queued_cmds_def)
  next
    case False
    have "r = RingFull" "s' = light_free_command_buf_by_proc_id c pr w"
      using post s1 cmd_enqueue_full [of w pr c] False w(2) bound
      by (auto simp: post_command_def w_def)
    moreover have "command_rings (light_free_command_buf_by_proc_id c pr w) = command_rings s"
      "cmd_mem (light_free_command_buf_by_proc_id c pr w) = cmd_mem w"
      using w(2) by (simp_all add: light_free_command_buf_by_proc_id_def)
    ultimately show ?thesis
      using cmd_free [OF w(1)] w Cons False bound fresh by (auto simp: cmd_bufs_def queued_cmds_def)
  qed
qed

text \<open>C22. Posting a command neither loses nor duplicates a buffer: afterwards the same buffers are
  queued or free; a posted command is the last one on the ring with the fields that were
  written, a full ring gives the buffer back, and without a free buffer nothing changes.\<close>

theorem post_command_conserves:
  assumes inv: "cmd_inv s pr held" and post: "post_command pr f s = (r, s')"
  shows "cmd_inv s' pr held \<and> mset (cmd_bufs s' pr) = mset (cmd_bufs s pr) \<and>
    (case r of
       Posted c \<Rightarrow> contents (command_rings s' pr) = contents (command_rings s pr) @ [c] \<and>
                   queued_cmds s' pr = queued_cmds s pr @ [f (cmd_mem s c)]
     | RingFull \<Rightarrow> queued_cmds s' pr = queued_cmds s pr \<and>
                   length (contents (command_rings s pr)) = capacity (command_rings s pr)
     | NoBuffer \<Rightarrow> s' = s \<and> pool_free (free_command_pools s pr) = [])"
  using assms by (rule post_command_outcome)

lemma demo_env_inv:
  "cmd_inv (demo_env []) 0 []" "cmd_inv (demo_env [5]) 0 []"
  using ring_of_ok [of 1 "[]" "0 :: addr"] ring_of_ok [of 1 "[5]" "0 :: addr"] pool_of_ok [of 3 "[6, 7]" "0 :: addr"]
  by (simp_all add: cmd_inv_def cmd_bufs_def demo_env_def)

theorem post_command_conserves_witness:
  "mset (cmd_bufs (snd (post_command 0 (\<lambda>c. c \<lparr> cmd := LIGHT_CONNECT_CLIENT \<rparr>) (demo_env []))) 0) = {#6, 7#}"
proof -
  obtain r s' where p: "post_command 0 (\<lambda>c. c \<lparr> cmd := LIGHT_CONNECT_CLIENT \<rparr>) (demo_env []) = (r, s')"
    by (cases "post_command 0 (\<lambda>c. c \<lparr> cmd := LIGHT_CONNECT_CLIENT \<rparr>) (demo_env [])")
  show ?thesis
    using post_command_conserves [OF demo_env_inv(1) p] p ring_of_ok [of 1 "[]" "0 :: addr"]
      pool_of_ok [of 3 "[6, 7]" "0 :: addr"]
    by (simp add: cmd_bufs_def demo_env_def)
qed

text \<open>The receive path ignores the result of the enqueue: when the command ring is full, the buffer
  it took for the kick is neither queued nor returned, so the pool shrinks for good.\<close>

theorem post_command_unchecked_leaks:
  assumes "cmd_inv s pr held" "pool_free (free_command_pools s pr) = c # cs"
    and "length (contents (command_rings s pr)) = capacity (command_rings s pr)"
  shows "mset (cmd_bufs s pr) = add_mset c (mset (cmd_bufs (post_command_unchecked pr f s) pr)) \<and>
         queued_cmds (post_command_unchecked pr f s) pr = queued_cmds s pr"
proof -
  obtain s1 where s1: "light_get_free_command_buf_by_proc_id pr s = (Some c, s1)"
    "cmd_inv s1 pr (c # held)" "command_rings s1 = command_rings s" "cmd_mem s1 = cmd_mem s"
    "pool_free (free_command_pools s1 pr) = cs"
    using cmd_get_some [OF assms(1,2)] by metis
  have "c \<notin> set (contents (command_rings s pr))" "ring_ok (command_rings s pr)"
    using assms(1,2) by (simp_all add: cmd_inv_def cmd_bufs_def)
  moreover have "post_command_unchecked pr f s = write_cmd c f s1"
    using s1 assms(3) cmd_enqueue_full [of "write_cmd c f s1" pr c] calculation(2)
    by (simp add: post_command_unchecked_def)
  ultimately show ?thesis using s1 assms(2) by (auto simp: cmd_bufs_def queued_cmds_def)
qed

theorem post_command_unchecked_leaks_witness:
  "mset (cmd_bufs (demo_env [5]) 0) =
     add_mset 6 (mset (cmd_bufs (post_command_unchecked 0 (\<lambda>c. c) (demo_env [5])) 0))"
  using post_command_unchecked_leaks [OF demo_env_inv(2), of 6 "[7]" "\<lambda>c. c"]
    ring_of_ok [of 1 "[5]" "0 :: addr"] pool_of_ok [of 3 "[6, 7]" "0 :: addr"]
  by (simp add: demo_env_def)

end
