(* ===== verification/Fd_Mapping.thy ===== *)
theory Fd_Mapping
  imports Mempool
begin

text \<open>
  The descriptor tables of \<open>light_api.c\<close>.  At start-up an application process opens
  \<open>TRUE_FD_NUM\<close> kernel sockets and keeps their numbers in a ring; each light socket or epoll
  object is then given one of these numbers, and two tables translate between the number and
  the index of the object.  The lemmas show that the tables stay a partial bijection, that a
  new descriptor translates back to the object it was made for, and that returning it
  restores the tables.
\<close>

section \<open>Data\<close>

definition TRUE_FD_NUM :: nat where "TRUE_FD_NUM = 2000"
definition TRUE_FD_MAX_SIZE :: nat where "TRUE_FD_MAX_SIZE = 3000"
definition LIGHT_CONNECTION_POOL_SIZE :: int where "LIGHT_CONNECTION_POOL_SIZE = 2048"
definition LIGHT_EPOLL_POOL_SIZE :: int where "LIGHT_EPOLL_POOL_SIZE = 64"
definition LIGHT_SOCKET_INDEX :: int where "LIGHT_SOCKET_INDEX = 0"
definition LIGHT_EPOLL_INDEX :: int where "LIGHT_EPOLL_INDEX = 1"

record fd_mapping_t =
  true_fd :: int
  used :: int

text \<open>
  The global state of the component.  Records of the shared pool are named by their address,
  a natural number, and \<open>fd_store\<close> is the memory they live in.
\<close>

record fd_tables =
  full_true_fd :: "int list"
  light_to_true :: "int list"
  true_to_light :: "int list"
  fd_mapping_ring :: "nat rte_ring"
  free_fd_mapping_storage_pool :: "nat rte_mempool"
  fd_store :: "nat \<Rightarrow> fd_mapping_t"

section \<open>Operations\<close>

definition is_light_fd :: "fd_tables \<Rightarrow> int \<Rightarrow> int c_res" where
  "is_light_fd s fd_num =
     cbind (aget (full_true_fd s) fd_num) (\<lambda>v. Inr (if v = 1 then 1 else 0))"

text \<open>The second component of the result is the value stored through \<open>type_flag\<close>.\<close>

definition light_fd_to_socket_epoll_index :: "fd_tables \<Rightarrow> int \<Rightarrow> (int \<times> int) c_res" where
  "light_fd_to_socket_epoll_index s fd_num =
     cbind (aget (true_to_light s) fd_num) (\<lambda>ret.
       Inr (if ret \<ge> LIGHT_CONNECTION_POOL_SIZE
            then (ret - LIGHT_CONNECTION_POOL_SIZE, LIGHT_EPOLL_INDEX)
            else (ret, LIGHT_SOCKET_INDEX)))"

definition socket_epoll_index_to_light_fd :: "fd_tables \<Rightarrow> int \<Rightarrow> int \<Rightarrow> int c_res" where
  "socket_epoll_index_to_light_fd s idx type_flag =
     (if type_flag = LIGHT_SOCKET_INDEX then aget (light_to_true s) idx
      else if type_flag = LIGHT_EPOLL_INDEX
      then aget (light_to_true s) (idx + LIGHT_CONNECTION_POOL_SIZE)
      else Inl Exit)"

text \<open>
  When the ring is empty the function reports it and goes on to use a pointer that was never
  set, which is a fault.
\<close>

definition get_new_light_fd :: "fd_tables \<Rightarrow> int \<Rightarrow> int \<Rightarrow> (int \<times> fd_tables) c_res" where
  "get_new_light_fd s idx type_flag =
     (let (ret, ptr, rg) = rte_ring_dequeue (fd_mapping_ring s) 0 in
      if ret \<noteq> 0 then Inl BadPointer
      else
        let light_fd = true_fd (fd_store s ptr);
            s1 = s \<lparr> fd_mapping_ring := rg,
                     free_fd_mapping_storage_pool :=
                       rte_mempool_put 0 (free_fd_mapping_storage_pool s) ptr \<rparr>
        in if type_flag = LIGHT_SOCKET_INDEX
           then cbind (aset (light_to_true s1) idx light_fd) (\<lambda>l2t.
                cbind (aset (true_to_light s1) light_fd idx) (\<lambda>t2l.
                  Inr (light_fd, s1 \<lparr> light_to_true := l2t, true_to_light := t2l \<rparr>)))
           else if type_flag = LIGHT_EPOLL_INDEX
           then cbind (aset (light_to_true s1) (idx + LIGHT_CONNECTION_POOL_SIZE) light_fd) (\<lambda>l2t.
                cbind (aset (true_to_light s1) light_fd (idx + LIGHT_CONNECTION_POOL_SIZE)) (\<lambda>t2l.
                  Inr (light_fd, s1 \<lparr> light_to_true := l2t, true_to_light := t2l \<rparr>)))
           else Inl Exit)"

definition put_back_light_fd :: "fd_tables \<Rightarrow> int \<Rightarrow> (int \<times> fd_tables) c_res" where
  "put_back_light_fd s light_fd =
     (let (ret, ptr, pool) = rte_mempool_get 0 (free_fd_mapping_storage_pool s) 0 in
      if ret \<noteq> 0 then Inl Exit
      else
        let store = (fd_store s) (ptr := (fd_store s ptr) \<lparr> true_fd := light_fd \<rparr>);
            (ret2, rg) = rte_ring_enqueue (fd_mapping_ring s) ptr
        in if ret2 \<noteq> 0 then Inl Exit
           else cbind (aget (true_to_light s) light_fd) (\<lambda>light_index.
                cbind (aset (true_to_light s) light_fd (- 1)) (\<lambda>t2l.
                cbind (aset (light_to_true s) light_index (- 1)) (\<lambda>l2t.
                  Inr (0, s \<lparr> light_to_true := l2t, true_to_light := t2l, fd_mapping_ring := rg,
                              free_fd_mapping_storage_pool := pool, fd_store := store \<rparr>)))))"

text \<open>
  Initialisation.  The kernel's \<open>socket\<close> call is the argument \<open>real_socket\<close>: the value of the
  \<open>i\<close>-th call.  The loop body is one step, the loop counts down the remaining iterations.
\<close>

definition fd_init_step :: "(nat \<Rightarrow> int) \<Rightarrow> nat \<Rightarrow> fd_tables \<Rightarrow> fd_tables c_res" where
  "fd_init_step real_socket i s =
     (let (ret, ptr, pool) = rte_mempool_get 0 (free_fd_mapping_storage_pool s) 0 in
      if ret \<noteq> 0 then Inl Exit
      else
        let fd = real_socket i in
        if fd = - 1 then Inl Exit
        else cbind (aset (full_true_fd s) fd 1) (\<lambda>full.
             let store = (fd_store s) (ptr := (fd_store s ptr) \<lparr> true_fd := fd, used := 0 \<rparr>);
                 (ret2, rg) = rte_ring_enqueue (fd_mapping_ring s) ptr
             in if ret2 \<noteq> 0 then Inl Exit
                else Inr (s \<lparr> full_true_fd := full, fd_mapping_ring := rg,
                              free_fd_mapping_storage_pool := pool, fd_store := store \<rparr>)))"

primrec fd_init_loop :: "(nat \<Rightarrow> int) \<Rightarrow> nat \<Rightarrow> nat \<Rightarrow> fd_tables \<Rightarrow> fd_tables c_res" where
  "fd_init_loop real_socket i 0 s = Inr s"
| "fd_init_loop real_socket i (Suc k) s =
     cbind (fd_init_step real_socket i s) (fd_init_loop real_socket (i + 1) k)"

definition fd_mapping_init ::
  "(nat \<Rightarrow> int) \<Rightarrow> nat list \<Rightarrow> nat rte_mempool option \<Rightarrow> (nat \<Rightarrow> fd_mapping_t) \<Rightarrow> fd_tables c_res" where
  "fd_mapping_init real_socket ring_mem pool store =
     (case pool of None \<Rightarrow> Inl Exit
      | Some mp \<Rightarrow>
          fd_init_loop real_socket 0 TRUE_FD_NUM
            \<lparr> full_true_fd = replicate TRUE_FD_MAX_SIZE (- 1),
              light_to_true = replicate TRUE_FD_MAX_SIZE (- 1),
              true_to_light = replicate TRUE_FD_MAX_SIZE (- 1),
              fd_mapping_ring = snd (rte_ring_init ring_mem ''FD_MAPPING_RING'' 2048 0),
              free_fd_mapping_storage_pool = mp, fd_store = store \<rparr>)"

section \<open>Invariant\<close>

definition free_fds :: "fd_tables \<Rightarrow> int list" where
  "free_fds s = map (\<lambda>p. true_fd (fd_store s p)) (contents (fd_mapping_ring s))"

definition fd_range :: "int \<Rightarrow> bool" where
  "fd_range i \<longleftrightarrow> 0 \<le> i \<and> i < 3000"

text \<open>The slot of the tables that stands for a socket or an epoll object.\<close>

definition fd_slot :: "int \<Rightarrow> int \<Rightarrow> int" where
  "fd_slot idx type_flag = (if type_flag = LIGHT_EPOLL_INDEX then idx + LIGHT_CONNECTION_POOL_SIZE else idx)"

definition valid_index :: "int \<Rightarrow> int \<Rightarrow> bool" where
  "valid_index idx type_flag \<longleftrightarrow>
     type_flag = LIGHT_SOCKET_INDEX \<and> 0 \<le> idx \<and> idx < LIGHT_CONNECTION_POOL_SIZE \<or>
     type_flag = LIGHT_EPOLL_INDEX \<and> 0 \<le> idx \<and> idx < LIGHT_EPOLL_POOL_SIZE"

text \<open>The storage part: the records are either in the ring or in the pool, and all of them fit.\<close>

definition fd_storage_ok :: "fd_tables \<Rightarrow> bool" where
  "fd_storage_ok s \<longleftrightarrow>
     ring_ok (fd_mapping_ring s) \<and> pool_ok (free_fd_mapping_storage_pool s) \<and>
     distinct (contents (fd_mapping_ring s) @ pool_free (free_fd_mapping_storage_pool s)) \<and>
     length (contents (fd_mapping_ring s)) + length (pool_free (free_fd_mapping_storage_pool s))
       \<le> min (capacity (fd_mapping_ring s)) (pool_cap (free_fd_mapping_storage_pool s))"

text \<open>
  The table part: the two tables are inverse to each other, mapped descriptors are marked as
  light descriptors, and every light descriptor is either free or mapped, never both.
\<close>

definition fd_tables_ok :: "fd_tables \<Rightarrow> bool" where
  "fd_tables_ok s \<longleftrightarrow>
     length (full_true_fd s) = 3000 \<and> length (light_to_true s) = 3000 \<and>
     length (true_to_light s) = 3000 \<and> distinct (free_fds s) \<and>
     (\<forall>f \<in> set (free_fds s). fd_range f) \<and>
     (\<forall>f < 3000. true_to_light s ! f \<noteq> - 1 \<longrightarrow>
        fd_range (true_to_light s ! f) \<and> light_to_true s ! nat (true_to_light s ! f) = int f) \<and>
     (\<forall>i < 3000. light_to_true s ! i \<noteq> - 1 \<longrightarrow>
        fd_range (light_to_true s ! i) \<and> true_to_light s ! nat (light_to_true s ! i) = int i) \<and>
     (\<forall>f < 3000. full_true_fd s ! f = 1 \<longleftrightarrow>
        int f \<in> set (free_fds s) \<or> true_to_light s ! f \<noteq> - 1) \<and>
     (\<forall>f < 3000. int f \<in> set (free_fds s) \<longrightarrow> true_to_light s ! f = - 1)"

text \<open>The descriptors in use, and the invariant: each of them left a record in the pool.\<close>

definition mapped_fds :: "fd_tables \<Rightarrow> int list" where
  "mapped_fds s = filter (\<lambda>i. i \<noteq> - 1) (true_to_light s)"

definition fd_inv :: "fd_tables \<Rightarrow> bool" where
  "fd_inv s \<longleftrightarrow> fd_storage_ok s \<and> fd_tables_ok s \<and>
     length (mapped_fds s) \<le> length (pool_free (free_fd_mapping_storage_pool s))"

text \<open>A small state with one free descriptor, and a full pool, for concrete runs.\<close>

definition demo_tables :: fd_tables where
  "demo_tables = \<lparr> full_true_fd = (replicate 3000 (- 1)) [7 := 1],
     light_to_true = replicate 3000 (- 1), true_to_light = replicate 3000 (- 1),
     fd_mapping_ring = ring_of 11 0 [0],
     free_fd_mapping_storage_pool = pool_of 11 0 [],
     fd_store = (\<lambda>_. \<lparr> true_fd = 7, used = 0 \<rparr>) \<rparr>"

section \<open>Lemmas\<close>

lemma ring_take:
  assumes "ring_ok r" "contents r = x # xs"
  shows "rte_ring_dequeue r p = (0, x, consumed r 1)" "ring_ok (consumed r 1)"
    "contents (consumed r 1) = xs"
  using assms by (simp_all add: rte_ring_dequeue_eq ring_ok_consumed contents_consumed)

lemma ring_give:
  assumes "ring_ok r" "length (contents r) < capacity r"
  shows "rte_ring_enqueue r x = (0, published r [x] 1)" "ring_ok (published r [x] 1)"
    "contents (published r [x] 1) = contents r @ [x]"
  using assms by (simp_all add: rte_ring_enqueue_eq ring_ok_published contents_published_room room_def)

lemma tables_map:
  assumes ok: "fd_tables_ok s" and fr: "free_fds s = int n # fs" "free_fds s' = fs"
    and s': "full_true_fd s' = full_true_fd s" "light_to_true s' = (light_to_true s) [m := int n]"
      "true_to_light s' = (true_to_light s) [n := int m]"
    and m: "m < 3000" "light_to_true s ! m = - 1"
  shows "fd_tables_ok s'"
proof -
  have n: "n < 3000" "true_to_light s ! n = - 1" "int n \<notin> set fs"
    using ok fr by (auto simp: fd_tables_ok_def fd_range_def)
  have t: "\<And>f. f < 3000 \<Longrightarrow> true_to_light s ! f \<noteq> - 1 \<Longrightarrow>
      fd_range (true_to_light s ! f) \<and> light_to_true s ! nat (true_to_light s ! f) = int f"
    and l: "\<And>i. i < 3000 \<Longrightarrow> light_to_true s ! i \<noteq> - 1 \<Longrightarrow>
      fd_range (light_to_true s ! i) \<and> true_to_light s ! nat (light_to_true s ! i) = int i"
    and len: "length (full_true_fd s) = 3000" "length (light_to_true s) = 3000"
      "length (true_to_light s) = 3000"
    using ok by (auto simp: fd_tables_ok_def)
  have T: "fd_range (true_to_light s' ! f) \<and> light_to_true s' ! nat (true_to_light s' ! f) = int f"
    if "f < 3000" "true_to_light s' ! f \<noteq> - 1" for f
    using t [of f] that n m len by (cases "f = n") (auto simp: s' fd_range_def nth_list_update)
  have L: "fd_range (light_to_true s' ! i) \<and> true_to_light s' ! nat (light_to_true s' ! i) = int i"
    if "i < 3000" "light_to_true s' ! i \<noteq> - 1" for i
    using l [of i] that n m len by (cases "i = m") (auto simp: s' fd_range_def nth_list_update)
  have full: "full_true_fd s' ! f = 1 \<longleftrightarrow> int f \<in> set fs \<or> true_to_light s' ! f \<noteq> - 1"
    if "f < 3000" for f
    using ok that n len fr by (cases "f = n") (auto simp: s' fd_tables_ok_def)
  have free: "int f \<in> set fs \<Longrightarrow> true_to_light s' ! f = - 1" if "f < 3000" for f
    using ok that n len fr by (cases "f = n") (auto simp: s' fd_tables_ok_def)
  show ?thesis
    using ok fr T L full free len by (simp add: fd_tables_ok_def s')
qed

lemma tables_unmap:
  assumes ok: "fd_tables_ok s" and fr: "free_fds s' = free_fds s @ [int n]"
    and s': "full_true_fd s' = full_true_fd s" "light_to_true s' = (light_to_true s) [m := - 1]"
      "true_to_light s' = (true_to_light s) [n := - 1]"
    and m: "n < 3000" "true_to_light s ! n = int m"
  shows "fd_tables_ok s'"
proof -
  have n: "m < 3000" "light_to_true s ! m = int n" "int n \<notin> set (free_fds s)"
    using ok m by (auto simp: fd_tables_ok_def fd_range_def)
  have t: "\<And>f. f < 3000 \<Longrightarrow> true_to_light s ! f \<noteq> - 1 \<Longrightarrow>
      fd_range (true_to_light s ! f) \<and> light_to_true s ! nat (true_to_light s ! f) = int f"
    and l: "\<And>i. i < 3000 \<Longrightarrow> light_to_true s ! i \<noteq> - 1 \<Longrightarrow>
      fd_range (light_to_true s ! i) \<and> true_to_light s ! nat (light_to_true s ! i) = int i"
    and len: "length (full_true_fd s) = 3000" "length (light_to_true s) = 3000"
      "length (true_to_light s) = 3000"
    using ok by (auto simp: fd_tables_ok_def)
  have T: "fd_range (true_to_light s' ! f) \<and> light_to_true s' ! nat (true_to_light s' ! f) = int f"
    if "f < 3000" "true_to_light s' ! f \<noteq> - 1" for f
    using t [of f] that n m len by (cases "f = n") (auto simp: s' fd_range_def nth_list_update)
  have L: "fd_range (light_to_true s' ! i) \<and> true_to_light s' ! nat (light_to_true s' ! i) = int i"
    if "i < 3000" "light_to_true s' ! i \<noteq> - 1" for i
    using l [of i] that n m len by (cases "i = m") (auto simp: s' fd_range_def nth_list_update)
  have full: "full_true_fd s' ! f = 1 \<longleftrightarrow> int f \<in> set (free_fds s @ [int n]) \<or> true_to_light s' ! f \<noteq> - 1"
    if "f < 3000" for f
    using ok that n m len fr by (cases "f = n") (auto simp: s' fd_tables_ok_def)
  have free: "int f \<in> set (free_fds s @ [int n]) \<Longrightarrow> true_to_light s' ! f = - 1" if "f < 3000" for f
    using ok that n m len fr by (cases "f = n") (auto simp: s' fd_tables_ok_def)
  show ?thesis
    using ok fr T L full free len n m by (auto simp: fd_tables_ok_def s' fd_range_def)
qed


lemma length_filter_update:
  assumes "i < length xs"
  shows "length (filter P (xs [i := v])) + (if P (xs ! i) then 1 else 0) =
         length (filter P xs) + (if P v then 1 else 0)"
proof -
  have "filter P xs = filter P (take i xs) @ filter P [xs ! i] @ filter P (drop (Suc i) xs)"
    using id_take_nth_drop [OF assms] by (metis append_Cons append_Nil filter_append)
  then show ?thesis using assms by (simp add: upd_conv_take_nth_drop)
qed

lemma pool_give:
  assumes "pool_ok mp" "length (pool_free mp) < pool_cap mp"
  shows "pool_ok (rte_mempool_put lc mp x)" "pool_free (rte_mempool_put lc mp x) = pool_free mp @ [x]"
    "pool_cap (rte_mempool_put lc mp x) = pool_cap mp"
  using mpool.put_ok [OF assms(1), of lc x] mpool.put_room [OF assms, of lc x] by auto

lemma pool_take:
  assumes "pool_ok mp" "pool_free mp = x # xs"
  obtains mp' where "rte_mempool_get lc mp d = (0, x, mp')" "pool_ok mp'" "pool_free mp' = xs"
    "pool_cap mp' = pool_cap mp"
  using mpool.get_some [OF assms, of lc d] mpool.get_ok [OF assms(1), of lc d]
  by (cases "rte_mempool_get lc mp d") auto

lemma fd_slot_valid: "valid_index idx ty \<Longrightarrow> 0 \<le> fd_slot idx ty \<and> fd_slot idx ty < 3000"
  by (auto simp: valid_index_def fd_slot_def LIGHT_CONNECTION_POOL_SIZE_def LIGHT_EPOLL_POOL_SIZE_def
      LIGHT_SOCKET_INDEX_def LIGHT_EPOLL_INDEX_def)

lemma get_new_light_fd_ok:
  assumes inv: "fd_inv s" and fr: "free_fds s = f # fs" and ix: "valid_index idx ty"
    and unmapped: "light_to_true s ! nat (fd_slot idx ty) = - 1"
  obtains s' where "get_new_light_fd s idx ty = Inr (f, s')" "fd_inv s'" "free_fds s' = fs"
    "full_true_fd s' = full_true_fd s"
    "light_to_true s' = (light_to_true s) [nat (fd_slot idx ty) := f]"
    "true_to_light s' = (true_to_light s) [nat f := fd_slot idx ty]" "fd_range f"
proof -
  let ?sl = "fd_slot idx ty" and ?pl = "free_fd_mapping_storage_pool s" and ?rg = "fd_mapping_ring s"
  obtain p ps where c: "contents ?rg = p # ps" and f: "true_fd (fd_store s p) = f"
    and fs: "fs = map (\<lambda>p. true_fd (fd_store s p)) ps"
    using fr by (auto simp: free_fds_def)
  have st: "fd_storage_ok s" and tb: "fd_tables_ok s" using inv by (auto simp: fd_inv_def)
  have ok: "ring_ok ?rg" "pool_ok ?pl" and room: "length (pool_free ?pl) < pool_cap ?pl"
    using st c by (auto simp: fd_storage_ok_def)
  have sl: "0 \<le> ?sl" "?sl < 3000" using fd_slot_valid [OF ix] by auto
  have len: "length (light_to_true s) = 3000" "length (true_to_light s) = 3000"
    using tb by (auto simp: fd_tables_ok_def)
  have fr': "fd_range f" using tb fr by (simp add: fd_tables_ok_def)
  define s' where "s' = s \<lparr> fd_mapping_ring := consumed ?rg 1,
      free_fd_mapping_storage_pool := rte_mempool_put 0 ?pl p,
      light_to_true := (light_to_true s) [nat ?sl := f],
      true_to_light := (true_to_light s) [nat f := ?sl] \<rparr>"
  have eq: "get_new_light_fd s idx ty = Inr (f, s')"
    using ring_take [OF ok(1) c] ix len fr' sl f
    by (auto simp: get_new_light_fd_def s'_def valid_index_def fd_slot_def fd_range_def
        LIGHT_SOCKET_INDEX_def LIGHT_EPOLL_INDEX_def)
  have free': "free_fds s' = fs"
    using ring_take [OF ok(1) c] by (simp add: free_fds_def s'_def fs)
  have "fd_tables_ok s'"
    by (rule tables_map [OF tb, of "nat f" fs _ "nat ?sl"])
      (use fr free' fr' sl unmapped in \<open>auto simp: s'_def fd_range_def\<close>)
  moreover have "fd_storage_ok s'"
    using st c ring_take [OF ok(1) c] pool_give [OF ok(2) room]
    by (auto simp: fd_storage_ok_def s'_def)
  moreover have "nat f < length (true_to_light s)" using fr' len by (auto simp: fd_range_def nat_less_iff)
  then have "length (mapped_fds s') \<le> Suc (length (mapped_fds s))"
    using length_filter_update [of "nat f" "true_to_light s" "\<lambda>i. i \<noteq> - 1" ?sl]
    by (auto simp: mapped_fds_def s'_def split: if_splits)
  moreover have "length (mapped_fds s) \<le> length (pool_free ?pl)" using inv by (simp add: fd_inv_def)
  ultimately have "fd_inv s'"
    using pool_give [OF ok(2) room] by (simp add: fd_inv_def s'_def)
  then show thesis using that eq free' fr' by (simp add: s'_def)
qed

lemma put_back_light_fd_ok:
  assumes inv: "fd_inv s" and f: "fd_range f" "true_to_light s ! nat f = i" "i \<noteq> - 1"
  obtains s' where "put_back_light_fd s f = Inr (0, s')" "fd_inv s'" "free_fds s' = free_fds s @ [f]"
    "full_true_fd s' = full_true_fd s" "light_to_true s' = (light_to_true s) [nat i := - 1]"
    "true_to_light s' = (true_to_light s) [nat f := - 1]"
proof -
  let ?pl = "free_fd_mapping_storage_pool s" and ?rg = "fd_mapping_ring s"
  have st: "fd_storage_ok s" and tb: "fd_tables_ok s" using inv by (auto simp: fd_inv_def)
  have len: "length (light_to_true s) = 3000" "length (true_to_light s) = 3000"
    using tb by (auto simp: fd_tables_ok_def)
  have i: "fd_range i" "light_to_true s ! nat i = f"
    using tb f by (auto simp: fd_tables_ok_def fd_range_def dest!: spec [of _ "nat f"])
  have ok: "ring_ok ?rg" "pool_ok ?pl" using st by (auto simp: fd_storage_ok_def)
  have nf: "nat f < length (true_to_light s)" using f(1) len by (auto simp: fd_range_def nat_less_iff)
  have cnt: "length (filter (\<lambda>i. i \<noteq> - 1) ((true_to_light s) [nat f := - 1])) + 1 = length (mapped_fds s)"
    using length_filter_update [OF nf, of "\<lambda>i. i \<noteq> - 1" "- 1"] f(2,3) by (simp add: mapped_fds_def)
  then obtain p ps where c: "pool_free ?pl = p # ps"
    using inv by (cases "pool_free ?pl") (auto simp: fd_inv_def)
  obtain pl' where pl': "rte_mempool_get 0 ?pl 0 = (0, p, pl')" "pool_ok pl'" "pool_free pl' = ps"
    "pool_cap pl' = pool_cap ?pl" using pool_take [OF ok(2) c] by metis
  have room: "length (contents ?rg) < capacity ?rg" and fresh: "p \<notin> set (contents ?rg)"
    using st c by (auto simp: fd_storage_ok_def)
  note give = ring_give [OF ok(1) room]
  define s' where "s' = s \<lparr> light_to_true := (light_to_true s) [nat i := - 1],
      true_to_light := (true_to_light s) [nat f := - 1],
      fd_mapping_ring := published ?rg [p] 1, free_fd_mapping_storage_pool := pl',
      fd_store := (fd_store s) (p := (fd_store s p) \<lparr> true_fd := f \<rparr>) \<rparr>"
  have eq: "put_back_light_fd s f = Inr (0, s')"
    using pl' give len f i by (simp add: put_back_light_fd_def s'_def fd_range_def)
  have free': "free_fds s' = free_fds s @ [f]"
    using give fresh by (auto simp: free_fds_def s'_def)
  have "fd_tables_ok s'"
    by (rule tables_unmap [OF tb, of _ "nat f" "nat i"])
      (use f i free' in \<open>auto simp: s'_def fd_range_def\<close>)
  moreover have "fd_storage_ok s'"
    using st c pl' give by (auto simp: fd_storage_ok_def s'_def)
  moreover have "length (mapped_fds s') \<le> length ps"
    using cnt inv c by (simp add: fd_inv_def mapped_fds_def s'_def)
  ultimately have "fd_inv s'"
    using pl' by (simp add: fd_inv_def s'_def)
  then show thesis using that eq free' by (simp add: s'_def)
qed

lemma tables_add:
  assumes ok: "fd_tables_ok s" and fr: "free_fds s' = free_fds s @ [int n]" "int n \<notin> set (free_fds s)"
    and s': "full_true_fd s' = (full_true_fd s) [n := 1]" "light_to_true s' = light_to_true s"
      "true_to_light s' = true_to_light s"
    and n: "n < 3000" "true_to_light s ! n = - 1"
  shows "fd_tables_ok s'"
proof -
  have full: "full_true_fd s' ! f = 1 \<longleftrightarrow> int f \<in> set (free_fds s') \<or> true_to_light s' ! f \<noteq> - 1"
    if "f < 3000" for f
    using ok that n fr by (cases "f = n") (auto simp: s' fd_tables_ok_def)
  have free: "int f \<in> set (free_fds s') \<Longrightarrow> true_to_light s' ! f = - 1" if "f < 3000" for f
    using ok that n fr by (cases "f = n") (auto simp: s' fd_tables_ok_def)
  show ?thesis
    using ok fr n full free by (auto simp: fd_tables_ok_def s' fd_range_def)
qed

lemma fd_init_step_ok:
  assumes inv: "fd_inv s" and t: "true_to_light s = replicate 3000 (- 1)"
    and rs: "fd_range (rs i)" "rs i \<notin> set (free_fds s)"
    and c: "pool_free (free_fd_mapping_storage_pool s) = p # ps"
  obtains s' where "fd_init_step rs i s = Inr s'" "fd_inv s'" "true_to_light s' = replicate 3000 (- 1)"
    "free_fds s' = free_fds s @ [rs i]" "pool_free (free_fd_mapping_storage_pool s') = ps"
proof -
  let ?pl = "free_fd_mapping_storage_pool s" and ?rg = "fd_mapping_ring s"
  have st: "fd_storage_ok s" and tb: "fd_tables_ok s" using inv by (auto simp: fd_inv_def)
  have ok: "ring_ok ?rg" "pool_ok ?pl" using st by (auto simp: fd_storage_ok_def)
  obtain pl' where pl': "rte_mempool_get 0 ?pl 0 = (0, p, pl')" "pool_ok pl'" "pool_free pl' = ps"
    "pool_cap pl' = pool_cap ?pl" using pool_take [OF ok(2) c] by metis
  have room: "length (contents ?rg) < capacity ?rg" and fresh: "p \<notin> set (contents ?rg)"
    using st c by (auto simp: fd_storage_ok_def)
  have len: "length (full_true_fd s) = 3000" using tb by (simp add: fd_tables_ok_def)
  note give = ring_give [OF ok(1) room]
  define s' where "s' = s \<lparr> full_true_fd := (full_true_fd s) [nat (rs i) := 1],
      fd_mapping_ring := published ?rg [p] 1, free_fd_mapping_storage_pool := pl',
      fd_store := (fd_store s) (p := (fd_store s p) \<lparr> true_fd := rs i, used := 0 \<rparr>) \<rparr>"
  have eq: "fd_init_step rs i s = Inr s'"
    using pl' give len rs(1) by (simp add: fd_init_step_def s'_def fd_range_def Let_def)
  have free': "free_fds s' = free_fds s @ [rs i]"
    using give fresh by (auto simp: free_fds_def s'_def)
  have "fd_tables_ok s'"
    by (rule tables_add [OF tb, of _ "nat (rs i)"])
      (use rs free' t in \<open>auto simp: s'_def fd_range_def nat_less_iff\<close>)
  moreover have "fd_storage_ok s'"
    using st c pl' give by (auto simp: fd_storage_ok_def s'_def)
  ultimately have "fd_inv s'"
    by (simp add: fd_inv_def mapped_fds_def s'_def t)
  then show thesis using that eq free' pl' t by (simp add: s'_def)
qed

lemma fd_init_loop_ok:
  "fd_inv s \<Longrightarrow> true_to_light s = replicate 3000 (- 1) \<Longrightarrow>
   \<forall>j \<in> {i..<i + k}. fd_range (rs j) \<Longrightarrow> distinct (free_fds s @ map rs [i..<i + k]) \<Longrightarrow>
   k \<le> length (pool_free (free_fd_mapping_storage_pool s)) \<Longrightarrow>
   \<exists>s'. fd_init_loop rs i k s = Inr s' \<and> fd_inv s' \<and> free_fds s' = free_fds s @ map rs [i..<i + k] \<and>
        true_to_light s' = replicate 3000 (- 1)"
proof (induction k arbitrary: i s)
  case (Suc k)
  obtain p ps where c: "pool_free (free_fd_mapping_storage_pool s) = p # ps"
    using Suc.prems(5) by (cases "pool_free (free_fd_mapping_storage_pool s)") auto
  have up: "[i..<i + Suc k] = i # [Suc i..<Suc i + k]" by (simp add: upt_rec)
  have rs: "fd_range (rs i)" "rs i \<notin> set (free_fds s)"
    using Suc.prems(3,4) by (auto simp: up simp del: upt_Suc)
  obtain s1 where s1: "fd_init_step rs i s = Inr s1" "fd_inv s1" "true_to_light s1 = replicate 3000 (- 1)"
    "free_fds s1 = free_fds s @ [rs i]" "pool_free (free_fd_mapping_storage_pool s1) = ps"
    using fd_init_step_ok [of s rs i p ps, OF Suc.prems(1,2) rs c] by metis
  have "\<exists>s'. fd_init_loop rs (Suc i) k s1 = Inr s' \<and> fd_inv s' \<and>
      free_fds s' = free_fds s1 @ map rs [Suc i..<Suc i + k] \<and> true_to_light s' = replicate 3000 (- 1)"
  proof (rule Suc.IH)
    show "distinct (free_fds s1 @ map rs [Suc i..<Suc i + k])"
      using Suc.prems(4) s1(4) by (simp only: up) simp
  qed (use s1 Suc.prems c in auto)
  then show ?case using s1 unfolding up by auto
qed simp

text \<open>Initialisation establishes the invariant: if the kernel hands out distinct descriptors below
  the table size and the pool holds \<open>TRUE_FD_NUM\<close> records, \<open>fd_mapping_init\<close> returns, every one
  of these descriptors is free, and exactly these count as light descriptors.\<close>

theorem fd_mapping_init_establishes:
  assumes "length ring_mem = 2048" "pool_ok mp" "distinct (pool_free mp)"
    and "length (pool_free mp) = TRUE_FD_NUM"
    and "\<forall>i < 2000. fd_range (real_socket i)" "inj_on real_socket {..<2000}"
  shows "\<exists>s. fd_mapping_init real_socket ring_mem (Some mp) store = Inr s \<and> fd_inv s \<and>
    free_fds s = map real_socket [0..<TRUE_FD_NUM] \<and>
    (\<forall>fd. fd_range fd \<longrightarrow> (is_light_fd s fd = Inr 1 \<longleftrightarrow> fd \<in> real_socket ` {..<TRUE_FD_NUM}))"
proof -
  define s0 where "s0 = \<lparr> full_true_fd = replicate TRUE_FD_MAX_SIZE (- 1),
              light_to_true = replicate TRUE_FD_MAX_SIZE (- 1),
              true_to_light = replicate TRUE_FD_MAX_SIZE (- 1),
              fd_mapping_ring = snd (rte_ring_init ring_mem ''FD_MAPPING_RING'' 2048 0),
              free_fd_mapping_storage_pool = mp, fd_store = store \<rparr>"
  have count: "rte_ring_get_memsize 0 1 2048 \<ge> 0"
    by (simp add: rte_ring_get_memsize_def POWEROF2_def RTE_RING_SZ_MASK_def)
  note ring = rte_ring_init_ok [of 2048 0 1 ring_mem "''FD_MAPPING_RING''" 0, OF _ count]
  have r0: "ring_ok (fd_mapping_ring s0)" "contents (fd_mapping_ring s0) = []"
    "capacity (fd_mapping_ring s0) = 2047"
    using ring assms(1) by (simp_all add: s0_def RTE_MEMZONE_NAMESIZE_def)
  have "free_fds s0 = []" using r0 by (simp add: free_fds_def)
  moreover have "fd_inv s0"
    using r0 assms(2-4) mpool.bound [OF assms(2)]
    by (auto simp: fd_inv_def fd_storage_ok_def fd_tables_ok_def free_fds_def mapped_fds_def s0_def
        TRUE_FD_MAX_SIZE_def TRUE_FD_NUM_def)
  moreover have "distinct (map real_socket [0..<2000])"
    using assms(6) by (simp add: distinct_map atLeast0LessThan)
  ultimately have "\<exists>s'. fd_init_loop real_socket 0 2000 s0 = Inr s' \<and> fd_inv s' \<and>
      free_fds s' = map real_socket [0..<2000] \<and> true_to_light s' = replicate 3000 (- 1)"
    using fd_init_loop_ok [of s0 0 2000 real_socket] assms(4,5)
    by (simp add: s0_def TRUE_FD_MAX_SIZE_def TRUE_FD_NUM_def)
  then obtain s' where s': "fd_init_loop real_socket 0 2000 s0 = Inr s'" "fd_inv s'"
      "free_fds s' = map real_socket [0..<2000]" "true_to_light s' = replicate 3000 (- 1)" by blast
  have "is_light_fd s' fd = Inr 1 \<longleftrightarrow> fd \<in> real_socket ` {..<2000}" if "fd_range fd" for fd
    using s' that by (auto simp: is_light_fd_def fd_inv_def fd_tables_ok_def fd_range_def nat_less_iff
        atLeast0LessThan split: if_splits)
  then show ?thesis
    using s' by (auto simp: fd_mapping_init_def s0_def [symmetric] TRUE_FD_NUM_def)
qed

theorem fd_mapping_init_establishes_witness:
  "\<exists>s. fd_mapping_init (\<lambda>i. int i + 3) [0..<2048] (Some (pool_of 11 0 [0..<2000])) (\<lambda>_. \<lparr> true_fd = 0, used = 0 \<rparr>) = Inr s \<and>
       fd_inv s \<and> free_fds s = map (\<lambda>i. int i + 3) [0..<TRUE_FD_NUM]"
  using fd_mapping_init_establishes [of "[0..<2048]" "pool_of 11 0 [0..<2000]" "\<lambda>i. int i + 3"
      "\<lambda>_. \<lparr> true_fd = 0, used = 0 \<rparr>"] pool_of_ok [of 11 "[0..<2000]" 0]
  by (auto simp: TRUE_FD_NUM_def fd_range_def inj_on_def)

lemma demo_tables_inv: "fd_inv demo_tables" "free_fds demo_tables = [7]"
proof -
  show "free_fds demo_tables = [7]"
    using ring_of_ok [of 11 "[0]" "0 :: nat"] by (simp add: free_fds_def demo_tables_def)
  then show "fd_inv demo_tables"
    using ring_of_ok [of 11 "[0]" "0 :: nat"] pool_of_ok [of 11 "[]" "0 :: nat"]
    by (auto simp: fd_inv_def fd_storage_ok_def fd_tables_ok_def mapped_fds_def demo_tables_def
        fd_range_def nth_list_update)
qed

text \<open>A new descriptor translates to its object and back.\<close>

lemma get_new_light_fd_maps:
  assumes "fd_inv s" "free_fds s \<noteq> []" "valid_index idx ty"
    and "light_to_true s ! nat (fd_slot idx ty) = - 1"
  shows "\<exists>fd s'. get_new_light_fd s idx ty = Inr (fd, s') \<and> fd_inv s' \<and>
    free_fds s = fd # free_fds s' \<and> is_light_fd s' fd = Inr 1 \<and>
    light_fd_to_socket_epoll_index s' fd = Inr (idx, ty) \<and>
    socket_epoll_index_to_light_fd s' idx ty = Inr fd \<and>
    (\<forall>g. fd_range g \<and> g \<noteq> fd \<longrightarrow>
       light_fd_to_socket_epoll_index s' g = light_fd_to_socket_epoll_index s g)"
proof -
  obtain fd fs where fr: "free_fds s = fd # fs" using assms(2) by (cases "free_fds s") auto
  let ?sl = "fd_slot idx ty"
  obtain s' where s': "get_new_light_fd s idx ty = Inr (fd, s')" "fd_inv s'" "free_fds s' = fs"
    "full_true_fd s' = full_true_fd s" "light_to_true s' = (light_to_true s) [nat ?sl := fd]"
    "true_to_light s' = (true_to_light s) [nat fd := ?sl]" "fd_range fd"
    using get_new_light_fd_ok [OF assms(1) fr assms(3,4)] by metis
  have len: "length (light_to_true s) = 3000" "length (true_to_light s) = 3000"
    "length (full_true_fd s) = 3000" "full_true_fd s ! nat fd = 1"
    using assms(1) fr s'(7) by (auto simp: fd_inv_def fd_tables_ok_def fd_range_def nat_less_iff)
  have sl: "0 \<le> ?sl" "?sl < 3000" using fd_slot_valid [OF assms(3)] by auto
  have "is_light_fd s' fd = Inr 1"
    using len s'(4,7) by (simp add: is_light_fd_def fd_range_def)
  moreover have "light_fd_to_socket_epoll_index s' fd = Inr (idx, ty)"
    using len s'(6,7) assms(3)
    by (auto simp: light_fd_to_socket_epoll_index_def fd_range_def nat_less_iff fd_slot_def valid_index_def
        LIGHT_SOCKET_INDEX_def LIGHT_EPOLL_INDEX_def)
  moreover have "socket_epoll_index_to_light_fd s' idx ty = Inr fd"
    using len s'(5,7) assms(3) sl
    by (auto simp: socket_epoll_index_to_light_fd_def fd_range_def nat_less_iff fd_slot_def valid_index_def
        LIGHT_SOCKET_INDEX_def LIGHT_EPOLL_INDEX_def)
  moreover have "light_fd_to_socket_epoll_index s' g = light_fd_to_socket_epoll_index s g"
    if "fd_range g" "g \<noteq> fd" for g
    using that s'(6,7) len by (simp add: light_fd_to_socket_epoll_index_def fd_range_def nat_eq_iff)
  ultimately show ?thesis using s' fr by auto
qed

text \<open>C20. A new descriptor refers to the object it was created for: with a free descriptor and an
  unmapped, valid index the call returns, keeps the invariant, and the three translations
  agree on the new pair; every other descriptor keeps its meaning.\<close>

theorem get_new_light_fd_roundtrip:
  assumes "fd_inv s" "free_fds s \<noteq> []" "valid_index idx ty"
    and "light_to_true s ! nat (fd_slot idx ty) = - 1"
  shows "\<exists>fd s'. get_new_light_fd s idx ty = Inr (fd, s') \<and> fd_inv s' \<and>
    free_fds s = fd # free_fds s' \<and> is_light_fd s' fd = Inr 1 \<and>
    light_fd_to_socket_epoll_index s' fd = Inr (idx, ty) \<and>
    socket_epoll_index_to_light_fd s' idx ty = Inr fd \<and>
    (\<forall>g. fd_range g \<and> g \<noteq> fd \<longrightarrow>
       light_fd_to_socket_epoll_index s' g = light_fd_to_socket_epoll_index s g)"
  using assms by (rule get_new_light_fd_maps)

theorem get_new_light_fd_roundtrip_witness:
  "\<exists>s'. get_new_light_fd demo_tables 5 LIGHT_EPOLL_INDEX = Inr (7, s') \<and>
        light_fd_to_socket_epoll_index s' 7 = Inr (5, LIGHT_EPOLL_INDEX)"
  using get_new_light_fd_roundtrip [OF demo_tables_inv(1), of 5 LIGHT_EPOLL_INDEX] demo_tables_inv(2)
  by (auto simp: valid_index_def LIGHT_EPOLL_POOL_SIZE_def demo_tables_def fd_slot_def
      LIGHT_CONNECTION_POOL_SIZE_def)

text \<open>Returning a new descriptor restores the tables.\<close>

lemma put_back_light_fd_undoes:
  assumes "fd_inv s" "free_fds s \<noteq> []" "valid_index idx ty"
    and "light_to_true s ! nat (fd_slot idx ty) = - 1"
    and "get_new_light_fd s idx ty = Inr (fd, s1)"
  shows "\<exists>s2. put_back_light_fd s1 fd = Inr (0, s2) \<and> fd_inv s2 \<and>
    light_to_true s2 = light_to_true s \<and> true_to_light s2 = true_to_light s \<and>
    full_true_fd s2 = full_true_fd s \<and> free_fds s2 = tl (free_fds s) @ [fd]"
proof -
  obtain f fs where fr: "free_fds s = f # fs" using assms(2) by (cases "free_fds s") auto
  let ?sl = "fd_slot idx ty"
  have s1: "fd = f" "fd_inv s1" "free_fds s1 = fs" "full_true_fd s1 = full_true_fd s"
    "light_to_true s1 = (light_to_true s) [nat ?sl := fd]"
    "true_to_light s1 = (true_to_light s) [nat fd := ?sl]" "fd_range fd"
    using get_new_light_fd_ok [OF assms(1) fr assms(3,4)] assms(5) by fastforce+
  have sl: "0 \<le> ?sl" "?sl < 3000" using fd_slot_valid [OF assms(3)] by auto
  have t: "true_to_light s ! nat fd = - 1" "length (true_to_light s) = 3000"
    using assms(1) fr s1(1,7) by (auto simp: fd_inv_def fd_tables_ok_def fd_range_def)
  have "true_to_light s1 ! nat fd = ?sl" "?sl \<noteq> - 1"
    using s1(6,7) sl t by (auto simp: fd_range_def nat_less_iff)
  then obtain s2 where s2: "put_back_light_fd s1 fd = Inr (0, s2)" "fd_inv s2"
    "free_fds s2 = free_fds s1 @ [fd]" "full_true_fd s2 = full_true_fd s1"
    "light_to_true s2 = (light_to_true s1) [nat ?sl := - 1]"
    "true_to_light s2 = (true_to_light s1) [nat fd := - 1]"
    using put_back_light_fd_ok [OF s1(2,7)] by metis
  have "light_to_true s2 = light_to_true s" "true_to_light s2 = true_to_light s"
    using s1 s2 t(1) assms(4) by (metis list_update_id list_update_overwrite)+
  then show ?thesis using s1 s2 fr by simp
qed

text \<open>C21. Closing is the inverse of opening: returning a descriptor just handed out restores both
  translation tables and makes the descriptor the last one to be handed out again.\<close>

theorem put_back_light_fd_restores:
  assumes "fd_inv s" "free_fds s \<noteq> []" "valid_index idx ty"
    and "light_to_true s ! nat (fd_slot idx ty) = - 1"
    and "get_new_light_fd s idx ty = Inr (fd, s1)"
  shows "\<exists>s2. put_back_light_fd s1 fd = Inr (0, s2) \<and> fd_inv s2 \<and>
    light_to_true s2 = light_to_true s \<and> true_to_light s2 = true_to_light s \<and>
    full_true_fd s2 = full_true_fd s \<and> free_fds s2 = tl (free_fds s) @ [fd]"
  using assms by (rule put_back_light_fd_undoes)

theorem put_back_light_fd_restores_witness:
  "\<exists>s1 s2. get_new_light_fd demo_tables 5 LIGHT_SOCKET_INDEX = Inr (7, s1) \<and>
     put_back_light_fd s1 7 = Inr (0, s2) \<and> true_to_light s2 = replicate 3000 (- 1) \<and> free_fds s2 = [7]"
proof -
  have ix: "valid_index 5 LIGHT_SOCKET_INDEX"
    "light_to_true demo_tables ! nat (fd_slot 5 LIGHT_SOCKET_INDEX) = - 1"
    by (simp_all add: valid_index_def LIGHT_CONNECTION_POOL_SIZE_def demo_tables_def fd_slot_def
        LIGHT_SOCKET_INDEX_def LIGHT_EPOLL_INDEX_def)
  have ne: "free_fds demo_tables \<noteq> []" by (simp add: demo_tables_inv)
  obtain s1 where s1: "get_new_light_fd demo_tables 5 LIGHT_SOCKET_INDEX = Inr (7, s1)"
    using get_new_light_fd_ok [OF demo_tables_inv(1,2) ix] by metis
  show ?thesis
    using put_back_light_fd_restores [OF demo_tables_inv(1) ne ix s1] s1 demo_tables_inv(2)
    by (auto simp: demo_tables_def)
qed

text \<open>When no descriptor is left the request does not fail cleanly: the function goes on with a
  pointer that was never set.\<close>

theorem get_new_light_fd_exhausted:
  assumes "ring_ok (fd_mapping_ring s)" "free_fds s = []"
  shows "get_new_light_fd s idx ty = Inl BadPointer"
  using assms by (simp add: get_new_light_fd_def free_fds_def rte_ring_dequeue_eq)

theorem get_new_light_fd_exhausted_witness:
  "get_new_light_fd (demo_tables \<lparr> fd_mapping_ring := ring_of 11 0 [] \<rparr>) 5 LIGHT_SOCKET_INDEX
     = Inl BadPointer"
  by (rule get_new_light_fd_exhausted) (use ring_of_ok [of 11 "[]" "0 :: nat"] in \<open>auto simp: free_fds_def\<close>)

end
