(* ===== verification/App_State.thy ===== *)
theory App_State
  imports Commands Fd_Mapping
begin

text \<open>
  The state of an application process as far as the socket calls of \<open>light_api.c\<close> use it: the
  array of local socket descriptors, the shared sockets, the packet buffers with their chains
  and the descriptor tables, on top of the command buffers.  The theory also holds the chain
  abstraction: the byte stream a chain of buffers carries.
\<close>

section \<open>Packet buffers\<close>

text \<open>
  The part of \<open>rte_mbuf\<close> that the library touches.  A segment carries \<open>data_len\<close> bytes of its
  buffer from \<open>data_off\<close> on.
\<close>

record rte_mbuf =
  buf :: "u8 list"
  data_off :: nat
  data_len :: nat
  pkt_len :: nat
  nb_segs :: nat
  next_seg :: "addr option"
  refcnt :: nat

section \<open>Local descriptors\<close>

text \<open>
  \<open>light_app_init\<close> looks up \<open>rx_ring\<close> and \<open>local_cache\<close> under the same name: both fields are one
  ring, which is the field \<open>rx_ring\<close> here.  \<open>socket\<close> is the index of the shared socket, if set.
\<close>

record local_socket_descriptor_t =
  tx_ring :: "addr rte_ring"
  rx_ring :: "addr rte_ring"
  shadow :: "addr option"
  shadow_next :: "addr option"
  shadow_len_remainder :: int
  shadow_len_delievered :: int
  socket :: "nat option"
  family :: int
  type :: int
  protocol :: int
  is_init :: int
  is_set_sockopt :: int
  level :: int
  optname :: int
  optlen :: int
  optval :: "u8 list"
  proc_id :: nat
  any_event_received :: int
  desc_local_ipaddr :: u32
  desc_local_port :: u16
  remote_ipaddr :: u32
  remote_port :: u16
  present_in_ready_cache :: int
  local_mask :: int

record app_env = cmd_env +
  descs :: "nat \<Rightarrow> local_socket_descriptor_t"
  socks :: "nat \<Rightarrow> light_socket_t"
  mbufs :: "addr \<Rightarrow> rte_mbuf"
  released :: "addr list"
  \<comment> \<open>buffers handed back to their pool, oldest first\<close>
  tx_bufs_pool :: "addr rte_mempool"
  fdt :: fd_tables
  num_procs :: nat

section \<open>Access\<close>

definition upd_desc :: "nat \<Rightarrow> (local_socket_descriptor_t \<Rightarrow> local_socket_descriptor_t)
    \<Rightarrow> 'z app_env_scheme \<Rightarrow> 'z app_env_scheme" where
  "upd_desc i f s = s \<lparr> descs := (descs s) (i := f (descs s i)) \<rparr>"

definition upd_sock :: "nat \<Rightarrow> (light_socket_t \<Rightarrow> light_socket_t)
    \<Rightarrow> 'z app_env_scheme \<Rightarrow> 'z app_env_scheme" where
  "upd_sock i f s = s \<lparr> socks := (socks s) (i := f (socks s i)) \<rparr>"

definition upd_mbuf :: "addr \<Rightarrow> (rte_mbuf \<Rightarrow> rte_mbuf) \<Rightarrow> 'z app_env_scheme \<Rightarrow> 'z app_env_scheme" where
  "upd_mbuf a f s = s \<lparr> mbufs := (mbufs s) (a := f (mbufs s a)) \<rparr>"

text \<open>The shared socket of a local descriptor; using it while it is NULL is a fault.\<close>

definition sock_of :: "'z app_env_scheme \<Rightarrow> nat \<Rightarrow> light_socket_t c_res" where
  "sock_of s i = (case socket (descs s i) of None \<Rightarrow> Inl BadPointer | Some k \<Rightarrow> Inr (socks s k))"

text \<open>The bytes of one segment.\<close>

definition seg_bytes :: "rte_mbuf \<Rightarrow> u8 list" where
  "seg_bytes m = take (data_len m) (drop (data_off m) (buf m))"

definition seg_ok :: "rte_mbuf \<Rightarrow> bool" where
  "seg_ok m \<longleftrightarrow> data_off m + data_len m \<le> length (buf m)"

text \<open>A chain of segments from a pointer on, and the bytes it carries.\<close>

fun chain :: "(addr \<Rightarrow> rte_mbuf) \<Rightarrow> addr option \<Rightarrow> addr list \<Rightarrow> bool" where
  "chain h p [] \<longleftrightarrow> p = None"
| "chain h p (a # as) \<longleftrightarrow> p = Some a \<and> chain h (next_seg (h a)) as"

definition chain_bytes :: "(addr \<Rightarrow> rte_mbuf) \<Rightarrow> addr list \<Rightarrow> u8 list" where
  "chain_bytes h as = concat (map (\<lambda>a. seg_bytes (h a)) as)"

definition segs_ok :: "(addr \<Rightarrow> rte_mbuf) \<Rightarrow> addr list \<Rightarrow> bool" where
  "segs_ok h as \<longleftrightarrow> (\<forall>a \<in> set as. seg_ok (h a))"

text \<open>
  A small process for concrete runs: each descriptor has the chains \<open>rx\<close> on its receive ring, and
  buffer 10 continues in buffer 11.
\<close>

definition demo_mbuf :: "u8 list \<Rightarrow> addr option \<Rightarrow> rte_mbuf" where
  "demo_mbuf bs nxt = \<lparr> buf = bs, data_off = 0, data_len = length bs, pkt_len = length bs, nb_segs = 1,
     next_seg = nxt, refcnt = 1 \<rparr>"

definition demo_desc :: "addr list \<Rightarrow> local_socket_descriptor_t" where
  "demo_desc rx = \<lparr> tx_ring = ring_of 2 0 [], rx_ring = ring_of 3 0 rx, shadow = None, shadow_next = None,
     shadow_len_remainder = 0, shadow_len_delievered = 0, socket = Some 3, family = 2, type = 1, protocol = 0,
     is_init = 1, is_set_sockopt = 0, level = 0, optname = 0, optlen = 0, optval = [], proc_id = 0,
     any_event_received = 0, desc_local_ipaddr = 0, desc_local_port = 0, remote_ipaddr = 0, remote_port = 0,
     present_in_ready_cache = 0, local_mask = 0 \<rparr>"

definition demo_sock :: "int \<Rightarrow> light_socket_t" where
  "demo_sock sig = \<lparr> connection_idx = 3, write_done_from_app = 0, occupied_mbuf_num = 0, local_ipaddr = 0,
     local_port = 0, tx_space = 0, send_timeout = \<lparr> tv_sec = 0, tv_usec = 0 \<rparr>,
     receive_timeout = \<lparr> tv_sec = 0, tv_usec = 0 \<rparr>, is_nonblock = 1, connect_close_signal = sig,
     presented_in_chain = 0, epoll_node_list = [], is_multicore = 0, multicore_socket_copies = [3] \<rparr>"

definition demo_app :: "addr list \<Rightarrow> int \<Rightarrow> app_env" where
  "demo_app rx sig = cmd_env.extend (demo_env [])
     \<lparr> descs = (\<lambda>_. demo_desc rx), socks = (\<lambda>_. demo_sock sig),
       mbufs = (\<lambda>a. if a = 10 then demo_mbuf [1, 2, 3] (Some 11) else demo_mbuf [4, 5] None),
       released = [], tx_bufs_pool = pool_of 3 0 [20, 21, 22],
       fdt = \<lparr> full_true_fd = [], light_to_true = [], true_to_light = [3], fd_mapping_ring = ring_of 1 0 [],
               free_fd_mapping_storage_pool = pool_of 1 0 [], fd_store = (\<lambda>_. \<lparr> true_fd = 0, used = 0 \<rparr>) \<rparr>,
       num_procs = 1 \<rparr>"

section \<open>Lemmas\<close>

lemma post_command_frame [simp]:
  fixes s :: "'z app_env_scheme"
  shows "descs (snd (post_command pr f s)) = descs s" "socks (snd (post_command pr f s)) = socks s"
    "mbufs (snd (post_command pr f s)) = mbufs s" "released (snd (post_command pr f s)) = released s"
    "fdt (snd (post_command pr f s)) = fdt s" "tx_bufs_pool (snd (post_command pr f s)) = tx_bufs_pool s"
    "num_procs (snd (post_command pr f s)) = num_procs s" "app_env.more (snd (post_command pr f s)) = app_env.more s"
  by (simp_all add: post_command_def light_get_free_command_buf_by_proc_id_def light_free_command_buf_by_proc_id_def
      light_enqueue_command_buf_by_proc_id_def write_cmd_def Let_def split: prod.split option.split)

lemma chain_unique: "chain h p as \<Longrightarrow> chain h p bs \<Longrightarrow> as = bs"
proof (induction as arbitrary: p bs)
  case Nil
  then show ?case by (cases bs) auto
next
  case (Cons a as)
  then show ?case by (cases bs) auto
qed

lemma chain_suffix: "chain h p (as @ b # bs) \<Longrightarrow> chain h (Some b) (b # bs)"
  by (induction as arbitrary: p) auto

lemma chain_distinct: "chain h p as \<Longrightarrow> distinct as"
proof (induction as arbitrary: p)
  case (Cons a as)
  have "a \<notin> set as"
  proof
    assume "a \<in> set as"
    then obtain xs ys where s: "as = xs @ a # ys" by (meson split_list)
    then have "chain h (Some a) (a # ys)" using Cons.prems chain_suffix [of h p "a # xs" a ys] by simp
    then have "a # as = a # ys" using Cons.prems chain_unique by simp blast
    then show False using s by simp
  qed
  then show ?case using Cons by auto
qed simp

lemma chain_cong:
  "(\<And>a. a \<in> set as \<Longrightarrow> next_seg (h' a) = next_seg (h a)) \<Longrightarrow> chain h' p as = chain h p as"
  by (induction as arbitrary: p) auto

lemma chain_append:
  assumes "chain h p (as @ [l])" "chain h q bs" "l \<notin> set bs"
  shows "chain (h (l := (h l) \<lparr> next_seg := q \<rparr>)) p (as @ l # bs)"
  using assms
proof (induction as arbitrary: p)
  case Nil
  have "chain (h (l := (h l) \<lparr> next_seg := q \<rparr>)) q bs = chain h q bs"
    by (rule chain_cong) (use Nil in auto)
  then show ?case using Nil by (simp add: fun_upd_def)
next
  case (Cons a as)
  have "a \<noteq> l" using chain_distinct [OF Cons.prems(1)] by auto
  then show ?case using Cons by auto
qed

lemma chain_bytes_simps [simp]:
  "chain_bytes h [] = []" "chain_bytes h (a # as) = seg_bytes (h a) @ chain_bytes h as"
  "chain_bytes h (as @ bs) = chain_bytes h as @ chain_bytes h bs"
  by (simp_all add: chain_bytes_def)

lemma chain_bytes_cong:
  "(\<And>a. a \<in> set as \<Longrightarrow> seg_bytes (h' a) = seg_bytes (h a)) \<Longrightarrow> chain_bytes h' as = chain_bytes h as"
  by (auto simp: chain_bytes_def intro!: arg_cong [where f = concat])

lemma length_seg_bytes: "seg_ok m \<Longrightarrow> length (seg_bytes m) = data_len m"
  by (simp add: seg_ok_def seg_bytes_def)

lemma segs_ok_simps [simp]:
  "segs_ok h []" "segs_ok h (a # as) \<longleftrightarrow> seg_ok (h a) \<and> segs_ok h as"
  "segs_ok h (as @ bs) \<longleftrightarrow> segs_ok h as \<and> segs_ok h bs"
  by (auto simp: segs_ok_def)

lemma demo_app_simps [simp]:
  "descs (demo_app rx sig) i = demo_desc rx" "socks (demo_app rx sig) k = demo_sock sig"
  "mbufs (demo_app rx sig) a = (if a = 10 then demo_mbuf [1, 2, 3] (Some 11) else demo_mbuf [4, 5] None)"
  "released (demo_app rx sig) = []" "rx_ring (demo_desc rx) = ring_of 3 0 rx" "shadow (demo_desc rx) = None"
  "socket (demo_desc rx) = Some 3" "proc_id (demo_desc rx) = 0"
  "multicore_socket_copies (demo_sock sig) = [3]" "connect_close_signal (demo_sock sig) = sig"
  "is_nonblock (demo_sock sig) = 1" "true_to_light (fdt (demo_app rx sig)) = [3]"
  by (simp_all add: demo_app_def cmd_env.defs demo_desc_def demo_sock_def)

end
