(* ===== verification/Rx_Path.thy ===== *)
theory Rx_Path
  imports App_State
begin

text \<open>
  The receive path of \<open>light_api.c\<close> and \<open>light_ring_ops.h\<close>: taking buffer chains from the receive
  ring of a socket, splitting a chain when the caller asks for fewer bytes than it carries (the
  rest is kept as the \<open>shadow\<close> of the descriptor), copying to the caller and releasing buffers.
  The lemmas relate every step to the byte stream that waits at the socket.
\<close>

definition MAX_PKT_BURST :: nat where "MAX_PKT_BURST = 32"

section \<open>Dequeuing from the receive ring\<close>

text \<open>Each attempt first sends a kick to the stack process.\<close>

definition rx_kick :: "nat \<Rightarrow> light_cmd_t \<Rightarrow> light_cmd_t" where
  "rx_kick sock c = c \<lparr> cmd := LIGHT_SOCKET_RX_KICK_COMMAND, ringset_idx := int sock \<rparr>"

text \<open>The wait condition of both variants; the socket is only looked at while the ring is empty.\<close>

definition rx_must_wait :: "nat \<Rightarrow> 'z app_env_scheme \<Rightarrow> bool c_res" where
  "rx_must_wait sock s =
     (if rte_ring_empty (rx_ring (descs s sock))
      then cbind (sock_of s sock) (\<lambda>sk. Inr (connect_close_signal sk < 3))
      else Inr False)"

text \<open>The dequeue that ends both variants; a failed one leaves the NULL pointer.\<close>

definition rx_dequeue :: "nat \<Rightarrow> 'z app_env_scheme \<Rightarrow> addr option \<times> 'z app_env_scheme" where
  "rx_dequeue sock s =
     (let (ret, m, rg) = rte_ring_dequeue (rx_ring (descs s sock)) 0 in
      if ret = 0 then (Some m, upd_desc sock (rx_ring_update (\<lambda>_. rg)) s) else (None, s))"

definition light_dequeue_rx_buf_nonblock_by_proc_id ::
  "nat \<Rightarrow> nat \<Rightarrow> 'z app_env_scheme \<Rightarrow> (addr option \<times> 'z app_env_scheme) c_res" where
  "light_dequeue_rx_buf_nonblock_by_proc_id sock pr s =
     (let s1 = post_command_unchecked pr (rx_kick sock) s in
      cbind (rx_must_wait sock s1) (\<lambda>w. if w then Inr (None, s1) else Inr (rx_dequeue sock s1)))"

text \<open>
  The blocking variant polls until the condition is gone.  What the other processes do between
  two polls is the argument \<open>env\<close>, indexed by the number of the poll.
\<close>

partial_function (option) rx_spin ::
  "nat \<Rightarrow> (nat \<Rightarrow> 'z app_env_scheme \<Rightarrow> 'z app_env_scheme) \<Rightarrow> nat \<Rightarrow> 'z app_env_scheme \<Rightarrow> 'z app_env_scheme c_res option" where
  "rx_spin sock env k s =
     (case rx_must_wait sock s of
        Inl e \<Rightarrow> Some (Inl e)
      | Inr w \<Rightarrow> if w then rx_spin sock env (k + 1) (env k s) else Some (Inr s))"

definition light_dequeue_rx_buf_by_proc_id ::
  "nat \<Rightarrow> nat \<Rightarrow> (nat \<Rightarrow> 'z app_env_scheme \<Rightarrow> 'z app_env_scheme) \<Rightarrow> 'z app_env_scheme
     \<Rightarrow> (addr option \<times> 'z app_env_scheme) c_res" where
  "light_dequeue_rx_buf_by_proc_id sock pr env s =
     (let s1 = post_command_unchecked pr (rx_kick sock) s in
      cbind (loop_res (rx_spin sock env 0 s1)) (\<lambda>r. cbind r (\<lambda>s2. Inr (rx_dequeue sock s2))))"

section \<open>Splitting a chain\<close>

definition light_get_from_shadow :: "nat \<Rightarrow> 'z app_env_scheme \<Rightarrow> addr option \<times> 'z app_env_scheme" where
  "light_get_from_shadow sock s =
     (let d = descs s sock in
      case shadow d of None \<Rightarrow> (None, s)
      | Some m \<Rightarrow>
          let len = nat (shadow_len_remainder d);
              tot = (case shadow_next d of None \<Rightarrow> len | Some n \<Rightarrow> len + pkt_len (mbufs s n));
              s1 = upd_mbuf m (\<lambda>b. b \<lparr> data_len := len,
                     data_off := data_off b + nat (shadow_len_delievered d),
                     next_seg := shadow_next d, pkt_len := tot \<rparr>) s
          in (Some m, upd_desc sock (\<lambda>d. d \<lparr> shadow := None, shadow_next := None \<rparr>) s1))"

text \<open>The loop that looks for the segment in which the requested amount ends.\<close>

partial_function (option) try_scan ::
  "(addr \<Rightarrow> rte_mbuf) \<Rightarrow> int \<Rightarrow> addr option \<Rightarrow> addr option \<Rightarrow> int
     \<Rightarrow> (addr option \<times> addr option \<times> int) option" where
  "try_scan h tot tmp prev cur =
     (case tmp of None \<Rightarrow> Some (None, prev, cur)
      | Some t \<Rightarrow>
          if int (data_len (h t)) + cur < tot
          then try_scan h tot (next_seg (h t)) (Some t) (cur + int (data_len (h t)))
          else Some (Some t, prev, cur))"

text \<open>
  The results are the new values of \<open>total_len\<close> and \<open>first_segment_len\<close> and the state.  The length
  of the first segment is read before the split segment is shortened.
\<close>

definition light_try_read_exact_amount ::
  "addr \<Rightarrow> nat \<Rightarrow> int \<Rightarrow> 'z app_env_scheme \<Rightarrow> (int \<times> int \<times> 'z app_env_scheme) c_res" where
  "light_try_read_exact_amount mbuf sock total_len s =
     cbind (loop_res (try_scan (mbufs s) total_len (Some mbuf) None 0)) (\<lambda>(tmp, prev, curr_len).
       let first_segment_len = int (data_len (mbufs s mbuf)) in
       case tmp of
         None \<Rightarrow> Inr (curr_len, first_segment_len, s)
       | Some t \<Rightarrow>
           let len = int (data_len (mbufs s t));
               s1 = (if curr_len + len > total_len
                     then let rem = curr_len + len - total_len; del = len - rem
                          in upd_mbuf t (\<lambda>b. b \<lparr> data_len := nat del \<rparr>)
                               (upd_desc sock (\<lambda>d. d \<lparr> shadow := Some t,
                                    shadow_next := next_seg (mbufs s t),
                                    shadow_len_remainder := rem, shadow_len_delievered := del \<rparr>) s)
                     else (case next_seg (mbufs s t) of None \<Rightarrow> s
                           | Some n \<Rightarrow> upd_desc sock (\<lambda>d. d \<lparr> shadow := Some n,
                                shadow_next := next_seg (mbufs s n),
                                shadow_len_remainder := int (data_len (mbufs s n)),
                                shadow_len_delievered := 0 \<rparr>) s));
               s2 = upd_mbuf t (\<lambda>b. b \<lparr> next_seg := None \<rparr>) s1;
               s3 = (if curr_len = total_len
                     then (case prev of None \<Rightarrow> s2 | Some p \<Rightarrow> upd_mbuf p (\<lambda>b. b \<lparr> next_seg := None \<rparr>) s2)
                     else s2)
           in Inr (total_len, first_segment_len, s3))"

partial_function (option) rte_pktmbuf_lastseg :: "(addr \<Rightarrow> rte_mbuf) \<Rightarrow> addr \<Rightarrow> addr option" where
  "rte_pktmbuf_lastseg h m =
     (case next_seg (h m) of None \<Rightarrow> Some m | Some n \<Rightarrow> rte_pktmbuf_lastseg h n)"

section \<open>Receiving a chain\<close>

text \<open>
  The result of the C function, the new \<open>total_len\<close> and \<open>first_segment_len\<close>, and the chain that
  \<open>pdesc\<close> (and \<open>pbuffer\<close>, the data of its first segment) points to.
\<close>

record rx_result =
  rx_ret :: int
  rx_total :: int
  rx_first :: int
  rx_desc :: "addr option"

definition receive_shadow ::
  "nat \<Rightarrow> int \<Rightarrow> nat \<Rightarrow> addr \<Rightarrow> 'z app_env_scheme \<Rightarrow> (rx_result \<times> 'z app_env_scheme) c_res" where
  "receive_shadow sock tot pr mbuf s =
     (if tot > 0
      then cbind (light_try_read_exact_amount mbuf sock tot s) (\<lambda>(total2, first, s1).
        if total2 > 0 \<and> total2 < tot
        then cbind (light_dequeue_rx_buf_nonblock_by_proc_id sock pr s1) (\<lambda>(m2, s2).
          case m2 of
            None \<Rightarrow> Inr (\<lparr> rx_ret = 0, rx_total = total2, rx_first = first, rx_desc = Some mbuf \<rparr>, s2)
          | Some mbuf2 \<Rightarrow>
              cbind (light_try_read_exact_amount mbuf2 sock (tot - total2) s2) (\<lambda>(total3, _, s3).
              cbind (loop_res (rte_pktmbuf_lastseg (mbufs s3) mbuf)) (\<lambda>l.
                Inr (\<lparr> rx_ret = 0, rx_total = total2 + total3, rx_first = first, rx_desc = Some mbuf \<rparr>,
                     upd_mbuf l (\<lambda>b. b \<lparr> next_seg := Some mbuf2 \<rparr>) s3))))
        else Inr (\<lparr> rx_ret = 0, rx_total = tot, rx_first = first, rx_desc = Some mbuf \<rparr>, s1))
      else cbind (light_dequeue_rx_buf_nonblock_by_proc_id sock pr s) (\<lambda>(m2, s1).
           cbind (loop_res (rte_pktmbuf_lastseg (mbufs s1) mbuf)) (\<lambda>l.
             let s2 = upd_mbuf l (\<lambda>b. b \<lparr> next_seg := m2 \<rparr>) s1;
                 s3 = (case m2 of None \<Rightarrow> s2
                       | Some m \<Rightarrow> upd_mbuf mbuf (\<lambda>b. b \<lparr> pkt_len := pkt_len b + pkt_len (mbufs s2 m) \<rparr>) s2)
             in Inr (\<lparr> rx_ret = 0, rx_total = int (pkt_len (mbufs s3 mbuf)),
                       rx_first = int (data_len (mbufs s3 mbuf)), rx_desc = Some mbuf \<rparr>, s3))))"

definition receive_ring ::
  "nat \<Rightarrow> int \<Rightarrow> addr option \<Rightarrow> 'z app_env_scheme \<Rightarrow> (rx_result \<times> 'z app_env_scheme) c_res" where
  "receive_ring sock tot m s =
     (case m of
        Some mbuf \<Rightarrow>
          if tot > 0
          then cbind (light_try_read_exact_amount mbuf sock tot s) (\<lambda>(total2, first, s1).
                 Inr (\<lparr> rx_ret = 0, rx_total = total2, rx_first = first, rx_desc = Some mbuf \<rparr>, s1))
          else Inr (\<lparr> rx_ret = 0, rx_total = int (pkt_len (mbufs s mbuf)),
                      rx_first = int (data_len (mbufs s mbuf)), rx_desc = Some mbuf \<rparr>, s)
      | None \<Rightarrow>
          if rte_ring_empty (rx_ring (descs s sock))
          then cbind (sock_of s sock) (\<lambda>sk.
                 Inr (\<lparr> rx_ret = (if connect_close_signal sk \<ge> 3 then - 1 else - 2),
                        rx_total = tot, rx_first = 0, rx_desc = None \<rparr>, s))
          else Inr (\<lparr> rx_ret = - 2, rx_total = tot, rx_first = 0, rx_desc = None \<rparr>, s))"

definition light_receive_buffer_chain_by_proc_id ::
  "nat \<Rightarrow> int \<Rightarrow> bool \<Rightarrow> nat \<Rightarrow> (nat \<Rightarrow> 'z app_env_scheme \<Rightarrow> 'z app_env_scheme) \<Rightarrow> 'z app_env_scheme
     \<Rightarrow> (rx_result \<times> 'z app_env_scheme) c_res" where
  "light_receive_buffer_chain_by_proc_id sock tot nonblock pr env s =
     (case light_get_from_shadow sock s of
        (Some mbuf, s1) \<Rightarrow> receive_shadow sock tot pr mbuf s1
      | (None, s1) \<Rightarrow>
          cbind (if nonblock then light_dequeue_rx_buf_nonblock_by_proc_id sock pr s1
                 else light_dequeue_rx_buf_by_proc_id sock pr env s1)
                (\<lambda>(m, s2). receive_ring sock tot m s2))"

section \<open>Copying and releasing\<close>

text \<open>
  The copy loop of \<open>light_recv\<close> collects the bytes it writes from the start of the caller's buffer
  on; \<open>len\<close> is \<open>first_seg_len\<close>, which a segment after the first one takes from the segment.
\<close>

partial_function (option) copy_segments :: "(addr \<Rightarrow> rte_mbuf) \<Rightarrow> addr \<Rightarrow> int \<Rightarrow> u8 list \<Rightarrow> u8 list option" where
  "copy_segments h m len acc =
     (let w = acc @ take (nat len) (drop (data_off (h m)) (buf (h m))) in
      case next_seg (h m) of
        None \<Rightarrow> Some w
      | Some n \<Rightarrow> copy_segments h n (int (data_len (h n))) w)"

text \<open>Dropping one reference of the 16-bit count; the result says whether it was the last.\<close>

definition pktmbuf_prefree_seg :: "addr \<Rightarrow> 'z app_env_scheme \<Rightarrow> bool \<times> 'z app_env_scheme" where
  "pktmbuf_prefree_seg m s =
     (refcnt (mbufs s m) = 1, upd_mbuf m (\<lambda>b. b \<lparr> refcnt := (refcnt b + 65535) mod 65536 \<rparr>) s)"

text \<open>The inner loop collects up to \<open>MAX_PKT_BURST\<close> buffers and stops at the shadow.\<close>

partial_function (option) release_batch ::
  "nat \<Rightarrow> addr option \<Rightarrow> addr list \<Rightarrow> 'z app_env_scheme \<Rightarrow> (addr option \<times> addr list \<times> 'z app_env_scheme) option" where
  "release_batch sock m batch s =
     (case m of None \<Rightarrow> Some (None, batch, s)
      | Some a \<Rightarrow>
          if length batch \<ge> MAX_PKT_BURST then Some (m, batch, s)
          else if Some a = shadow (descs s sock) then Some (None, batch, s)
          else let nxt = next_seg (mbufs s a); (last, s1) = pktmbuf_prefree_seg a s
               in if last then release_batch sock nxt (batch @ [a]) (upd_mbuf a (\<lambda>b. b \<lparr> next_seg := None \<rparr>) s1)
                  else release_batch sock nxt batch s1)"

partial_function (option) light_release_rx_buffer ::
  "addr option \<Rightarrow> nat \<Rightarrow> 'z app_env_scheme \<Rightarrow> 'z app_env_scheme option" where
  "light_release_rx_buffer m sock s =
     (case m of None \<Rightarrow> Some s
      | Some a \<Rightarrow>
          (case release_batch sock m [] s of
             None \<Rightarrow> None
           | Some (m', batch, s1) \<Rightarrow>
               light_release_rx_buffer m' sock (s1 \<lparr> released := released s1 @ batch \<rparr>)))"

text \<open>
  \<open>light_recv\<close>: the C result, the bytes written to the caller's buffer, whether \<open>errno\<close> was set to
  \<open>EAGAIN\<close>, and the state.
\<close>

record recv_result =
  recv_ret :: int
  recv_written :: "u8 list"
  recv_eagain :: bool

definition light_recv_sock ::
  "nat \<Rightarrow> int \<Rightarrow> bool \<Rightarrow> nat \<Rightarrow> (nat \<Rightarrow> 'z app_env_scheme \<Rightarrow> 'z app_env_scheme) \<Rightarrow> 'z app_env_scheme
     \<Rightarrow> (recv_result \<times> 'z app_env_scheme) c_res" where
  "light_recv_sock sock nbytes nonblock pr env s =
     cbind (light_receive_buffer_chain_by_proc_id sock nbytes nonblock pr env s) (\<lambda>(r, s1).
     if rx_ret r = 0
     then (case rx_desc r of None \<Rightarrow> Inl BadPointer
           | Some m \<Rightarrow>
               cbind (if rx_total r > 0 then loop_res (copy_segments (mbufs s1) m (rx_first r) []) else Inr [])
                 (\<lambda>w. cbind (loop_res (light_release_rx_buffer (Some m) sock s1))
                 (\<lambda>s2. Inr (\<lparr> recv_ret = rx_total r, recv_written = w, recv_eagain = False \<rparr>, s2))))
     else if rx_ret r = - 1
     then Inr (\<lparr> recv_ret = 0, recv_written = [], recv_eagain = False \<rparr>, s1)
     else Inr (\<lparr> recv_ret = - 1, recv_written = [], recv_eagain = nonblock \<rparr>, s1))"

definition light_recv ::
  "int \<Rightarrow> int \<Rightarrow> (nat \<Rightarrow> 'z app_env_scheme \<Rightarrow> 'z app_env_scheme) \<Rightarrow> 'z app_env_scheme
     \<Rightarrow> (recv_result \<times> 'z app_env_scheme) c_res" where
  "light_recv fd nbytes env s =
     cbind (light_fd_to_socket_epoll_index (fdt s) fd) (\<lambda>(idx, fd_type).
     if idx < 0 then Inl OutOfBounds else
     let pr = proc_id (descs s (nat idx)) in
     cbind (sock_of s (nat idx)) (\<lambda>sk0.
     cbind (aget (multicore_socket_copies sk0) (int pr)) (\<lambda>copy.
     if copy < 0 then Inl OutOfBounds else
     cbind (sock_of s (nat copy)) (\<lambda>sk.
       light_recv_sock (nat copy) nbytes (is_nonblock sk \<noteq> 0) pr env s))))"

section \<open>The waiting byte stream\<close>

text \<open>A segment that carries data, and that nobody else holds.\<close>

definition live_seg :: "rte_mbuf \<Rightarrow> bool" where
  "live_seg m \<longleftrightarrow> seg_ok m \<and> 0 < data_len m \<and> refcnt m = 1"

text \<open>
  The part kept as shadow: the rest of the split segment and the chain behind it, whose
  addresses are \<open>sh\<close>.
\<close>

definition shadow_bytes :: "(addr \<Rightarrow> rte_mbuf) \<Rightarrow> local_socket_descriptor_t \<Rightarrow> addr list \<Rightarrow> u8 list" where
  "shadow_bytes h d sh =
     (case shadow d of None \<Rightarrow> []
      | Some m \<Rightarrow> take (nat (shadow_len_remainder d))
                   (drop (data_off (h m) + nat (shadow_len_delievered d)) (buf (h m))) @ chain_bytes h sh)"

definition shadow_addrs :: "local_socket_descriptor_t \<Rightarrow> addr list \<Rightarrow> addr list" where
  "shadow_addrs d sh = (case shadow d of None \<Rightarrow> [] | Some m \<Rightarrow> m # sh)"

definition shadow_ok :: "(addr \<Rightarrow> rte_mbuf) \<Rightarrow> local_socket_descriptor_t \<Rightarrow> addr list \<Rightarrow> bool" where
  "shadow_ok h d sh \<longleftrightarrow>
     (case shadow d of None \<Rightarrow> sh = []
      | Some m \<Rightarrow> chain h (shadow_next d) sh \<and> 0 < shadow_len_remainder d \<and> 0 \<le> shadow_len_delievered d \<and>
          data_off (h m) + nat (shadow_len_delievered d) + nat (shadow_len_remainder d) \<le> length (buf (h m)) \<and>
          refcnt (h m) = 1 \<and> (\<forall>a \<in> set sh. live_seg (h a)))"

text \<open>
  The receive side of a socket: \<open>rcs\<close> are the chains whose heads are queued on its ring.  No
  buffer occurs twice.
\<close>

definition rx_ok :: "'z app_env_scheme \<Rightarrow> nat \<Rightarrow> addr list \<Rightarrow> addr list list \<Rightarrow> bool" where
  "rx_ok s i sh rcs \<longleftrightarrow>
     ring_ok (rx_ring (descs s i)) \<and> contents (rx_ring (descs s i)) = map hd rcs \<and>
     (\<forall>c \<in> set rcs. c \<noteq> [] \<and> chain (mbufs s) (Some (hd c)) c) \<and>
     shadow_ok (mbufs s) (descs s i) sh \<and>
     distinct (shadow_addrs (descs s i) sh @ concat rcs) \<and>
     (\<forall>a \<in> set (concat rcs). live_seg (mbufs s a))"

definition rx_stream :: "'z app_env_scheme \<Rightarrow> nat \<Rightarrow> addr list \<Rightarrow> addr list list \<Rightarrow> u8 list" where
  "rx_stream s i sh rcs = shadow_bytes (mbufs s) (descs s i) sh @ chain_bytes (mbufs s) (concat rcs)"

definition freed :: "addr list \<Rightarrow> (addr \<Rightarrow> rte_mbuf) \<Rightarrow> addr \<Rightarrow> rte_mbuf" where
  "freed as h = (\<lambda>a. if a \<in> set as then (h a) \<lparr> refcnt := 0, next_seg := None \<rparr> else h a)"

definition clen :: "(addr \<Rightarrow> rte_mbuf) \<Rightarrow> addr list \<Rightarrow> nat" where
  "clen h as = sum_list (map (\<lambda>a. data_len (h a)) as)"

text \<open>The descriptor and the heap after a split at segment \<open>t\<close>, of which \<open>del\<close> bytes are delivered.\<close>

definition split_desc :: "(addr \<Rightarrow> rte_mbuf) \<Rightarrow> addr \<Rightarrow> nat \<Rightarrow> local_socket_descriptor_t \<Rightarrow> local_socket_descriptor_t" where
  "split_desc h t del d =
     (if del < data_len (h t)
      then d \<lparr> shadow := Some t, shadow_next := next_seg (h t),
               shadow_len_remainder := int (data_len (h t) - del), shadow_len_delievered := int del \<rparr>
      else case next_seg (h t) of None \<Rightarrow> d
           | Some n \<Rightarrow> d \<lparr> shadow := Some n, shadow_next := next_seg (h n),
                            shadow_len_remainder := int (data_len (h n)), shadow_len_delievered := 0 \<rparr>)"

definition split_heap :: "(addr \<Rightarrow> rte_mbuf) \<Rightarrow> addr \<Rightarrow> nat \<Rightarrow> addr \<Rightarrow> rte_mbuf" where
  "split_heap h t del = h (t := (h t) \<lparr> data_len := del, next_seg := None \<rparr>)"

text \<open>
  What taking up to \<open>tot\<close> bytes from the chain \<open>as\<close> means: the chain \<open>as1\<close> is delivered, the rest is
  the new shadow, and each buffer is in exactly one of the two parts.
\<close>

definition taken ::
  "'z app_env_scheme \<Rightarrow> nat \<Rightarrow> addr \<Rightarrow> addr list \<Rightarrow> nat \<Rightarrow> 'z app_env_scheme \<Rightarrow> addr list \<Rightarrow> addr list \<Rightarrow> bool" where
  "taken s i m as tot s1 as1 sh1 \<longleftrightarrow>
     (let n = min tot (clen (mbufs s) as); B = chain_bytes (mbufs s) as; d1 = descs s1 i;
          rel = takeWhile (\<lambda>a. Some a \<noteq> shadow d1) as1 in
      s1 = s \<lparr> mbufs := mbufs s1, descs := (descs s) (i := d1) \<rparr> \<and>
      rx_ring d1 = rx_ring (descs s i) \<and> socket d1 = socket (descs s i) \<and>
      chain (mbufs s1) (Some m) as1 \<and> (\<forall>a \<in> set as1. live_seg (mbufs s1 a)) \<and>
      chain_bytes (mbufs s1) as1 = take n B \<and>
      shadow_ok (mbufs s1) d1 sh1 \<and> shadow_bytes (mbufs s1) d1 sh1 = drop n B \<and>
      distinct (shadow_addrs d1 sh1) \<and>
      set as = set rel \<union> set (shadow_addrs d1 sh1) \<and> set rel \<inter> set (shadow_addrs d1 sh1) = {} \<and>
      set as1 \<subseteq> set as \<and>
      (\<forall>a. a \<notin> set as \<longrightarrow> mbufs s1 a = mbufs s a) \<and>
      (\<forall>a. buf (mbufs s1 a) = buf (mbufs s a) \<and> data_off (mbufs s1 a) = data_off (mbufs s a)) \<and>
      (data_len (mbufs s1 m) = data_len (mbufs s m) \<or> as1 = [m] \<and> tot < data_len (mbufs s m)))"

text \<open>The chains that wait on the ring, apart from the shadow.\<close>

definition queue_ok :: "'z app_env_scheme \<Rightarrow> nat \<Rightarrow> addr list list \<Rightarrow> bool" where
  "queue_ok s i rcs \<longleftrightarrow>
     ring_ok (rx_ring (descs s i)) \<and> contents (rx_ring (descs s i)) = map hd rcs \<and>
     (\<forall>c \<in> set rcs. c \<noteq> [] \<and> chain (mbufs s) (Some (hd c)) c) \<and>
     (\<forall>a \<in> set (concat rcs). live_seg (mbufs s a)) \<and> distinct (concat rcs)"

text \<open>The length of the first waiting segment.\<close>

definition head_len :: "'z app_env_scheme \<Rightarrow> nat \<Rightarrow> addr list list \<Rightarrow> nat" where
  "head_len s i rcs =
     (case shadow (descs s i) of Some m \<Rightarrow> nat (shadow_len_remainder (descs s i))
      | None \<Rightarrow> data_len (mbufs s (hd (hd rcs))))"

definition received ::
  "'z app_env_scheme \<Rightarrow> nat \<Rightarrow> addr list \<Rightarrow> addr list list \<Rightarrow> nat \<Rightarrow> (rx_result \<times> 'z app_env_scheme) c_res \<Rightarrow> bool" where
  "received s i sh rcs tot z \<longleftrightarrow>
     (\<exists>r s0 m as s1 as1 sh1 rcs1. z = Inr (r, s1) \<and> rx_ret r = 0 \<and> rx_desc r = Some m \<and>
        rx_total r = int (min tot (clen (mbufs s0) as)) \<and> rx_first r = int (data_len (mbufs s0 m)) \<and>
        data_len (mbufs s0 m) = head_len s i rcs \<and>
        taken s0 i m as tot s1 as1 sh1 \<and> m \<in> set as \<and> queue_ok s0 i rcs1 \<and> set as \<inter> set (concat rcs1) = {} \<and>
        (\<forall>a \<in> set as. live_seg (mbufs s0 a)) \<and>
        chain_bytes (mbufs s0) as @ chain_bytes (mbufs s0) (concat rcs1) = rx_stream s i sh rcs \<and>
        released s0 = released s \<and>
        set as \<union> set (concat rcs1) = set (shadow_addrs (descs s i) sh) \<union> set (concat rcs))"

text \<open>Data is waiting: a part kept as shadow, or a chain on the ring.\<close>

definition rx_ready :: "'z app_env_scheme \<Rightarrow> nat \<Rightarrow> addr list list \<Rightarrow> bool" where
  "rx_ready s i rcs \<longleftrightarrow> shadow (descs s i) \<noteq> None \<or> rcs \<noteq> []"

text \<open>The state after \<open>k\<close> polls.\<close>

fun polled :: "(nat \<Rightarrow> 'z app_env_scheme \<Rightarrow> 'z app_env_scheme) \<Rightarrow> 'z app_env_scheme \<Rightarrow> nat \<Rightarrow> 'z app_env_scheme" where
  "polled env s 0 = s"
| "polled env s (Suc k) = env k (polled env s k)"

section \<open>Lemmas\<close>

subsection \<open>Copying and releasing\<close>

lemma copy_segments_chain:
  "chain h (Some m) (m # as) \<Longrightarrow>
   copy_segments h m len acc = Some (acc @ take (nat len) (drop (data_off (h m)) (buf (h m))) @ chain_bytes h as)"
proof (induction as arbitrary: m len acc)
  case Nil
  then show ?case by (simp add: copy_segments.simps)
next
  case (Cons a as)
  then have "next_seg (h m) = Some a" "chain h (Some a) (a # as)" by auto
  with Cons.IH [OF this(2)] show ?case
    by (subst copy_segments.simps) (simp add: Let_def seg_bytes_def)
qed

lemma freed_Nil [simp]: "freed [] h = h"
  by (simp add: freed_def)

lemma freed_Cons: "a \<notin> set as \<Longrightarrow> freed as (h (a := (h a) \<lparr> refcnt := 0, next_seg := None \<rparr>)) = freed (a # as) h"
  by (auto simp: freed_def fun_eq_iff)

lemma freed_append: "freed bs (freed as h) = freed (as @ bs) h"
  by (auto simp: freed_def fun_eq_iff)

lemma release_batch_spec:
  assumes "chain (mbufs s) m as" "\<forall>a \<in> set as. refcnt (mbufs s a) = 1" "length batch \<le> MAX_PKT_BURST"
  shows "\<exists>k m'. release_batch sock m batch s = Some (m', batch @ take k as, s \<lparr> mbufs := freed (take k as) (mbufs s) \<rparr>) \<and>
     k \<le> length as \<and> (\<forall>a \<in> set (take k as). Some a \<noteq> shadow (descs s sock)) \<and>
     (m' = None \<and> (k = length as \<or> Some (as ! k) = shadow (descs s sock)) \<or>
      k < length as \<and> length batch + k = MAX_PKT_BURST \<and> chain (mbufs s) m' (drop k as))"
  using assms
proof (induction as arbitrary: m batch s)
  case Nil
  then show ?case by (subst release_batch.simps) (auto intro!: exI [of _ 0])
next
  case (Cons a as)
  then have m: "m = Some a" and ch: "chain (mbufs s) (next_seg (mbufs s a)) as" by auto
  show ?case
  proof (cases "length batch \<ge> MAX_PKT_BURST \<or> Some a = shadow (descs s sock)")
    case True
    then show ?thesis
      using Cons.prems m by (subst release_batch.simps) (auto intro!: exI [of _ 0])
  next
    case False
    define t where "t = s \<lparr> mbufs := (mbufs s) (a := (mbufs s a) \<lparr> refcnt := 0, next_seg := None \<rparr>) \<rparr>"
    have a: "a \<notin> set as" using chain_distinct [OF Cons.prems(1)] by simp
    have same: "\<And>x. x \<noteq> a \<Longrightarrow> mbufs t x = mbufs s x" "descs t = descs s" by (simp_all add: t_def)
    have step: "release_batch sock m batch s = release_batch sock (next_seg (mbufs s a)) (batch @ [a]) t"
      using False m Cons.prems(2)
      by (subst release_batch.simps) (simp add: pktmbuf_prefree_seg_def upd_mbuf_def t_def Let_def)
    have cc: "chain (mbufs t) p xs = chain (mbufs s) p xs" if "a \<notin> set xs" for p xs
      by (rule chain_cong) (metis same(1) that)
    have rc: "\<forall>x \<in> set as. refcnt (mbufs t x) = 1" using Cons.prems(2) a same(1) by (metis list.set_intros(2))
    have "length (batch @ [a]) \<le> MAX_PKT_BURST" using False by simp
    from Cons.IH [OF _ rc this] obtain k m' where IH:
      "release_batch sock (next_seg (mbufs s a)) (batch @ [a]) t =
         Some (m', (batch @ [a]) @ take k as, t \<lparr> mbufs := freed (take k as) (mbufs t) \<rparr>)"
      "k \<le> length as" "\<forall>x \<in> set (take k as). Some x \<noteq> shadow (descs s sock)"
      "m' = None \<and> (k = length as \<or> Some (as ! k) = shadow (descs s sock)) \<or>
       k < length as \<and> length (batch @ [a]) + k = MAX_PKT_BURST \<and> chain (mbufs t) m' (drop k as)"
      using ch cc [OF a] same(2) by metis
    have "a \<notin> set (take k as)" "a \<notin> set (drop k as)" using a by (auto dest: in_set_takeD in_set_dropD)
    moreover from this(1) have "t \<lparr> mbufs := freed (take k as) (mbufs t) \<rparr> = s \<lparr> mbufs := freed (take (Suc k) (a # as)) (mbufs s) \<rparr>"
      by (simp add: t_def freed_Cons)
    ultimately show ?thesis
      using IH step cc [of "drop k as" m'] False m by (intro exI [of _ "Suc k"] exI [of _ m']) auto
  qed
qed

lemma freed_other [simp]: "a \<notin> set as \<Longrightarrow> freed as h a = h a"
  by (simp add: freed_def)

lemma takeWhile_take:
  assumes "\<forall>a \<in> set (take k as). P a"
  shows "takeWhile P as = take k as @ takeWhile P (drop k as)"
  using takeWhile_append2 [of "take k as" P "drop k as"] assms by simp

lemma light_release_rx_buffer_spec:
  assumes "chain (mbufs s) m as" "\<forall>a \<in> set as. refcnt (mbufs s a) = 1"
    and "as' = takeWhile (\<lambda>a. Some a \<noteq> shadow (descs s sock)) as"
  shows "light_release_rx_buffer m sock s =
    Some (s \<lparr> mbufs := freed as' (mbufs s), released := released s @ as' \<rparr>)"
  using assms
proof (induction "length as" arbitrary: m as as' s rule: less_induct)
  case less
  show ?case
  proof (cases as)
    case Nil
    then show ?thesis using less.prems by (subst light_release_rx_buffer.simps) simp
  next
    case (Cons a rest)
    let ?P = "\<lambda>a. Some a \<noteq> shadow (descs s sock)"
    obtain k m' where b: "release_batch sock m [] s = Some (m', take k as, s \<lparr> mbufs := freed (take k as) (mbufs s) \<rparr>)"
      "k \<le> length as" "\<forall>a \<in> set (take k as). ?P a"
      "m' = None \<and> (k = length as \<or> Some (as ! k) = shadow (descs s sock)) \<or>
       k < length as \<and> k = MAX_PKT_BURST \<and> chain (mbufs s) m' (drop k as)"
      using release_batch_spec [OF less.prems(1,2), of "[]" sock] by auto
    define t where "t = s \<lparr> mbufs := freed (take k as) (mbufs s), released := released s @ take k as \<rparr>"
    have step: "light_release_rx_buffer m sock s = light_release_rx_buffer m' sock t"
      using b(1) less.prems(1) Cons by (subst light_release_rx_buffer.simps) (simp add: t_def)
    note tw = takeWhile_take [OF b(3)]
    consider (stop) "m' = None" "k = length as \<or> Some (as ! k) = shadow (descs s sock)"
      | (more) "k < length as" "k = MAX_PKT_BURST" "chain (mbufs s) m' (drop k as)"
      using b(4) by blast
    then show ?thesis
    proof cases
      case stop
      then have "takeWhile ?P (drop k as) = []"
        using b(2) by (cases "k = length as") (auto simp: takeWhile_eq_Nil_iff hd_drop_conv_nth)
      then show ?thesis
        using step stop(1) tw less.prems(3) by (subst (asm) (2) light_release_rx_buffer.simps) (simp add: t_def)
    next
      case more
      have dj: "a \<notin> set (take k as)" if "a \<in> set (drop k as)" for a
        using chain_distinct [OF less.prems(1)] that set_take_disj_set_drop_if_distinct [of as k k] by auto
      have "chain (mbufs t) m' (drop k as)"
        using more(3) by (subst chain_cong [of _ _ "mbufs s"]) (auto simp: t_def dj)
      moreover have "\<forall>a \<in> set (drop k as). refcnt (mbufs t a) = 1"
        using less.prems(2) dj by (auto simp: t_def dest: in_set_dropD)
      moreover have "length (drop k as) < length as" using more(1,2) by (simp add: MAX_PKT_BURST_def)
      ultimately show ?thesis
        using less.hyps [of "drop k as" t m' "takeWhile ?P (drop k as)"] step tw less.prems(3)
        by (simp add: t_def freed_append)
    qed
  qed
qed

subsection \<open>Splitting\<close>

lemma clen_simps [simp]:
  "clen h [] = 0" "clen h (a # as) = data_len (h a) + clen h as" "clen h (as @ bs) = clen h as + clen h bs"
  by (simp_all add: clen_def)

lemma length_chain_bytes: "segs_ok h as \<Longrightarrow> length (chain_bytes h as) = clen h as"
  by (induction as) (auto simp: length_seg_bytes)

lemma live_segs_ok: "\<forall>a \<in> set as. live_seg (h a) \<Longrightarrow> segs_ok h as"
  by (auto simp: segs_ok_def live_seg_def)

lemma try_scan_short:
  "chain h p as \<Longrightarrow> cur + int (clen h as) < tot \<Longrightarrow>
   \<exists>q. try_scan h tot p prev cur = Some (None, q, cur + int (clen h as))"
proof (induction as arbitrary: p prev cur)
  case Nil
  then show ?case by (subst try_scan.simps) auto
next
  case (Cons a as)
  then show ?case
    using Cons.IH [of "next_seg (h a)" "cur + int (data_len (h a))" "Some a"]
    by (subst try_scan.simps) (auto simp: algebra_simps)
qed

lemma try_scan_found:
  "chain h p as \<Longrightarrow> cur < tot \<Longrightarrow> tot \<le> cur + int (clen h as) \<Longrightarrow>
   \<exists>pre t post q. as = pre @ t # post \<and> cur + int (clen h pre) < tot \<and>
     tot \<le> cur + int (clen h pre) + int (data_len (h t)) \<and>
     try_scan h tot p prev cur = Some (Some t, q, cur + int (clen h pre))"
proof (induction as arbitrary: p prev cur)
  case (Cons a as)
  show ?case
  proof (cases "int (data_len (h a)) + cur < tot")
    case True
    have "\<exists>pre t post q. as = pre @ t # post \<and> (cur + int (data_len (h a))) + int (clen h pre) < tot \<and>
       tot \<le> (cur + int (data_len (h a))) + int (clen h pre) + int (data_len (h t)) \<and>
       try_scan h tot (next_seg (h a)) (Some a) (cur + int (data_len (h a))) =
         Some (Some t, q, (cur + int (data_len (h a))) + int (clen h pre))"
      by (rule Cons.IH) (use Cons.prems True in auto)
    then obtain pre t post q where IH: "as = pre @ t # post" "(cur + int (data_len (h a))) + int (clen h pre) < tot"
       "tot \<le> (cur + int (data_len (h a))) + int (clen h pre) + int (data_len (h t))"
       "try_scan h tot (next_seg (h a)) (Some a) (cur + int (data_len (h a))) =
         Some (Some t, q, (cur + int (data_len (h a))) + int (clen h pre))" by blast
    moreover have "try_scan h tot p prev cur = try_scan h tot (next_seg (h a)) (Some a) (cur + int (data_len (h a)))"
      using True Cons.prems(1) by (subst try_scan.simps) (simp add: add.commute)
    ultimately show ?thesis
      by (intro exI [of _ "a # pre"] exI [of _ t] exI [of _ post] exI [of _ q]) auto
  next
    case False
    then show ?thesis
      using Cons.prems by (intro exI [of _ "[]"] exI [of _ a] exI [of _ as] exI [of _ prev])
        (auto simp: try_scan.simps)
  qed
qed simp

lemma try_read_short:
  "chain (mbufs s) (Some m) as \<Longrightarrow> int (clen (mbufs s) as) < tot \<Longrightarrow>
   light_try_read_exact_amount m sock tot s = Inr (int (clen (mbufs s) as), int (data_len (mbufs s m)), s)"
  using try_scan_short [of "mbufs s" "Some m" as 0 tot None]
  by (auto simp: light_try_read_exact_amount_def)

lemma try_read_split:
  assumes "chain (mbufs s) (Some m) as" "0 < tot" "tot \<le> int (clen (mbufs s) as)"
  shows "\<exists>pre t post del. as = pre @ t # post \<and> int (clen (mbufs s) pre + del) = tot \<and> 0 < del \<and>
     del \<le> data_len (mbufs s t) \<and>
     light_try_read_exact_amount m sock tot s =
       Inr (tot, int (data_len (mbufs s m)),
            s \<lparr> mbufs := split_heap (mbufs s) t del,
                descs := (descs s) (sock := split_desc (mbufs s) t del (descs s sock)) \<rparr>)"
proof -
  let ?h = "mbufs s"
  obtain pre t post q where f: "as = pre @ t # post" "int (clen ?h pre) < tot"
    "tot \<le> int (clen ?h pre) + int (data_len (?h t))"
    "try_scan ?h tot (Some m) None 0 = Some (Some t, q, int (clen ?h pre))"
    using try_scan_found [OF assms(1), of 0 tot None] assms by auto
  define del where "del = nat tot - clen ?h pre"
  have d: "int (clen ?h pre + del) = tot" "0 < del" "del \<le> data_len (?h t)"
    using f assms(2) by (auto simp: del_def)
  have "light_try_read_exact_amount m sock tot s =
       Inr (tot, int (data_len (?h m)),
            s \<lparr> mbufs := split_heap ?h t del,
                descs := (descs s) (sock := split_desc ?h t del (descs s sock)) \<rparr>)"
  proof (cases "del < data_len (?h t)")
    case True
    have tot: "tot = int (clen ?h pre) + int del" using d by simp
    show ?thesis
      using f(4) True d(2) by (simp add: tot light_try_read_exact_amount_def Let_def upd_mbuf_def upd_desc_def
          split_heap_def split_desc_def of_nat_diff)
  next
    case False
    then have eq: "del = data_len (?h t)" "\<not> int (clen ?h pre) + int (data_len (?h t)) > tot" using d by auto
    have upd: "(?h t) \<lparr> data_len := del, next_seg := None \<rparr> = (?h t) \<lparr> next_seg := None \<rparr>"
      using eq by simp
    show ?thesis
      using f eq(2) False upd
      by (simp add: light_try_read_exact_amount_def Let_def upd_mbuf_def upd_desc_def
          split_heap_def split_desc_def split: option.split)
  qed
  then show ?thesis using f(1) d by blast
qed

lemma taken_all:
  assumes "shadow (descs s i) = None" "chain (mbufs s) (Some m) as" "\<forall>a \<in> set as. live_seg (mbufs s a)"
    "clen (mbufs s) as \<le> tot"
  shows "taken s i m as tot s as []"
proof -
  have "min tot (clen (mbufs s) as) = clen (mbufs s) as" using assms(4) by simp
  moreover have "length (chain_bytes (mbufs s) as) = clen (mbufs s) as"
    using length_chain_bytes live_segs_ok assms(3) by blast
  moreover have tw: "takeWhile (\<lambda>a. True) as = as" by simp
  ultimately show ?thesis
    using assms by (simp add: tw taken_def Let_def shadow_ok_def shadow_bytes_def shadow_addrs_def)
qed

lemma split_heap_simps [simp]:
  "a \<noteq> t \<Longrightarrow> split_heap h t del a = h a" "buf (split_heap h t del a) = buf (h a)"
  "data_off (split_heap h t del a) = data_off (h a)" "refcnt (split_heap h t del a) = refcnt (h a)"
  "data_len (split_heap h t del t) = del" "next_seg (split_heap h t del t) = None"
  by (auto simp: split_heap_def)

lemma chain_split_heap:
  "chain h p (pre @ t # post) \<Longrightarrow> t \<notin> set pre \<Longrightarrow> chain (split_heap h t del) p (pre @ [t])"
  by (induction pre arbitrary: p) auto

lemma split_heap_bytes_other: "t \<notin> set as \<Longrightarrow> chain_bytes (split_heap h t del) as = chain_bytes h as"
  by (rule chain_bytes_cong) (metis split_heap_simps(1))

lemma seg_bytes_split:
  "del \<le> data_len (h t) \<Longrightarrow> seg_bytes (split_heap h t del t) = take del (seg_bytes (h t))"
  by (simp add: seg_bytes_def min_def)

lemma split_desc_same [simp]:
  "rx_ring (split_desc h t del d) = rx_ring d" "socket (split_desc h t del d) = socket d"
  by (simp_all add: split_desc_def split: option.split)

lemma split_desc_shadow:
  assumes "shadow d = None" "chain h (Some t) (t # post)"
  shows "shadow (split_desc h t del d) = (if del < data_len (h t) then Some t else next_seg (h t))"
    "shadow_addrs (split_desc h t del d) (if del < data_len (h t) then post else tl post) =
       (if del < data_len (h t) then t # post else post)"
  using assms by (cases post; auto simp: split_desc_def shadow_addrs_def)+

lemma split_shadow:
  assumes "shadow d = None" "chain h (Some t) (t # post)" "\<forall>a \<in> set (t # post). live_seg (h a)"
    "0 < del" "del \<le> data_len (h t)" "sh = (if del < data_len (h t) then post else tl post)"
  shows "shadow_ok (split_heap h t del) (split_desc h t del d) sh \<and>
     shadow_bytes (split_heap h t del) (split_desc h t del d) sh = drop del (seg_bytes (h t)) @ chain_bytes h post"
proof -
  let ?h = "split_heap h t del"
  have t: "t \<notin> set post" using chain_distinct [OF assms(2)] by simp
  have same: "?h a = h a" if "a \<in> set post" for a using t that by (metis split_heap_simps(1))
  have chp: "chain ?h p xs = chain h p xs" if "set xs \<subseteq> set post" for p xs
    by (rule chain_cong) (use same that in auto)
  have bp: "chain_bytes ?h xs = chain_bytes h xs" if "set xs \<subseteq> set post" for xs
    by (rule chain_bytes_cong) (use same that in auto)
  show ?thesis
  proof (cases "del < data_len (h t)")
    case True
    then show ?thesis
      using assms same chp bp by (auto simp: shadow_ok_def shadow_bytes_def split_desc_def live_seg_def seg_ok_def
          seg_bytes_def drop_take add.commute nat_diff_distrib')
  next
    case False
    then have del: "drop del (seg_bytes (h t)) = []" using assms(5) by (simp add: seg_bytes_def)
    show ?thesis
    proof (cases post)
      case Nil
      then show ?thesis using assms False del by (auto simp: shadow_ok_def shadow_bytes_def split_desc_def)
    next
      case (Cons n rest)
      then show ?thesis
        using assms False del same chp [of rest] bp [of rest]
        by (auto simp: shadow_ok_def shadow_bytes_def split_desc_def live_seg_def seg_ok_def seg_bytes_def)
    qed
  qed
qed

lemma taken_split:
  assumes sh: "shadow (descs s i) = None" and ch: "chain (mbufs s) (Some m) as"
    and live: "\<forall>a \<in> set as. live_seg (mbufs s a)" and as: "as = pre @ t # post"
    and del: "0 < del" "del \<le> data_len (mbufs s t)" and tot: "tot = clen (mbufs s) pre + del"
  shows "taken s i m as tot
     (s \<lparr> mbufs := split_heap (mbufs s) t del, descs := (descs s) (i := split_desc (mbufs s) t del (descs s i)) \<rparr>)
     (pre @ [t]) (if del < data_len (mbufs s t) then post else tl post)"
proof -
  let ?h = "mbufs s" and ?d = "descs s i"
  let ?h1 = "split_heap ?h t del" and ?d1 = "split_desc ?h t del ?d"
  let ?sh = "if del < data_len (?h t) then post else tl post"
  have dist: "t \<notin> set pre" "t \<notin> set post" "set pre \<inter> set post = {}" "distinct post"
    using chain_distinct [OF ch] as by auto
  have cht: "chain ?h (Some t) (t # post)" using ch as chain_suffix by blast
  have lens: "length (chain_bytes ?h pre) = clen ?h pre" "length (seg_bytes (?h t)) = data_len (?h t)"
    using live as live_segs_ok [of pre ?h] by (auto simp: length_chain_bytes length_seg_bytes live_seg_def)
  have mn: "min tot (clen ?h as) = tot" using tot del as by simp
  have B: "take tot (chain_bytes ?h as) = chain_bytes ?h1 (pre @ [t])"
    "drop tot (chain_bytes ?h as) = drop del (seg_bytes (?h t)) @ chain_bytes ?h post"
    using tot as lens del dist(1) by (simp_all add: split_heap_bytes_other seg_bytes_split)
  note shd = split_desc_shadow [OF sh cht, of del]
  have tw: "takeWhile (\<lambda>a. Some a \<noteq> shadow ?d1) (pre @ [t]) = (if del < data_len (?h t) then pre else pre @ [t])"
  proof (cases "del < data_len (?h t)")
    case True
    then show ?thesis using shd(1) dist(1) by (subst takeWhile_append2) auto
  next
    case False
    then have "\<forall>a \<in> set (pre @ [t]). Some a \<noteq> shadow ?d1"
      using shd(1) dist cht by (cases post) auto
    then show ?thesis using False by simp
  qed
  have sp: "shadow_ok ?h1 ?d1 ?sh" "shadow_bytes ?h1 ?d1 ?sh = drop tot (chain_bytes ?h as)"
    using split_shadow [OF sh cht _ del refl] live as B(2) by auto
  have lv: "\<forall>a \<in> set (pre @ [t]). live_seg (?h1 a)"
  proof
    fix a assume a: "a \<in> set (pre @ [t])"
    show "live_seg (?h1 a)"
      using a live as del by (cases "a = t") (auto simp: live_seg_def seg_ok_def)
  qed
  have first: "data_len (?h1 m) = data_len (?h m) \<or> pre @ [t] = [m] \<and> tot < data_len (?h m)"
  proof (cases pre)
    case Nil
    then have "t = m" using ch as by simp
    then show ?thesis using Nil del tot by (cases "del = data_len (?h t)") auto
  next
    case (Cons b bs)
    then have "m \<noteq> t" using ch as dist(1) by auto
    then show ?thesis by simp
  qed
  have chs: "chain ?h1 (Some m) (pre @ [t])" using chain_split_heap ch as dist(1) by blast
  show ?thesis
    unfolding taken_def Let_def mn
    using B(1) shd(2) tw sp lv first chs dist as by (auto simp: split: if_splits)
qed

lemma try_read_taken:
  assumes "shadow (descs s i) = None" "chain (mbufs s) (Some m) as" "\<forall>a \<in> set as. live_seg (mbufs s a)" "0 < tot"
  shows "\<exists>s1 as1 sh1. taken s i m as (nat tot) s1 as1 sh1 \<and>
     light_try_read_exact_amount m i tot s =
       Inr (int (min (nat tot) (clen (mbufs s) as)), int (data_len (mbufs s m)), s1)"
proof (cases "int (clen (mbufs s) as) < tot")
  case True
  then have "clen (mbufs s) as \<le> nat tot" "min (nat tot) (clen (mbufs s) as) = clen (mbufs s) as" by auto
  then show ?thesis
    using try_read_short [OF assms(2) True, of i] taken_all [OF assms(1-3), of "nat tot"] by auto
next
  case False
  then obtain pre t post del where p: "as = pre @ t # post" "int (clen (mbufs s) pre + del) = tot" "0 < del"
     "del \<le> data_len (mbufs s t)"
     "light_try_read_exact_amount m i tot s =
       Inr (tot, int (data_len (mbufs s m)),
            s \<lparr> mbufs := split_heap (mbufs s) t del,
                descs := (descs s) (i := split_desc (mbufs s) t del (descs s i)) \<rparr>)"
    using try_read_split [OF assms(2,4), of i] by auto
  have "nat tot = clen (mbufs s) pre + del" "int (min (nat tot) (clen (mbufs s) as)) = tot"
    using p(2) False assms(4) by auto
  then show ?thesis using taken_split [OF assms(1-3) p(1,3,4), of "nat tot"] p(5) by auto
qed

lemma post_command_unchecked_frame [simp]:
  fixes s :: "'z app_env_scheme"
  shows "descs (post_command_unchecked pr f s) = descs s" "socks (post_command_unchecked pr f s) = socks s"
    "mbufs (post_command_unchecked pr f s) = mbufs s" "released (post_command_unchecked pr f s) = released s"
    "fdt (post_command_unchecked pr f s) = fdt s" "tx_bufs_pool (post_command_unchecked pr f s) = tx_bufs_pool s"
  by (simp_all add: post_command_unchecked_def light_get_free_command_buf_by_proc_id_def
      light_enqueue_command_buf_by_proc_id_def write_cmd_def Let_def split: prod.split option.split)

lemma rte_pktmbuf_lastseg_chain: "chain h (Some m) (m # as) \<Longrightarrow> rte_pktmbuf_lastseg h m = Some (last (m # as))"
proof (induction as arbitrary: m)
  case Nil
  then show ?case by (subst rte_pktmbuf_lastseg.simps) simp
next
  case (Cons a as)
  then have "next_seg (h m) = Some a" "chain h (Some a) (a # as)" by auto
  with Cons.IH [OF this(2)] show ?case by (subst rte_pktmbuf_lastseg.simps) simp
qed

lemma get_from_shadow_some:
  assumes "shadow (descs s i) = Some m" "shadow_ok (mbufs s) (descs s i) sh" "m \<notin> set sh"
  obtains s1 where "light_get_from_shadow i s = (Some m, s1)" "shadow (descs s1 i) = None"
    "chain (mbufs s1) (Some m) (m # sh)" "\<forall>a \<in> set (m # sh). live_seg (mbufs s1 a)"
    "chain_bytes (mbufs s1) (m # sh) = shadow_bytes (mbufs s) (descs s i) sh"
    "data_len (mbufs s1 m) = nat (shadow_len_remainder (descs s i))"
    "\<forall>a. a \<noteq> m \<longrightarrow> mbufs s1 a = mbufs s a" "rx_ring (descs s1 i) = rx_ring (descs s i)"
    "socket (descs s1 i) = socket (descs s i)" "socks s1 = socks s" "released s1 = released s"
proof -
  let ?d = "descs s i"
  let ?b = "\<lambda>t. (mbufs s m) \<lparr> data_len := nat (shadow_len_remainder ?d),
     data_off := data_off (mbufs s m) + nat (shadow_len_delievered ?d), next_seg := shadow_next ?d, pkt_len := t \<rparr>"
  obtain t where g: "light_get_from_shadow i s =
      (Some m, s \<lparr> mbufs := (mbufs s) (m := ?b t), descs := (descs s) (i := ?d \<lparr> shadow := None, shadow_next := None \<rparr>) \<rparr>)"
    using assms(1) by (auto simp: light_get_from_shadow_def Let_def upd_mbuf_def upd_desc_def split: option.split)
  let ?h = "(mbufs s) (m := ?b t)"
  have c: "chain ?h p sh = chain (mbufs s) p sh" for p by (rule chain_cong) (use assms(3) in auto)
  have b: "chain_bytes ?h sh = chain_bytes (mbufs s) sh" by (rule chain_bytes_cong) (use assms(3) in auto)
  show ?thesis
    by (rule that [OF g]) (use assms c b in \<open>auto simp: shadow_ok_def shadow_bytes_def live_seg_def seg_ok_def seg_bytes_def\<close>)
qed

lemma rx_dequeue_Nil: "ring_ok (rx_ring (descs s i)) \<Longrightarrow> contents (rx_ring (descs s i)) = [] \<Longrightarrow> rx_dequeue i s = (None, s)"
  by (simp add: rx_dequeue_def rte_ring_dequeue_eq Let_def)

lemma rx_dequeue_Cons:
  assumes "ring_ok (rx_ring (descs s i))" "contents (rx_ring (descs s i)) = a # as"
  obtains rg where "rx_dequeue i s = (Some a, upd_desc i (rx_ring_update (\<lambda>_. rg)) s)" "ring_ok rg" "contents rg = as"
  using assms that [of "consumed (rx_ring (descs s i)) 1"]
  by (auto simp: rx_dequeue_def rte_ring_dequeue_eq Let_def contents_consumed ring_ok_consumed)

lemma shadow_cong:
  assumes "\<And>a. a \<in> set (shadow_addrs d sh) \<Longrightarrow> h' a = h a"
  shows "shadow_ok h' d sh = shadow_ok h d sh" "shadow_bytes h' d sh = shadow_bytes h d sh"
proof -
  have "chain h' p sh = chain h p sh \<and> chain_bytes h' sh = chain_bytes h sh" if "shadow d = Some m" for m p
    using assms that by (auto simp: shadow_addrs_def intro!: chain_cong chain_bytes_cong)
  then show "shadow_ok h' d sh = shadow_ok h d sh" "shadow_bytes h' d sh = shadow_bytes h d sh"
    using assms by (auto simp: shadow_ok_def shadow_bytes_def shadow_addrs_def split: option.splits)
qed

lemma rx_ok_queue:
  "rx_ok s i sh rcs \<longleftrightarrow> queue_ok s i rcs \<and> shadow_ok (mbufs s) (descs s i) sh \<and>
     distinct (shadow_addrs (descs s i) sh) \<and> set (shadow_addrs (descs s i) sh) \<inter> set (concat rcs) = {}"
  by (auto simp: rx_ok_def queue_ok_def)

lemma queue_ok_cong:
  assumes "queue_ok s i rcs" "rx_ring (descs s' i) = rx_ring (descs s i)"
    "\<And>a. a \<in> set (concat rcs) \<Longrightarrow> mbufs s' a = mbufs s a"
  shows "queue_ok s' i rcs" "chain_bytes (mbufs s') (concat rcs) = chain_bytes (mbufs s) (concat rcs)"
proof -
  have "mbufs s' a = mbufs s a" if "c \<in> set rcs" "a \<in> set c" for a c
    by (rule assms(3)) (use that in auto)
  then have "chain (mbufs s') p c = chain (mbufs s) p c" if "c \<in> set rcs" for p c
    by (intro chain_cong) (use that in auto)
  then show "queue_ok s' i rcs" using assms by (auto simp: queue_ok_def)
  show "chain_bytes (mbufs s') (concat rcs) = chain_bytes (mbufs s) (concat rcs)"
    by (rule chain_bytes_cong) (use assms(3) in auto)
qed

lemma taken_link:
  assumes as: "chain (mbufs s) (Some m) (m # as)" "\<forall>a \<in> set (m # as). live_seg (mbufs s a)"
    and tk: "taken s i (hd c) c (tot - clen (mbufs s) (m # as)) s1 as1 sh1"
    and dj: "set (m # as) \<inter> set c = {}" and less: "clen (mbufs s) (m # as) < tot"
  shows "taken s i m (m # as @ c) tot
     (upd_mbuf (last (m # as)) (\<lambda>b. b \<lparr> next_seg := Some (hd c) \<rparr>) s1) (m # as @ as1) sh1"
proof -
  let ?h = "mbufs s" and ?l = "last (m # as)" and ?B = "chain_bytes (mbufs s)"
  let ?k = "min (tot - clen ?h (m # as)) (clen ?h c)" and ?d1 = "descs s1 i"
  let ?s2 = "upd_mbuf ?l (\<lambda>b. b \<lparr> next_seg := Some (hd c) \<rparr>) s1"
  note e = tk [unfolded taken_def Let_def, THEN conjunct1]
  note t = tk [unfolded taken_def Let_def, THEN conjunct2]
  have lin: "?l \<in> set (m # as)" by simp
  have off: "mbufs s1 a = ?h a" if "a \<in> set (m # as)" for a using t dj that by blast
  have in_c: "set as1 \<subseteq> set c" "set (shadow_addrs ?d1 sh1) \<subseteq> set c" using t by auto
  have lnot: "?l \<notin> set c" using lin dj by blast
  have h2: "mbufs ?s2 a = mbufs s1 a" if "a \<in> set c" for a using that lnot by (auto simp: upd_mbuf_def)
  have len: "length (?B (m # as)) = clen ?h (m # as)" using length_chain_bytes live_segs_ok as(2) by blast
  have mn: "min tot (clen ?h (m # as @ c)) = clen ?h (m # as) + ?k" using less by simp
  have seg2: "seg_bytes (mbufs ?s2 a) = seg_bytes (mbufs s1 a)" "live_seg (mbufs ?s2 a) = live_seg (mbufs s1 a)"
    "data_len (mbufs ?s2 a) = data_len (mbufs s1 a)" "buf (mbufs ?s2 a) = buf (mbufs s1 a)"
    "data_off (mbufs ?s2 a) = data_off (mbufs s1 a)" for a
    by (simp_all add: upd_mbuf_def seg_bytes_def live_seg_def seg_ok_def)
  have bytes: "chain_bytes (mbufs ?s2) (m # as @ as1) = take (clen ?h (m # as) + ?k) (?B (m # as @ c))"
  proof -
    have "chain_bytes (mbufs ?s2) (m # as) = ?B (m # as)"
      by (rule chain_bytes_cong) (use seg2(1) off in auto)
    moreover have "chain_bytes (mbufs ?s2) as1 = chain_bytes (mbufs s1) as1"
      by (rule chain_bytes_cong) (use seg2(1) in auto)
    ultimately have "chain_bytes (mbufs ?s2) ((m # as) @ as1) = ?B (m # as) @ take ?k (?B c)"
      using t by (simp only: chain_bytes_simps(3))
    also have "\<dots> = take (clen ?h (m # as) + ?k) (?B ((m # as) @ c))"
      using len by (simp only: chain_bytes_simps(3) take_append) simp
    finally show ?thesis by simp
  qed
  have rest: "drop (clen ?h (m # as) + ?k) (?B (m # as @ c)) = drop ?k (?B c)"
    using len by (metis append_Cons chain_bytes_simps(3) add_diff_cancel_left' drop_append drop_all le_add1 append_Nil)
  have ch: "chain (mbufs ?s2) (Some m) (m # as @ as1)"
  proof -
    have "chain (mbufs s1) (Some m) (butlast (m # as) @ [?l])"
      using chain_cong [of "m # as" "mbufs s1" ?h] off as(1) by (metis append_butlast_last_id list.distinct(1))
    moreover have "chain (mbufs s1) (Some (hd c)) as1" "?l \<notin> set as1" using t in_c lnot by blast+
    moreover have "mbufs ?s2 = (mbufs s1) (?l := (mbufs s1 ?l) \<lparr> next_seg := Some (hd c) \<rparr>)"
      by (simp add: upd_mbuf_def)
    ultimately have "chain (mbufs ?s2) (Some m) (butlast (m # as) @ ?l # as1)"
      by (metis chain_append)
    then show ?thesis by (metis append.assoc append_Cons append_Nil append_butlast_last_id list.distinct(1))
  qed
  have tw: "takeWhile (\<lambda>a. Some a \<noteq> shadow ?d1) (m # as @ as1) = m # as @ takeWhile (\<lambda>a. Some a \<noteq> shadow ?d1) as1"
  proof -
    have "\<forall>a \<in> set (m # as). Some a \<noteq> shadow ?d1"
    proof (intro ballI notI)
      fix a assume a: "a \<in> set (m # as)" "Some a = shadow ?d1"
      then have "a \<in> set (shadow_addrs ?d1 sh1)" by (cases "shadow ?d1") (auto simp: shadow_addrs_def)
      then show False using in_c a(1) dj by auto
    qed
    then show ?thesis using takeWhile_append2 [of "m # as"] by simp
  qed
  have sc: "shadow_ok (mbufs ?s2) ?d1 sh1 = shadow_ok (mbufs s1) ?d1 sh1"
    "shadow_bytes (mbufs ?s2) ?d1 sh1 = shadow_bytes (mbufs s1) ?d1 sh1"
    by (rule shadow_cong; use h2 in_c in blast)+
  have lv: "\<forall>a \<in> set (m # as @ as1). live_seg (mbufs ?s2 a)"
    using seg2(2) off as(2) t by auto
  have d: "descs ?s2 = descs s1" by (simp add: upd_mbuf_def)
  have s2: "?s2 = s \<lparr> mbufs := mbufs ?s2, descs := (descs s) (i := ?d1) \<rparr>"
    by (subst (1) e) (simp add: upd_mbuf_def)
  let ?rel = "takeWhile (\<lambda>a. Some a \<noteq> shadow ?d1) as1"
  have out: "mbufs ?s2 a = ?h a" if "a \<notin> set (m # as @ c)" for a
  proof -
    have "a \<noteq> ?l" "a \<notin> set c" using that lin by auto
    then show ?thesis using t by (simp add: upd_mbuf_def)
  qed
  have sets: "set (m # as @ c) = set (m # as @ ?rel) \<union> set (shadow_addrs ?d1 sh1)"
    "set (m # as @ ?rel) \<inter> set (shadow_addrs ?d1 sh1) = {}" "set (m # as @ as1) \<subseteq> set (m # as @ c)"
    using t dj in_c by auto
  have first: "data_len (mbufs ?s2 m) = data_len (?h m)" using seg2(3) off by simp
  show ?thesis
    unfolding taken_def Let_def mn d tw bytes rest sc
    by (intro conjI s2 ch lv sets allI impI out disjI1 first refl) (use t seg2 in \<open>blast | simp\<close>)+
qed

text \<open>
  What is left of the call once the chain is taken: the copy writes the bytes, and the release
  gives back all delivered buffers but the shadow.
\<close>

lemma taken_copy:
  assumes tk: "taken s i m as tot s1 as1 sh1" and n: "n = min tot (clen (mbufs s) as)"
    and ok: "segs_ok (mbufs s) as" "m \<in> set as"
  shows "\<exists>w. copy_segments (mbufs s1) m (int (data_len (mbufs s m))) [] = Some w \<and>
     take n w = take n (chain_bytes (mbufs s) as) \<and>
     (data_len (mbufs s m) \<le> tot \<longrightarrow> w = take n (chain_bytes (mbufs s) as)) \<and>
     (tot < data_len (mbufs s m) \<longrightarrow> w = seg_bytes (mbufs s m))"
proof -
  note e = tk [unfolded taken_def Let_def, THEN conjunct1]
  note t = tk [unfolded taken_def Let_def, THEN conjunct2]
  have "chain (mbufs s1) (Some m) as1" using t by blast
  then obtain rest where as1: "as1 = m # rest" "chain (mbufs s1) (Some m) (m # rest)" by (cases as1) auto
  define w where "w = take (data_len (mbufs s m)) (drop (data_off (mbufs s1 m)) (buf (mbufs s1 m))) @ chain_bytes (mbufs s1) rest"
  have c: "copy_segments (mbufs s1) m (int (data_len (mbufs s m))) [] = Some w"
    using copy_segments_chain [OF as1(2)] by (simp add: w_def)
  have b: "chain_bytes (mbufs s1) as1 = take n (chain_bytes (mbufs s) as)" using t n by simp
  have "data_len (mbufs s1 m) = data_len (mbufs s m) \<or> as1 = [m] \<and> tot < data_len (mbufs s m)" using t by blast
  then show ?thesis
  proof
    assume eq: "data_len (mbufs s1 m) = data_len (mbufs s m)"
    then have w: "w = chain_bytes (mbufs s1) as1" by (simp add: w_def as1(1) seg_bytes_def)
    have "seg_ok (mbufs s1 m)" using t as1(1) by (auto simp: live_seg_def)
    then have "data_len (mbufs s m) \<le> length (chain_bytes (mbufs s1) as1)"
      using eq as1(1) by (simp add: length_seg_bytes)
    then have "data_len (mbufs s m) \<le> tot" using b n by simp
    then show ?thesis using b c w by simp
  next
    assume l: "as1 = [m] \<and> tot < data_len (mbufs s m)"
    then have w: "w = seg_bytes (mbufs s m)" using t as1(1) by (simp add: w_def seg_bytes_def)
    have s1m: "seg_ok (mbufs s1 m)" using t l by (auto simp: live_seg_def)
    have len: "length (chain_bytes (mbufs s) as) = clen (mbufs s) as" using length_chain_bytes ok(1) by blast
    have "data_len (mbufs s1 m) = length (chain_bytes (mbufs s1) as1)" using l s1m by (simp add: length_seg_bytes)
    also have "\<dots> = n" using b len n by simp
    finally have "seg_bytes (mbufs s1 m) = take n (drop (data_off (mbufs s m)) (buf (mbufs s m)))"
      using t by (simp add: seg_bytes_def)
    moreover have "n \<le> data_len (mbufs s m)" using l n by linarith
    ultimately have "take n w = chain_bytes (mbufs s1) as1"
      using l by (simp add: w seg_bytes_def min_def)
    then show ?thesis using c w b l by simp
  qed
qed

lemma taken_release:
  assumes tk: "taken s i m as tot s1 as1 sh1" and n: "n = min tot (clen (mbufs s) as)"
    and q: "queue_ok s i rcs" "set as \<inter> set (concat rcs) = {}" and live: "segs_ok (mbufs s) as"
  shows "\<exists>s2 rel. light_release_rx_buffer (Some m) i s1 = Some s2 \<and> rx_ok s2 i sh1 rcs \<and>
     rx_stream s2 i sh1 rcs = drop n (chain_bytes (mbufs s) as @ chain_bytes (mbufs s) (concat rcs)) \<and>
     released s2 = released s @ rel \<and> set as = set rel \<union> set (shadow_addrs (descs s2 i) sh1) \<and>
     set rel \<inter> set (shadow_addrs (descs s2 i) sh1) = {}"
proof -
  note e = tk [unfolded taken_def Let_def, THEN conjunct1]
  note t = tk [unfolded taken_def Let_def, THEN conjunct2]
  define rel where "rel = takeWhile (\<lambda>a. Some a \<noteq> shadow (descs s1 i)) as1"
  define s2 where "s2 = s1 \<lparr> mbufs := freed rel (mbufs s1), released := released s1 @ rel \<rparr>"
  have r: "light_release_rx_buffer (Some m) i s1 = Some s2"
    unfolding s2_def by (rule light_release_rx_buffer_spec [of _ _ as1]) (use t in \<open>auto simp: live_seg_def rel_def\<close>)
  have d: "descs s2 = descs s1" by (simp add: s2_def)
  have rel: "set as = set rel \<union> set (shadow_addrs (descs s1 i) sh1)" "set rel \<inter> set (shadow_addrs (descs s1 i) sh1) = {}"
    using t by (simp_all add: rel_def)
  have other: "mbufs s2 a = mbufs s a" if "a \<in> set (concat rcs)" for a
  proof -
    have "a \<notin> set as" using q(2) that by blast
    then show ?thesis using rel(1) t by (simp add: s2_def)
  qed
  have sh: "shadow_ok (mbufs s2) (descs s1 i) sh1 = shadow_ok (mbufs s1) (descs s1 i) sh1"
    "shadow_bytes (mbufs s2) (descs s1 i) sh1 = shadow_bytes (mbufs s1) (descs s1 i) sh1"
    by (rule shadow_cong; use rel(2) in \<open>auto simp: s2_def freed_def\<close>)+
  have rx: "rx_ring (descs s2 i) = rx_ring (descs s i)" using t d by simp
  note qc = queue_ok_cong [OF q(1) rx other]
  have "rx_ok s2 i sh1 rcs" unfolding rx_ok_queue using qc t sh d rel q(2) by auto
  moreover have "n \<le> length (chain_bytes (mbufs s) as)" using n length_chain_bytes [OF live] by simp
  then have "rx_stream s2 i sh1 rcs = drop n (chain_bytes (mbufs s) as @ chain_bytes (mbufs s) (concat rcs))"
    using qc(2) t sh(2) d n by (simp add: rx_stream_def)
  moreover have "released s1 = released s" by (subst e) simp
  then have "released s2 = released s @ rel" by (simp add: s2_def)
  ultimately show ?thesis using r rel d by auto
qed

lemma rx_must_wait_ready:
  "ring_ok (rx_ring (descs s i)) \<Longrightarrow> contents (rx_ring (descs s i)) \<noteq> [] \<Longrightarrow> rx_must_wait i s = Inr False"
  by (simp add: rx_must_wait_def rte_ring_empty_eq ring_ok_def)

lemma dequeue_ready:
  assumes "ring_ok (rx_ring (descs s i))" "contents (rx_ring (descs s i)) \<noteq> []"
  shows "light_dequeue_rx_buf_nonblock_by_proc_id i pr s = Inr (rx_dequeue i (post_command_unchecked pr (rx_kick i) s))"
    "light_dequeue_rx_buf_by_proc_id i pr env s = Inr (rx_dequeue i (post_command_unchecked pr (rx_kick i) s))"
proof -
  let ?s = "post_command_unchecked pr (rx_kick i) s"
  have w: "rx_must_wait i ?s = Inr False" by (rule rx_must_wait_ready) (use assms in simp_all)
  show "light_dequeue_rx_buf_nonblock_by_proc_id i pr s = Inr (rx_dequeue i ?s)"
    using w by (simp add: light_dequeue_rx_buf_nonblock_by_proc_id_def Let_def)
  show "light_dequeue_rx_buf_by_proc_id i pr env s = Inr (rx_dequeue i ?s)"
    using w by (simp add: light_dequeue_rx_buf_by_proc_id_def Let_def rx_spin.simps loop_res_def)
qed

lemma dequeue_empty:
  assumes "ring_ok (rx_ring (descs s i))" "contents (rx_ring (descs s i)) = []" "sock_of s i = Inr sk"
  shows "light_dequeue_rx_buf_nonblock_by_proc_id i pr s = Inr (None, post_command_unchecked pr (rx_kick i) s)"
proof -
  let ?s = "post_command_unchecked pr (rx_kick i) s"
  have "sock_of ?s i = Inr sk" using assms(3) by (simp add: sock_of_def split: option.splits)
  moreover have "rx_dequeue i ?s = (None, ?s)" by (rule rx_dequeue_Nil) (use assms in simp_all)
  ultimately show ?thesis
    using assms by (simp add: light_dequeue_rx_buf_nonblock_by_proc_id_def Let_def rx_must_wait_def rte_ring_empty_eq ring_ok_def)
qed

text \<open>One ready chain is dequeued by either variant, whatever the rest of the state.\<close>

lemma dequeue_chain:
  assumes "queue_ok s i (c # cs)"
  obtains s1 where "light_dequeue_rx_buf_nonblock_by_proc_id i pr s = Inr (Some (hd c), s1)"
    "light_dequeue_rx_buf_by_proc_id i pr env s = Inr (Some (hd c), s1)"
    "queue_ok s1 i cs" "mbufs s1 = mbufs s" "released s1 = released s" "shadow (descs s1 i) = shadow (descs s i)"
    "sock_of s1 i = sock_of s i"
proof -
  let ?s = "post_command_unchecked pr (rx_kick i) s"
  have ok: "ring_ok (rx_ring (descs s i))" "contents (rx_ring (descs s i)) = hd c # map hd cs"
    using assms by (simp_all add: queue_ok_def)
  have ok': "ring_ok (rx_ring (descs ?s i))" "contents (rx_ring (descs ?s i)) = hd c # map hd cs" using ok by simp_all
  then obtain rg where d: "rx_dequeue i ?s = (Some (hd c), upd_desc i (rx_ring_update (\<lambda>_. rg)) ?s)" "ring_ok rg" "contents rg = map hd cs"
    by (rule rx_dequeue_Cons)
  have q: "queue_ok (upd_desc i (rx_ring_update (\<lambda>_. rg)) ?s) i cs"
    using assms d by (auto simp: queue_ok_def upd_desc_def)
  show ?thesis
    by (rule that [OF _ _ q]) (use dequeue_ready [OF ok(1)] ok(2) d in \<open>simp_all add: upd_desc_def sock_of_def split: option.split\<close>)
qed

lemma receivedI:
  assumes "z = Inr (r, s1)" "rx_ret r = 0" "rx_desc r = Some m" "taken s0 i m as tot s1 as1 sh1"
    "rx_total r = int (min tot (clen (mbufs s0) as))" "rx_first r = int (data_len (mbufs s0 m))"
    "data_len (mbufs s0 m) = head_len s i rcs" "m \<in> set as" "queue_ok s0 i rcs1" "set as \<inter> set (concat rcs1) = {}"
    "\<forall>a \<in> set as. live_seg (mbufs s0 a)"
    "chain_bytes (mbufs s0) as @ chain_bytes (mbufs s0) (concat rcs1) = rx_stream s i sh rcs"
    "released s0 = released s" "set as \<union> set (concat rcs1) = set (shadow_addrs (descs s i) sh) \<union> set (concat rcs)"
  shows "received s i sh rcs tot z"
  unfolding received_def using assms by blast

lemma received_ring:
  assumes "rx_ok s i sh (c # cs)" "shadow (descs s i) = None" "0 < tot"
  shows "received s i sh (c # cs) (nat tot) (light_receive_buffer_chain_by_proc_id i tot nb pr env s)"
proof -
  have q: "queue_ok s i (c # cs)" using assms(1) by (simp add: rx_ok_queue)
  have sh: "sh = []" using assms(1,2) by (simp add: rx_ok_def shadow_ok_def)
  obtain s1 where d: "light_dequeue_rx_buf_nonblock_by_proc_id i pr s = Inr (Some (hd c), s1)"
    "light_dequeue_rx_buf_by_proc_id i pr env s = Inr (Some (hd c), s1)"
    "queue_ok s1 i cs" "mbufs s1 = mbufs s" "released s1 = released s" "shadow (descs s1 i) = None"
    using dequeue_chain [OF q] assms(2) by metis
  have c: "chain (mbufs s1) (Some (hd c)) c" "\<forall>a \<in> set c. live_seg (mbufs s1 a)" "hd c \<in> set c" "set c \<inter> set (concat cs) = {}"
    using q d(4) by (auto simp: queue_ok_def)
  obtain s2 as1 sh1 where t: "taken s1 i (hd c) c (nat tot) s2 as1 sh1"
     "light_try_read_exact_amount (hd c) i tot s1 =
       Inr (int (min (nat tot) (clen (mbufs s1) c)), int (data_len (mbufs s1 (hd c))), s2)"
    using try_read_taken [OF d(6) c(1,2) assms(3)] by blast
  have res: "light_receive_buffer_chain_by_proc_id i tot nb pr env s =
      Inr (\<lparr> rx_ret = 0, rx_total = int (min (nat tot) (clen (mbufs s1) c)),
             rx_first = int (data_len (mbufs s1 (hd c))), rx_desc = Some (hd c) \<rparr>, s2)"
    using d(1,2) t(2) assms(2,3)
    by (simp add: light_receive_buffer_chain_by_proc_id_def light_get_from_shadow_def Let_def receive_ring_def)
  show ?thesis
    by (rule receivedI [OF res _ _ t(1) _ _ _ c(3) d(3) c(4,2)])
      (use d(4,5) assms(2) sh in \<open>simp_all add: rx_stream_def shadow_bytes_def head_len_def shadow_addrs_def\<close>)
qed

lemma received_shadow:
  assumes ok: "rx_ok s i sh rcs" and sm: "shadow (descs s i) = Some m" and tot: "0 < tot" and sk: "sock_of s i = Inr sk"
  shows "received s i sh rcs (nat tot) (light_receive_buffer_chain_by_proc_id i tot nb pr env s)"
proof -
  have so: "shadow_ok (mbufs s) (descs s i) sh" and q: "queue_ok s i rcs"
    and dj: "m \<notin> set sh" "set (m # sh) \<inter> set (concat rcs) = {}"
    using ok sm by (auto simp: rx_ok_queue shadow_addrs_def)
  obtain s1 where g: "light_get_from_shadow i s = (Some m, s1)" "shadow (descs s1 i) = None"
    "chain (mbufs s1) (Some m) (m # sh)" "\<forall>a \<in> set (m # sh). live_seg (mbufs s1 a)"
    "chain_bytes (mbufs s1) (m # sh) = shadow_bytes (mbufs s) (descs s i) sh"
    "data_len (mbufs s1 m) = nat (shadow_len_remainder (descs s i))"
    "\<forall>a. a \<noteq> m \<longrightarrow> mbufs s1 a = mbufs s a" "rx_ring (descs s1 i) = rx_ring (descs s i)"
    "socket (descs s1 i) = socket (descs s i)" "socks s1 = socks s" "released s1 = released s"
    by (rule get_from_shadow_some [OF sm so dj(1)])
  have q1: "queue_ok s1 i rcs" "chain_bytes (mbufs s1) (concat rcs) = chain_bytes (mbufs s) (concat rcs)"
    by (rule queue_ok_cong [OF q g(8)]; use g(7) dj(2) in \<open>metis disjoint_iff list.set_intros(1)\<close>)+
  have sk1: "sock_of s1 i = Inr sk" using sk g(9,10) by (simp add: sock_of_def split: option.splits)
  have hl: "data_len (mbufs s1 m) = head_len s i rcs" using g(6) sm by (simp add: head_len_def)
  have strm: "chain_bytes (mbufs s1) (m # sh) @ chain_bytes (mbufs s1) (concat rcs) = rx_stream s i sh rcs"
    using g(5) q1(2) by (simp only: rx_stream_def)
  have sad: "shadow_addrs (descs s i) sh = m # sh" using sm by (simp add: shadow_addrs_def)
  obtain s2 as1 sh1 where t: "taken s1 i m (m # sh) (nat tot) s2 as1 sh1"
     "light_try_read_exact_amount m i tot s1 =
       Inr (int (min (nat tot) (clen (mbufs s1) (m # sh))), int (data_len (mbufs s1 m)), s2)"
    using try_read_taken [OF g(2,3,4) tot] by blast
  let ?n = "clen (mbufs s1) (m # sh)"
  have pos: "0 < ?n" using g(4) by (simp add: live_seg_def)
  show ?thesis
  proof (cases "nat tot \<le> ?n")
    case True
    then have res: "light_receive_buffer_chain_by_proc_id i tot nb pr env s =
      Inr (\<lparr> rx_ret = 0, rx_total = tot, rx_first = int (data_len (mbufs s1 m)), rx_desc = Some m \<rparr>, s2)"
      using g(1) t(2) tot by (simp add: light_receive_buffer_chain_by_proc_id_def receive_shadow_def min_def)
    show ?thesis
      by (rule receivedI [OF res _ _ t(1) _ _ hl _ q1(1) dj(2) g(4) strm g(11)]) (use sad True tot in \<open>simp_all add: min_def\<close>)
  next
    case False
    then have short: "light_try_read_exact_amount m i tot s1 = Inr (int ?n, int (data_len (mbufs s1 m)), s1)"
      using try_read_short [OF g(3), of tot i] by simp
    have lt: "int ?n < tot" using False by linarith
    have call: "light_receive_buffer_chain_by_proc_id i tot nb pr env s =
      cbind (light_dequeue_rx_buf_nonblock_by_proc_id i pr s1) (\<lambda>(m2, s2).
          case m2 of
            None \<Rightarrow> Inr (\<lparr> rx_ret = 0, rx_total = int ?n, rx_first = int (data_len (mbufs s1 m)), rx_desc = Some m \<rparr>, s2)
          | Some mbuf2 \<Rightarrow>
              cbind (light_try_read_exact_amount mbuf2 i (tot - int ?n) s2) (\<lambda>(total3, _, s3).
              cbind (loop_res (rte_pktmbuf_lastseg (mbufs s3) m)) (\<lambda>l.
                Inr (\<lparr> rx_ret = 0, rx_total = int ?n + total3, rx_first = int (data_len (mbufs s1 m)), rx_desc = Some m \<rparr>,
                     upd_mbuf l (\<lambda>b. b \<lparr> next_seg := Some mbuf2 \<rparr>) s3))))"
      using g(1) short tot False pos lt by (simp add: light_receive_buffer_chain_by_proc_id_def receive_shadow_def del: clen_simps)
    show ?thesis
    proof (cases rcs)
      case Nil
      let ?s2 = "post_command_unchecked pr (rx_kick i) s1"
      have res: "light_receive_buffer_chain_by_proc_id i tot nb pr env s =
        Inr (\<lparr> rx_ret = 0, rx_total = int ?n, rx_first = int (data_len (mbufs s1 m)), rx_desc = Some m \<rparr>, ?s2)"
        using call dequeue_empty [of s1 i sk pr] q1(1) sk1 Nil by (simp add: queue_ok_def del: clen_simps)
      have ta: "taken ?s2 i m (m # sh) (nat tot) ?s2 (m # sh) []"
        by (rule taken_all) (use g(2,3,4) False in simp_all)
      have q0: "queue_ok ?s2 i []" using q1(1) Nil by (simp add: queue_ok_def)
      show ?thesis
        by (rule receivedI [OF res _ _ ta _ _ _ _ q0]) (use g(4,11) hl strm sad False Nil in \<open>simp_all add: min_def\<close>)
    next
      case (Cons c cs)
      obtain s2 where d: "light_dequeue_rx_buf_nonblock_by_proc_id i pr s1 = Inr (Some (hd c), s2)"
        "queue_ok s2 i cs" "mbufs s2 = mbufs s1" "released s2 = released s1" "shadow (descs s2 i) = None"
        using dequeue_chain [of s1 i c cs pr env] q1(1) Cons g(2) by metis
      have c: "chain (mbufs s2) (Some (hd c)) c" "\<forall>a \<in> set c. live_seg (mbufs s2 a)" "set c \<inter> set (concat cs) = {}"
        "set (m # sh) \<inter> set c = {}"
        using q1(1) d(3) Cons dj(2) by (auto simp: queue_ok_def)
      have pos2: "0 < tot - int ?n" using False by simp
      obtain s3 as2 sh2 where u: "taken s2 i (hd c) c (nat (tot - int ?n)) s3 as2 sh2"
         "light_try_read_exact_amount (hd c) i (tot - int ?n) s2 =
           Inr (int (min (nat (tot - int ?n)) (clen (mbufs s2) c)), int (data_len (mbufs s2 (hd c))), s3)"
        using try_read_taken [OF d(5) c(1,2) pos2] by blast
      have off: "mbufs s3 a = mbufs s1 a" if "a \<in> set (m # sh)" for a
        using u(1) c(4) that d(3) unfolding taken_def Let_def by (metis disjoint_iff)
      have "chain (mbufs s3) (Some m) (m # sh)"
        using g(3) chain_cong [of "m # sh" "mbufs s3" "mbufs s1"] off by metis
      note last = rte_pktmbuf_lastseg_chain [OF this]
      let ?s4 = "upd_mbuf (last (m # sh)) (\<lambda>b. b \<lparr> next_seg := Some (hd c) \<rparr>) s3"
      have e: "nat (tot - int ?n) = nat tot - clen (mbufs s2) (m # sh)" using d(3) by simp
      have tl: "taken s2 i m (m # sh @ c) (nat tot) ?s4 (m # sh @ as2) sh2"
        by (rule taken_link) (use g(3,4) d(3) u(1) e c(4) False in auto)
      let ?r = "\<lparr> rx_ret = 0, rx_total = int ?n + int (min (nat (tot - int ?n)) (clen (mbufs s2) c)),
                    rx_first = int (data_len (mbufs s1 m)), rx_desc = Some m \<rparr>"
      have res: "light_receive_buffer_chain_by_proc_id i tot nb pr env s = Inr (?r, ?s4)"
        unfolding call using d(1) u(2) last by (simp add: loop_res_def del: clen_simps)
      have tt: "rx_total ?r = int (min (nat tot) (clen (mbufs s2) (m # sh @ c)))"
        using d(3) False by simp
      have djc: "set (m # sh @ c) \<inter> set (concat cs) = {}" "set (m # sh @ c) \<union> set (concat cs) = set (m # sh) \<union> set (concat rcs)"
        using c(3) dj(2) Cons by auto
      have live: "\<forall>a \<in> set (m # sh @ c). live_seg (mbufs s2 a)" using g(4) c(2) d(3) by auto
      show ?thesis
        by (rule receivedI [OF res _ _ tl tt _ _ _ d(2) djc(1) live])
          (use d(3,4) g(11) hl strm sad Cons djc(2) in \<open>simp_all del: set_concat\<close>)
    qed
  qed
qed

lemma received_ready:
  assumes "rx_ok s i sh rcs" "rx_ready s i rcs" "0 < tot" "sock_of s i = Inr sk"
  shows "received s i sh rcs (nat tot) (light_receive_buffer_chain_by_proc_id i tot nb pr env s)"
  using assms received_ring received_shadow by (cases "shadow (descs s i)"; cases rcs) (auto simp: rx_ready_def)

lemma light_recv_sock_ready:
  assumes "rx_ok s i sh rcs" "rx_ready s i rcs" "0 < nbytes" "sock_of s i = Inr sk"
  shows "\<exists>r s' sh' rcs' rel. light_recv_sock i nbytes nb pr env s = Inr (r, s') \<and>
    0 < recv_ret r \<and> recv_ret r \<le> nbytes \<and> nat (recv_ret r) \<le> length (rx_stream s i sh rcs) \<and>
    take (nat (recv_ret r)) (recv_written r) = take (nat (recv_ret r)) (rx_stream s i sh rcs) \<and>
    (if head_len s i rcs \<le> nat nbytes then recv_written r = take (nat (recv_ret r)) (rx_stream s i sh rcs)
     else length (recv_written r) = head_len s i rcs) \<and>
    rx_ok s' i sh' rcs' \<and> rx_stream s' i sh' rcs' = drop (nat (recv_ret r)) (rx_stream s i sh rcs) \<and>
    released s' = released s @ rel \<and>
    set (shadow_addrs (descs s i) sh @ concat rcs) = set rel \<union> set (shadow_addrs (descs s' i) sh' @ concat rcs') \<and>
    set rel \<inter> set (shadow_addrs (descs s' i) sh' @ concat rcs') = {}"
proof -
  obtain r s0 m as s1 as1 sh1 rcs1 where v: "light_receive_buffer_chain_by_proc_id i nbytes nb pr env s = Inr (r, s1)"
    "rx_ret r = 0" "rx_desc r = Some m" "rx_total r = int (min (nat nbytes) (clen (mbufs s0) as))"
    "rx_first r = int (data_len (mbufs s0 m))" "data_len (mbufs s0 m) = head_len s i rcs"
    "taken s0 i m as (nat nbytes) s1 as1 sh1" "m \<in> set as" "queue_ok s0 i rcs1" "set as \<inter> set (concat rcs1) = {}"
    "\<forall>a \<in> set as. live_seg (mbufs s0 a)"
    "chain_bytes (mbufs s0) as @ chain_bytes (mbufs s0) (concat rcs1) = rx_stream s i sh rcs"
    "released s0 = released s"
    "set as \<union> set (concat rcs1) = set (shadow_addrs (descs s i) sh) \<union> set (concat rcs)"
    using received_ready [OF assms, of nb pr env] unfolding received_def by (elim exE conjE) (rule that)
  define n where "n = min (nat nbytes) (clen (mbufs s0) as)"
  have so: "segs_ok (mbufs s0) as" by (rule live_segs_ok) (rule v(11))
  have lenB: "length (chain_bytes (mbufs s0) as) = clen (mbufs s0) as" by (rule length_chain_bytes [OF so])
  have "data_len (mbufs s0 m) \<le> clen (mbufs s0) as"
    using v(8) by (auto simp: clen_def intro!: member_le_sum_list)
  then have n0: "0 < n" using v(8,11) assms(3) by (auto simp: n_def live_seg_def)
  have nB: "n \<le> length (chain_bytes (mbufs s0) as)" using lenB by (simp add: n_def)
  have tk: "take n (chain_bytes (mbufs s0) as) = take n (rx_stream s i sh rcs)" using nB by (simp flip: v(12))
  obtain w where w: "copy_segments (mbufs s1) m (int (data_len (mbufs s0 m))) [] = Some w"
    "take n w = take n (chain_bytes (mbufs s0) as)"
    "data_len (mbufs s0 m) \<le> nat nbytes \<longrightarrow> w = take n (chain_bytes (mbufs s0) as)"
    "nat nbytes < data_len (mbufs s0 m) \<longrightarrow> w = seg_bytes (mbufs s0 m)"
    using taken_copy [OF v(7) n_def so v(8)] by blast
  obtain s2 rel where r: "light_release_rx_buffer (Some m) i s1 = Some s2" "rx_ok s2 i sh1 rcs1"
    "rx_stream s2 i sh1 rcs1 = drop n (rx_stream s i sh rcs)" "released s2 = released s0 @ rel"
    "set as = set rel \<union> set (shadow_addrs (descs s2 i) sh1)" "set rel \<inter> set (shadow_addrs (descs s2 i) sh1) = {}"
    using taken_release [OF v(7) n_def v(9,10) so] v(12) by auto
  have res: "light_recv_sock i nbytes nb pr env s = Inr (\<lparr> recv_ret = int n, recv_written = w, recv_eagain = False \<rparr>, s2)"
    using v(1-5) w(1) r(1) n0 by (simp add: light_recv_sock_def n_def loop_res_def)
  have len: "length w = head_len s i rcs" if "\<not> head_len s i rcs \<le> nat nbytes"
    using w(4) that v(6,8) so by (auto simp: segs_ok_def length_seg_bytes)
  have ns: "n \<le> length (rx_stream s i sh rcs)" using nB by (simp flip: v(12))
  show ?thesis
    by (rule exI [of _ "\<lparr> recv_ret = int n, recv_written = w, recv_eagain = False \<rparr>"], rule exI [of _ s2], rule exI [of _ sh1],
        rule exI [of _ rcs1], rule exI [of _ rel])
      (use res n0 ns w(2,3) tk v(6,13,14,10) r len assms(3) in \<open>auto simp: n_def\<close>)
qed

lemma light_recv_sock_empty:
  assumes "rx_ok s i sh []" "\<not> rx_ready s i []" "sock_of s i = Inr sk"
  shows "light_recv_sock i nbytes True pr env s =
    Inr (if connect_close_signal sk < 3
         then \<lparr> recv_ret = - 1, recv_written = [], recv_eagain = True \<rparr>
         else \<lparr> recv_ret = 0, recv_written = [], recv_eagain = False \<rparr>, post_command_unchecked pr (rx_kick i) s)"
proof -
  let ?s = "post_command_unchecked pr (rx_kick i) s"
  have r: "ring_ok (rx_ring (descs s i))" "contents (rx_ring (descs s i)) = []" using assms(1) by (simp_all add: rx_ok_def)
  have "rte_ring_empty (rx_ring (descs ?s i))" using r by (simp add: rte_ring_empty_eq ring_ok_def)
  moreover have "sock_of ?s i = Inr sk" using assms(3) by (simp add: sock_of_def split: option.splits)
  ultimately show ?thesis
    using dequeue_empty [OF r assms(3)] assms(2)
    by (simp add: light_recv_sock_def light_receive_buffer_chain_by_proc_id_def light_get_from_shadow_def
        rx_ready_def receive_ring_def not_less)
qed

lemma light_recv_eq:
  assumes "light_fd_to_socket_epoll_index (fdt s) fd = Inr (int idx, ty)" "sock_of s idx = Inr sk0"
    "aget (multicore_socket_copies sk0) (int (proc_id (descs s idx))) = Inr (int i)" "sock_of s i = Inr sk"
  shows "light_recv fd nbytes env s = light_recv_sock i nbytes (is_nonblock sk \<noteq> 0) (proc_id (descs s idx)) env s"
  using assms by (simp add: light_recv_def Let_def)

lemma demo_rx_ok: "rx_ok (demo_app [10] sig) 3 [] [[10, 11]]" "rx_ready (demo_app [10] sig) 3 [[10, 11]]"
  "sock_of (demo_app rx sig) 3 = Inr (demo_sock sig)" "rx_ok (demo_app [] sig) 3 [] []" "\<not> rx_ready (demo_app [] sig) 3 []"
  using ring_of_ok [of 3 "[10]" "0 :: addr"] ring_of_ok [of 3 "[]" "0 :: addr"]
  by (simp_all add: rx_ok_def rx_ready_def sock_of_def shadow_ok_def shadow_addrs_def live_seg_def seg_ok_def demo_mbuf_def)

lemma demo_rx_stream: "rx_stream (demo_app [10] sig) 3 [] [[10, 11]] = [1, 2, 3, 4, 5]"
  "head_len (demo_app [10] sig) 3 [[10, 11]] = 3"
  by (simp_all add: rx_stream_def shadow_bytes_def seg_bytes_def demo_mbuf_def head_len_def)

lemma demo_target:
  "light_fd_to_socket_epoll_index (fdt (demo_app rx sig)) 0 = Inr (int 3, LIGHT_SOCKET_INDEX)"
  "aget (multicore_socket_copies (demo_sock sig)) (int (proc_id (descs (demo_app rx sig) 3))) = Inr (int 3)"
  by (simp_all add: light_fd_to_socket_epoll_index_def aget_def LIGHT_CONNECTION_POOL_SIZE_def)

lemma rx_spin_polled:
  assumes "\<forall>j < k. rx_must_wait i (polled env s j) = Inr True" "rx_must_wait i (polled env s k) = Inr False"
  shows "rx_spin i env 0 s = Some (Inr (polled env s k))"
proof -
  have "rx_spin i env (k - d) (polled env s (k - d)) = Some (Inr (polled env s k))" if "d \<le> k" for d
    using that
  proof (induction d)
    case 0
    then show ?case using assms(2) by (subst rx_spin.simps) simp
  next
    case (Suc d)
    then have "rx_must_wait i (polled env s (k - Suc d)) = Inr True" "Suc (k - Suc d) = k - d"
      using assms(1) by auto
    then show ?case
      using Suc.IH Suc.prems polled.simps(2) [of env s "k - Suc d"]
      by (subst rx_spin.simps) simp
  qed
  from this [of k] show ?thesis by simp
qed

section \<open>Properties\<close>

text \<open>C5. \<open>light_recv\<close> delivers the waiting byte stream in order.  With data waiting on the socket of
  a descriptor and a positive request the call returns, blocking or not; its result lies between
  1 and the request, the bytes it reports are the next bytes of the stream, and what waits
  afterwards is exactly the rest of the stream, in a well-formed state.\<close>

theorem light_recv_stream:
  assumes "light_fd_to_socket_epoll_index (fdt s) fd = Inr (int idx, ty)" "sock_of s idx = Inr sk0"
    "aget (multicore_socket_copies sk0) (int (proc_id (descs s idx))) = Inr (int i)" "sock_of s i = Inr sk"
    "rx_ok s i sh rcs" "rx_ready s i rcs" "0 < nbytes"
  shows "\<exists>r s' sh' rcs'. light_recv fd nbytes env s = Inr (r, s') \<and> 0 < recv_ret r \<and> recv_ret r \<le> nbytes \<and>
    take (nat (recv_ret r)) (recv_written r) = take (nat (recv_ret r)) (rx_stream s i sh rcs) \<and>
    nat (recv_ret r) \<le> length (rx_stream s i sh rcs) \<and>
    rx_stream s' i sh' rcs' = drop (nat (recv_ret r)) (rx_stream s i sh rcs) \<and> rx_ok s' i sh' rcs'"
  unfolding light_recv_eq [OF assms(1-4)]
  using light_recv_sock_ready [OF assms(5-7,4), of "is_nonblock sk \<noteq> 0" "proc_id (descs s idx)" env] by blast

theorem light_recv_stream_witness:
  "\<exists>r s' sh' rcs'. light_recv 0 4 (\<lambda>_ s. s) (demo_app [10] 0) = Inr (r, s') \<and> 0 < recv_ret r \<and> recv_ret r \<le> 4 \<and>
    take (nat (recv_ret r)) (recv_written r) = take (nat (recv_ret r)) [1, 2, 3, 4, 5] \<and>
    nat (recv_ret r) \<le> length [1 :: u8, 2, 3, 4, 5] \<and>
    rx_stream s' 3 sh' rcs' = drop (nat (recv_ret r)) [1, 2, 3, 4, 5] \<and> rx_ok s' 3 sh' rcs'"
  using light_recv_stream [OF demo_target(1) demo_rx_ok(3) demo_target(2) demo_rx_ok(3,1,2), of 4 "\<lambda>_ s. s"]
  unfolding demo_rx_stream by simp

text \<open>C15. No packet buffer is lost or freed twice by a receive: every buffer that waited before is
  afterwards either released once or still waiting, and when the first waiting segment fits the
  request the bytes written are exactly the reported ones.\<close>

theorem light_recv_conserves_buffers:
  assumes "rx_ok s i sh rcs" "rx_ready s i rcs" "0 < nbytes" "sock_of s i = Inr sk"
  shows "\<exists>r s' sh' rcs' rel. light_recv_sock i nbytes nb pr env s = Inr (r, s') \<and>
    released s' = released s @ rel \<and>
    set (shadow_addrs (descs s i) sh @ concat rcs) = set rel \<union> set (shadow_addrs (descs s' i) sh' @ concat rcs') \<and>
    set rel \<inter> set (shadow_addrs (descs s' i) sh' @ concat rcs') = {} \<and> rx_ok s' i sh' rcs' \<and>
    (head_len s i rcs \<le> nat nbytes \<longrightarrow> int (length (recv_written r)) = recv_ret r)"
proof -
  obtain r s' sh' rcs' rel where v: "light_recv_sock i nbytes nb pr env s = Inr (r, s')" "0 < recv_ret r"
    "nat (recv_ret r) \<le> length (rx_stream s i sh rcs)"
    "if head_len s i rcs \<le> nat nbytes then recv_written r = take (nat (recv_ret r)) (rx_stream s i sh rcs)
     else length (recv_written r) = head_len s i rcs"
    "rx_ok s' i sh' rcs'" "released s' = released s @ rel"
    "set (shadow_addrs (descs s i) sh @ concat rcs) = set rel \<union> set (shadow_addrs (descs s' i) sh' @ concat rcs')"
    "set rel \<inter> set (shadow_addrs (descs s' i) sh' @ concat rcs') = {}"
    using light_recv_sock_ready [OF assms, of nb pr env] by (elim exE conjE) (rule that)
  have "int (length (recv_written r)) = recv_ret r" if "head_len s i rcs \<le> nat nbytes" using v(2-4) that by simp
  with v show ?thesis by blast
qed

theorem light_recv_conserves_buffers_witness:
  "\<exists>r s' sh' rcs' rel. light_recv_sock 3 4 True 0 (\<lambda>_ s. s) (demo_app [10] 0) = Inr (r, s') \<and>
    released s' = rel \<and> {10, 11} = set rel \<union> set (shadow_addrs (descs s' 3) sh' @ concat rcs') \<and>
    set rel \<inter> set (shadow_addrs (descs s' 3) sh' @ concat rcs') = {} \<and> rx_ok s' 3 sh' rcs' \<and>
    int (length (recv_written r)) = recv_ret r"
  using light_recv_conserves_buffers [where nbytes = 4 and nb = True and pr = 0 and env = "\<lambda>_ s. s",
      OF demo_rx_ok(1) [of 0] demo_rx_ok(2) [of 0] _ demo_rx_ok(3)]
  by (auto simp: demo_rx_stream shadow_addrs_def)

text \<open>C16. When the first waiting segment is longer than the request, \<open>light_recv\<close> copies the whole
  segment: it writes more bytes to the caller's buffer than the caller asked for, while its result
  still stays within the request.\<close>

theorem light_recv_overruns_short_buffer:
  assumes "rx_ok s i sh rcs" "rx_ready s i rcs" "0 < nbytes" "sock_of s i = Inr sk" "nbytes < int (head_len s i rcs)"
  shows "\<exists>r s'. light_recv_sock i nbytes nb pr env s = Inr (r, s') \<and> recv_ret r \<le> nbytes \<and>
    length (recv_written r) = head_len s i rcs \<and> nbytes < int (length (recv_written r))"
proof -
  obtain r s' where v: "light_recv_sock i nbytes nb pr env s = Inr (r, s')" "recv_ret r \<le> nbytes"
    "if head_len s i rcs \<le> nat nbytes then recv_written r = take (nat (recv_ret r)) (rx_stream s i sh rcs)
     else length (recv_written r) = head_len s i rcs"
    using light_recv_sock_ready [OF assms(1-4), of nb pr env] by (elim exE conjE) (rule that)
  have "\<not> head_len s i rcs \<le> nat nbytes" using assms(3,5) by linarith
  with v show ?thesis using assms(5) by simp
qed

theorem light_recv_overruns_short_buffer_witness:
  "\<exists>r s'. light_recv_sock 3 1 True 0 (\<lambda>_ s. s) (demo_app [10] 0) = Inr (r, s') \<and> recv_ret r \<le> 1 \<and>
    length (recv_written r) = 3 \<and> 1 < int (length (recv_written r))"
  using light_recv_overruns_short_buffer [where nbytes = 1 and nb = True and pr = 0 and env = "\<lambda>_ s. s",
      OF demo_rx_ok(1) [of 0] demo_rx_ok(2) [of 0] _ demo_rx_ok(3)]
  by (simp add: demo_rx_stream)

text \<open>With nothing waiting a non-blocking receive takes no buffer and writes nothing: it reports
  end of file exactly when the connection was closed, and \<open>EAGAIN\<close> otherwise; the only trace is
  the receive kick posted to the stack.\<close>

theorem light_recv_nothing_waiting:
  assumes "rx_ok s i sh []" "\<not> rx_ready s i []" "sock_of s i = Inr sk"
  shows "light_recv_sock i nbytes True pr env s =
    Inr (\<lparr> recv_ret = (if connect_close_signal sk < 3 then - 1 else 0), recv_written = [],
           recv_eagain = (connect_close_signal sk < 3) \<rparr>, post_command_unchecked pr (rx_kick i) s)"
  using light_recv_sock_empty [OF assms, of nbytes pr env] by simp

theorem light_recv_nothing_waiting_witness:
  "light_recv_sock 3 4 True 0 (\<lambda>_ s. s) (demo_app [] 3) =
     Inr (\<lparr> recv_ret = 0, recv_written = [], recv_eagain = False \<rparr>, post_command_unchecked 0 (rx_kick 3) (demo_app [] 3))"
  using light_recv_nothing_waiting [where nbytes = 4 and pr = 0 and env = "\<lambda>_ s. s",
      OF demo_rx_ok(4) [of 3] demo_rx_ok(5) [of 3] demo_rx_ok(3)] by simp

text \<open>C19. The blocking dequeue returns: when the other processes leave the ring empty for \<open>k\<close> polls and
  then a chain is queued, the call delivers that chain after exactly these polls and takes it, and only it,
  off the ring.\<close>

theorem light_dequeue_rx_buf_returns:
  assumes "\<forall>j < k. rx_must_wait i (polled env (post_command_unchecked pr (rx_kick i) s) j) = Inr True"
    "queue_ok (polled env (post_command_unchecked pr (rx_kick i) s) k) i (c # cs)"
  shows "\<exists>s'. light_dequeue_rx_buf_by_proc_id i pr env s = Inr (Some (hd c), s') \<and> queue_ok s' i cs \<and>
    mbufs s' = mbufs (polled env (post_command_unchecked pr (rx_kick i) s) k)"
proof -
  let ?s = "polled env (post_command_unchecked pr (rx_kick i) s) k"
  have ok: "ring_ok (rx_ring (descs ?s i))" "contents (rx_ring (descs ?s i)) = hd c # map hd cs"
    using assms(2) by (simp_all add: queue_ok_def)
  then have "rx_must_wait i ?s = Inr False" by (intro rx_must_wait_ready) simp_all
  from rx_spin_polled [OF assms(1) this] have
    call: "light_dequeue_rx_buf_by_proc_id i pr env s = Inr (rx_dequeue i ?s)"
    by (simp add: light_dequeue_rx_buf_by_proc_id_def Let_def loop_res_def)
  obtain rg where d: "rx_dequeue i ?s = (Some (hd c), upd_desc i (rx_ring_update (\<lambda>_. rg)) ?s)" "ring_ok rg" "contents rg = map hd cs"
    using ok by (rule rx_dequeue_Cons)
  then have "queue_ok (upd_desc i (rx_ring_update (\<lambda>_. rg)) ?s) i cs"
    using assms(2) by (auto simp: queue_ok_def upd_desc_def)
  then show ?thesis using call d(1) by (auto simp: upd_desc_def)
qed

theorem light_dequeue_rx_buf_returns_witness:
  "\<exists>s'. light_dequeue_rx_buf_by_proc_id 3 0 (\<lambda>_ s. s \<lparr> descs := (\<lambda>_. demo_desc [10]) \<rparr>) (demo_app [] 0) = Inr (Some 10, s') \<and>
    queue_ok s' 3 [] \<and> mbufs s' = mbufs (demo_app [] 0)"
proof -
  let ?env = "\<lambda>(_ :: nat) s. s \<lparr> descs := (\<lambda>_. demo_desc [10]) \<rparr>" and ?s = "demo_app [] 0"
  have "rx_must_wait 3 (post_command_unchecked 0 (rx_kick 3) ?s) = Inr True"
    using ring_of_ok [of 3 "[]" "0 :: addr"] by (simp add: rx_must_wait_def sock_of_def rte_ring_empty_eq ring_ok_def)
  then have w: "\<forall>j < Suc 0. rx_must_wait 3 (polled ?env (post_command_unchecked 0 (rx_kick 3) ?s) j) = Inr True" by simp
  have "queue_ok (polled ?env (post_command_unchecked 0 (rx_kick 3) ?s) (Suc 0)) 3 [[10, 11]]"
    using ring_of_ok [of 3 "[10]" "0 :: addr"] by (simp add: queue_ok_def live_seg_def seg_ok_def demo_mbuf_def)
  from light_dequeue_rx_buf_returns [OF w this] show ?thesis by (simp add: fun_eq_iff)
qed

end
