(* ===== verification/Time_Ops.thy ===== *)
theory Time_Ops
  imports Light_Types
begin

text \<open>
  The two helpers of \<open>light_ring_ops.h\<close> by which the send functions measure how long they have
  waited.  \<open>time_cmp\<close> is the strict lexicographic order; \<open>time_substract\<close> subtracts the seconds
  of the start time from the microseconds of the end time, and the lemmas state exactly by
  how much its result is off.
\<close>

text \<open>The first component is the C result, the second the value stored through \<open>result\<close>.\<close>

definition time_substract :: "timeval \<Rightarrow> timeval \<Rightarrow> timeval \<Rightarrow> int \<times> timeval" where
  "time_substract time_begin time_end result =
     (if tv_sec time_begin > tv_sec time_end then (- 1, result)
      else if tv_sec time_begin = tv_sec time_end \<and> tv_usec time_begin > tv_usec time_end
      then (- 1, result)
      else let r = result \<lparr> tv_sec := tv_sec time_end - tv_sec time_begin,
                            tv_usec := tv_usec time_end - tv_sec time_begin \<rparr>
           in if tv_usec r < 0
              then (0, r \<lparr> tv_usec := tv_usec r + 1000000, tv_sec := tv_sec r - 1 \<rparr>)
              else (0, r))"

definition time_cmp :: "timeval \<Rightarrow> timeval \<Rightarrow> int" where
  "time_cmp maxtime mintime =
     (if tv_sec maxtime > tv_sec mintime then 1
      else if tv_sec maxtime = tv_sec mintime \<and> tv_usec maxtime > tv_usec mintime then 1
      else 0)"

text \<open>A time value in microseconds, and the values the kernel produces.\<close>

definition usecs :: "timeval \<Rightarrow> int" where
  "usecs t = tv_sec t * 1000000 + tv_usec t"

definition normalised :: "timeval \<Rightarrow> bool" where
  "normalised t \<longleftrightarrow> 0 \<le> tv_usec t \<and> tv_usec t < 1000000"

section \<open>Lemmas\<close>

text \<open>The comparison decides which of two kernel time values is later.\<close>

theorem time_cmp_order:
  assumes "normalised s" "normalised t"
  shows "(time_cmp s t = 1 \<longleftrightarrow> usecs s > usecs t) \<and> (time_cmp s t = 0 \<longleftrightarrow> usecs s \<le> usecs t)"
  using assms by (auto simp: time_cmp_def usecs_def normalised_def)

theorem time_cmp_order_witness:
  "time_cmp \<lparr> tv_sec = 3, tv_usec = 5 \<rparr> \<lparr> tv_sec = 2, tv_usec = 999999 \<rparr> = 1 \<longleftrightarrow>
   usecs \<lparr> tv_sec = 3, tv_usec = 5 \<rparr> > usecs \<lparr> tv_sec = 2, tv_usec = 999999 \<rparr>"
  using time_cmp_order [of "\<lparr> tv_sec = 3, tv_usec = 5 \<rparr>" "\<lparr> tv_sec = 2, tv_usec = 999999 \<rparr>"]
  by (simp add: normalised_def)

text \<open>The difference is computed wrongly: whenever the function succeeds, its result is the true
  difference plus the microseconds minus the seconds of the start time, so it is right only when
  the start time has as many microseconds as seconds.\<close>

theorem time_substract_error:
  assumes "time_substract b e r = (0, d)"
  shows "usecs d = (usecs e - usecs b) + (tv_usec b - tv_sec b) \<and>
         (usecs d = usecs e - usecs b \<longleftrightarrow> tv_usec b = tv_sec b)"
  using assms by (auto simp: time_substract_def usecs_def Let_def split: if_splits)

theorem time_substract_error_witness:
  "usecs (snd (time_substract \<lparr> tv_sec = 1700000000, tv_usec = 0 \<rparr>
                \<lparr> tv_sec = 1700000000, tv_usec = 250000 \<rparr> \<lparr> tv_sec = 0, tv_usec = 0 \<rparr>))
   = 250000 - 1700000000"
  using time_substract_error [of "\<lparr> tv_sec = 1700000000, tv_usec = 0 \<rparr>"
      "\<lparr> tv_sec = 1700000000, tv_usec = 250000 \<rparr>" "\<lparr> tv_sec = 0, tv_usec = 0 \<rparr>"
      "\<lparr> tv_sec = - 1, tv_usec = 250000 - 1700000000 + 1000000 \<rparr>"]
  by (simp add: time_substract_def usecs_def)

end
