(* ===== verification/Tx_Path.thy ===== *)
theory Tx_Path
  imports Rx_Path Time_Ops "HOL-Library.Signed_Division"
begin

text \<open>
  The send path of \<open>light_api.c\<close> and \<open>light_ring_ops.h\<close>: how much a socket can take, waiting for
  space, cutting the caller's bytes into packet buffers, queuing them on the transmit ring and
  waking the stack; the vector forms of both directions.  The lemmas show that a send appends a
  prefix of the caller's bytes to the transmit stream and accounts for every buffer.
\<close>

definition RTE_PKTMBUF_HEADROOM :: nat where "RTE_PKTMBUF_HEADROOM = 128"

section \<open>Space\<close>

definition light_socket_tx_space :: "nat \<Rightarrow> 'z app_env_scheme \<Rightarrow> int" where
  "light_socket_tx_space sock s = sint (rte_ring_free_count (tx_ring (descs s sock)))"

text \<open>The space in packets; C division truncates towards zero.\<close>

definition light_get_socket_tx_space :: "nat \<Rightarrow> 'z app_env_scheme \<Rightarrow> int c_res" where
  "light_get_socket_tx_space sock s =
     (let ring_space = light_socket_tx_space sock s;
          free_bufs_count = sint (rte_mempool_avail_count (tx_bufs_pool s));
          rc = (if ring_space > free_bufs_count then (if free_bufs_count > 0 then free_bufs_count else 0)
                else ring_space)
      in cbind (sock_of s sock) (\<lambda>sk.
           let space = tx_space sk sdiv PKT_PAYLOAD_MAX_SIZE
           in Inr (if rc > space then space else rc)))"

text \<open>
  Waiting for space.  \<open>clock\<close> gives the time of day at each poll and \<open>env\<close> what the other processes
  do before it; \<open>strict\<close> is the timeout whose sign is tested, the receive timeout in \<open>light_send\<close>
  and the send timeout in \<open>light_sendto\<close>.  The result is the space, or \<open>None\<close> after a timeout.
\<close>

partial_function (option) tx_wait ::
  "(light_socket_t \<Rightarrow> timeval) \<Rightarrow> nat \<Rightarrow> timeval \<Rightarrow> (nat \<Rightarrow> timeval)
     \<Rightarrow> (nat \<Rightarrow> 'z app_env_scheme \<Rightarrow> 'z app_env_scheme) \<Rightarrow> nat \<Rightarrow> int \<Rightarrow> 'z app_env_scheme
     \<Rightarrow> (int option \<times> 'z app_env_scheme) c_res option" where
  "tx_wait strict sock t0 clock env k space s =
     (case sock_of s sock of
        Inl e \<Rightarrow> Some (Inl e)
      | Inr sk \<Rightarrow>
          if space = 0 \<and> connect_close_signal sk < 3
          then let s1 = env k s; (ret, time_use) = time_substract t0 (clock k) \<lparr> tv_sec = 0, tv_usec = 0 \<rparr> in
               if ret \<noteq> 0 then tx_wait strict sock t0 clock env (k + 1) space s1
               else (case sock_of s1 sock of
                       Inl e \<Rightarrow> Some (Inl e)
                     | Inr sk1 \<Rightarrow>
                         if tv_sec (strict sk1) \<ge> 0 \<and> tv_usec (strict sk1) \<ge> 0 \<and> time_cmp time_use (send_timeout sk1) > 0
                         then Some (Inr (None, s1))
                         else (case light_get_socket_tx_space sock s1 of
                                 Inl e \<Rightarrow> Some (Inl e)
                               | Inr space1 \<Rightarrow> tx_wait strict sock t0 clock env (k + 1) space1 s1))
          else Some (Inr (Some space, s)))"

section \<open>Buffers\<close>

definition tx_pool_empty_cmd :: "nat \<Rightarrow> light_cmd_t \<Rightarrow> light_cmd_t" where
  "tx_pool_empty_cmd sock c = c \<lparr> cmd := LIGHT_SOCKET_TX_POOL_EMPTY_COMMAND, ringset_idx := int sock \<rparr>"

definition light_notify_empty_tx_buffers_by_proc_id ::
  "int \<Rightarrow> nat \<Rightarrow> 'z app_env_scheme \<Rightarrow> 'z app_env_scheme" where
  "light_notify_empty_tx_buffers_by_proc_id sock pr s =
     (if sock = - 1 then s
      else case socket (descs s (nat sock)) of
             None \<Rightarrow> s
           | Some k \<Rightarrow> if presented_in_chain (socks s k) \<noteq> 0 then s
                       else snd (post_command pr (tx_pool_empty_cmd (nat sock)) s))"

definition rte_pktmbuf_reset :: "rte_mbuf \<Rightarrow> rte_mbuf" where
  "rte_pktmbuf_reset m = m \<lparr> next_seg := None, pkt_len := 0, nb_segs := 1,
     data_off := min RTE_PKTMBUF_HEADROOM (length (buf m)), data_len := 0 \<rparr>"

text \<open>The buffers of \<open>bufs_and_desc\<close>, or \<open>None\<close> for the result 1.\<close>

definition light_get_buffers_bulk_by_proc_id ::
  "nat \<Rightarrow> nat \<Rightarrow> nat \<Rightarrow> 'z app_env_scheme \<Rightarrow> addr list option \<times> 'z app_env_scheme" where
  "light_get_buffers_bulk_by_proc_id owner_sock cnt pr s =
     (let (ret, bufs, pool) = rte_mempool_get_bulk 0 (tx_bufs_pool s) (replicate cnt 0) (of_nat cnt) in
      if ret \<noteq> 0 then (None, light_notify_empty_tx_buffers_by_proc_id (int owner_sock) pr s)
      else (Some bufs, fold (\<lambda>a. upd_mbuf a (\<lambda>m. (rte_pktmbuf_reset m) \<lparr> refcnt := 1 \<rparr>)) bufs
                         (s \<lparr> tx_bufs_pool := pool \<rparr>)))"

text \<open>\<open>rte_pktmbuf_free_seg\<close>: a buffer whose last reference is dropped goes back to the pool.\<close>

definition light_release_tx_buffer :: "addr \<Rightarrow> 'z app_env_scheme \<Rightarrow> 'z app_env_scheme" where
  "light_release_tx_buffer a s =
     (let (last, s1) = pktmbuf_prefree_seg a s in
      if last then (upd_mbuf a (\<lambda>m. m \<lparr> next_seg := None \<rparr>) s1)
                     \<lparr> tx_bufs_pool := rte_mempool_put 0 (tx_bufs_pool s1) a \<rparr>
      else s1)"

text \<open>\<open>rte_memcpy\<close> to the data of a buffer.\<close>

definition write_data :: "addr \<Rightarrow> u8 list \<Rightarrow> 'z app_env_scheme \<Rightarrow> 'z app_env_scheme c_res" where
  "write_data a bs s =
     (let m = mbufs s a in
      if data_off m + length bs \<le> length (buf m)
      then Inr (upd_mbuf a (\<lambda>m. m \<lparr> buf := take (data_off m) (buf m) @ bs @ drop (data_off m + length bs) (buf m) \<rparr>) s)
      else Inl OutOfBounds)"

section \<open>Queuing\<close>

text \<open>The loop of the bulk send; an entry of \<open>lengths\<close> that was never set is not in the list.\<close>

fun set_lengths :: "addr list \<Rightarrow> int list \<Rightarrow> 'z app_env_scheme \<Rightarrow> (int \<times> 'z app_env_scheme) c_res" where
  "set_lengths [] lengths s = Inr (0, s)"
| "set_lengths (a # bufs) [] s = Inl OutOfBounds"
| "set_lengths (a # bufs) (l # lengths) s =
     cbind (set_lengths bufs lengths (upd_mbuf a (\<lambda>m. m \<lparr> data_len := nat l \<rparr>) s)) (\<lambda>(total_length, s1).
       Inr (l + total_length, s1))"

definition light_enqueue_tx_bufs_bulk :: "nat \<Rightarrow> addr list \<Rightarrow> 'z app_env_scheme \<Rightarrow> int \<times> 'z app_env_scheme" where
  "light_enqueue_tx_bufs_bulk sock bufs s =
     (let (rc, rg) = sp_do_enqueue (tx_ring (descs s sock)) bufs (of_nat (length bufs)) RTE_RING_QUEUE_FIXED
      in (if rc = - ENOBUFS then 1 else 0, upd_desc sock (tx_ring_update (\<lambda>_. rg)) s))"

definition light_enqueue_tx_buf :: "nat \<Rightarrow> addr \<Rightarrow> 'z app_env_scheme \<Rightarrow> int \<times> 'z app_env_scheme" where
  "light_enqueue_tx_buf sock a s =
     (let (rc, rg) = sp_do_enqueue (tx_ring (descs s sock)) [a] 1 RTE_RING_QUEUE_FIXED
      in (if rc = - ENOBUFS then 1 else 0, upd_desc sock (tx_ring_update (\<lambda>_. rg)) s))"

text \<open>The atomic update of the space of the shared socket.\<close>

definition sub_tx_space :: "nat \<Rightarrow> int \<Rightarrow> 'z app_env_scheme \<Rightarrow> 'z app_env_scheme c_res" where
  "sub_tx_space sock n s =
     (case socket (descs s sock) of None \<Rightarrow> Inl BadPointer
      | Some k \<Rightarrow> Inr (upd_sock k (\<lambda>sk. sk \<lparr> tx_space := tx_space sk - n \<rparr>) s))"

definition light_send_bulk :: "nat \<Rightarrow> addr list \<Rightarrow> int list \<Rightarrow> 'z app_env_scheme \<Rightarrow> (int \<times> 'z app_env_scheme) c_res" where
  "light_send_bulk sock bufs lengths s =
     cbind (set_lengths bufs lengths s) (\<lambda>(total_length, s1).
       let (rc, s2) = light_enqueue_tx_bufs_bulk sock bufs s1 in
       if rc = 0 then cbind (sub_tx_space sock total_length s2) (\<lambda>s3. Inr (rc, s3)) else Inr (rc, s2))"

definition light_send_mbuf :: "nat \<Rightarrow> addr \<Rightarrow> int \<Rightarrow> 'z app_env_scheme \<Rightarrow> (int \<times> 'z app_env_scheme) c_res" where
  "light_send_mbuf sock a len s =
     (let (rc, s1) = light_enqueue_tx_buf sock a (upd_mbuf a (\<lambda>m. m \<lparr> data_len := nat len, next_seg := None \<rparr>) s) in
      if rc = 0 then cbind (sub_tx_space sock len s1) (\<lambda>s2. Inr (rc, s2)) else Inr (rc, s1))"

section \<open>Waking the stack\<close>

definition tx_kick :: "nat \<Rightarrow> light_cmd_t \<Rightarrow> light_cmd_t" where
  "tx_kick sock c = c \<lparr> cmd := LIGHT_SOCKET_TX_KICK_COMMAND, ringset_idx := int sock \<rparr>"

text \<open>
  When the command cannot be enqueued the function ends without a value, since the \<open>return\<close> that
  follows belongs to the \<open>else\<close>.
\<close>

definition light_socket_kick_by_proc_id ::
  "nat \<Rightarrow> nat \<Rightarrow> 'z app_env_scheme \<Rightarrow> (int option \<times> 'z app_env_scheme) c_res" where
  "light_socket_kick_by_proc_id sock pr s =
     (case socket (descs s sock) of None \<Rightarrow> Inl BadPointer
      | Some k \<Rightarrow>
          if write_done_from_app (socks s k) \<noteq> 0 then Inr (Some 0, s)
          else (case post_command pr (tx_kick sock) (upd_sock k (\<lambda>sk. sk \<lparr> write_done_from_app := 1 \<rparr>) s) of
                  (NoBuffer, s1) \<Rightarrow> Inr (Some (- 1), s1)
                | (RingFull, s1) \<Rightarrow> Inr (None, s1)
                | (Posted _, s1) \<Rightarrow> Inr (Some 0, s1)))"

text \<open>The loop that repeats the kick until its result is not \<open>-1\<close>.\<close>

partial_function (option) kick_until ::
  "nat \<Rightarrow> nat \<Rightarrow> 'z app_env_scheme \<Rightarrow> 'z app_env_scheme c_res option" where
  "kick_until sock pr s =
     (case light_socket_kick_by_proc_id sock pr s of
        Inl e \<Rightarrow> Some (Inl e)
      | Inr (None, s1) \<Rightarrow> Some (Inl NoValue)
      | Inr (Some r, s1) \<Rightarrow> if r = - 1 then kick_until sock pr s1 else Some (Inr s1))"

section \<open>Sending\<close>

text \<open>Filling the buffers: the lengths set, the number of bytes taken.\<close>

fun fill_bufs :: "addr list \<Rightarrow> u8 list \<Rightarrow> 'z app_env_scheme \<Rightarrow> (int list \<times> int \<times> 'z app_env_scheme) c_res" where
  "fill_bufs [] bs s = Inr ([], 0, s)"
| "fill_bufs (a # bufs) bs s =
     (if int (length bs) > PKT_PAYLOAD_MAX_SIZE
      then cbind (write_data a (take (nat PKT_PAYLOAD_MAX_SIZE) bs) s) (\<lambda>s1.
           cbind (fill_bufs bufs (drop (nat PKT_PAYLOAD_MAX_SIZE) bs) s1) (\<lambda>(lengths, ret_len, s2).
             Inr (PKT_PAYLOAD_MAX_SIZE # lengths, PKT_PAYLOAD_MAX_SIZE + ret_len, s2)))
      else cbind (write_data a bs s) (\<lambda>s1. Inr ([int (length bs)], int (length bs), s1)))"

text \<open>Releasing \<open>bulk_bufs[0 .. n-1]\<close>.\<close>

fun release_bufs :: "nat \<Rightarrow> addr list \<Rightarrow> 'z app_env_scheme \<Rightarrow> 'z app_env_scheme c_res" where
  "release_bufs 0 bufs s = Inr s"
| "release_bufs (Suc n) [] s = Inl OutOfBounds"
| "release_bufs (Suc n) (a # bufs) s = release_bufs n bufs (light_release_tx_buffer a s)"

definition light_send_sock ::
  "nat \<Rightarrow> u8 list \<Rightarrow> nat \<Rightarrow> timeval \<Rightarrow> (nat \<Rightarrow> timeval) \<Rightarrow> (nat \<Rightarrow> 'z app_env_scheme \<Rightarrow> 'z app_env_scheme)
     \<Rightarrow> 'z app_env_scheme \<Rightarrow> (int \<times> 'z app_env_scheme) c_res" where
  "light_send_sock sock bs pr t0 clock env s =
     cbind (light_get_socket_tx_space sock s) (\<lambda>space0.
     cbind (loop_res (tx_wait receive_timeout sock t0 clock env 0 space0 s)) (\<lambda>w. cbind w (\<lambda>(space, s1).
     case space of None \<Rightarrow> Inr (- 1, s1) | Some space1 \<Rightarrow>
     let n = int (length bs);
         count1 = n div PKT_PAYLOAD_MAX_SIZE + (if n mod PKT_PAYLOAD_MAX_SIZE > 0 then 1 else 0);
         buf_count = (if count1 > space1 then space1 else count1) in
     if buf_count < 0 then Inl OutOfBounds else
     cbind (sock_of s1 sock) (\<lambda>sk.
     if connect_close_signal sk \<ge> 3 then Inr (- 1, s1) else
     case light_get_buffers_bulk_by_proc_id sock (nat buf_count) pr s1 of
       (None, s2) \<Rightarrow> Inr (- 1, s2)
     | (Some bufs, s2) \<Rightarrow>
         cbind (fill_bufs bufs bs s2) (\<lambda>(lengths, ret_len, s3).
         cbind (light_send_bulk sock bufs lengths s3) (\<lambda>(rc, s4).
         if rc \<noteq> 0 then cbind (release_bufs (nat space1) bufs s4) (\<lambda>s5. Inr (- 1, s5))
         else cbind (loop_res (kick_until sock pr s4)) (\<lambda>k. cbind k (\<lambda>s5. Inr (ret_len, s5)))))))))"

text \<open>From the file descriptor to the socket of the serving stack process.\<close>

definition target_sock :: "int \<Rightarrow> 'z app_env_scheme \<Rightarrow> (nat \<times> nat) c_res" where
  "target_sock fd s =
     cbind (light_fd_to_socket_epoll_index (fdt s) fd) (\<lambda>(idx, fd_type).
     if idx < 0 then Inl OutOfBounds else
     cbind (sock_of s (nat idx)) (\<lambda>sk.
     cbind (aget (multicore_socket_copies sk) (int (proc_id (descs s (nat idx))))) (\<lambda>copy.
     if copy < 0 then Inl OutOfBounds else Inr (nat copy, proc_id (descs s (nat idx))))))"

definition light_send ::
  "int \<Rightarrow> u8 list \<Rightarrow> timeval \<Rightarrow> (nat \<Rightarrow> timeval) \<Rightarrow> (nat \<Rightarrow> 'z app_env_scheme \<Rightarrow> 'z app_env_scheme)
     \<Rightarrow> 'z app_env_scheme \<Rightarrow> (int \<times> 'z app_env_scheme) c_res" where
  "light_send fd bs t0 clock env s =
     cbind (target_sock fd s) (\<lambda>(sock, pr). light_send_sock sock bs pr t0 clock env s)"

definition upd_all :: "addr list \<Rightarrow> (rte_mbuf \<Rightarrow> rte_mbuf) \<Rightarrow> (addr \<Rightarrow> rte_mbuf) \<Rightarrow> addr \<Rightarrow> rte_mbuf" where
  "upd_all as f h = (\<lambda>a. if a \<in> set as then f (h a) else h a)"

definition light_write ::
  "(int \<Rightarrow> u8 list \<Rightarrow> int) \<Rightarrow> int \<Rightarrow> u8 list \<Rightarrow> timeval \<Rightarrow> (nat \<Rightarrow> timeval)
     \<Rightarrow> (nat \<Rightarrow> 'z app_env_scheme \<Rightarrow> 'z app_env_scheme) \<Rightarrow> 'z app_env_scheme \<Rightarrow> (int \<times> 'z app_env_scheme) c_res" where
  "light_write real_write fd bs t0 clock env s =
     cbind (is_light_fd (fdt s) fd) (\<lambda>l.
       if l = 1 then light_send fd bs t0 clock env s else Inr (real_write fd bs, s))"

section \<open>Vectors\<close>

text \<open>
  The loop of \<open>light_writev\<close> over the remaining vector; clock and environment of the call for
  element \<open>j\<close> are \<open>t0 j\<close>, \<open>clock j\<close> and \<open>env j\<close>.
\<close>

fun writev_loop ::
  "int \<Rightarrow> (nat \<Rightarrow> timeval) \<Rightarrow> (nat \<Rightarrow> nat \<Rightarrow> timeval) \<Rightarrow> (nat \<Rightarrow> nat \<Rightarrow> 'z app_env_scheme \<Rightarrow> 'z app_env_scheme)
     \<Rightarrow> nat \<Rightarrow> int \<Rightarrow> u8 list list \<Rightarrow> 'z app_env_scheme \<Rightarrow> (int \<times> 'z app_env_scheme) c_res" where
  "writev_loop fd t0 clock env j retlen [] s = Inr (retlen, s)"
| "writev_loop fd t0 clock env j retlen (bs # iov) s =
     cbind (light_send fd bs (t0 j) (clock j) (env j) s) (\<lambda>(templen, s1).
       if templen \<le> 0 then Inr (if retlen > 0 then retlen else templen, s1)
       else if templen < int (length bs) then Inr (retlen + templen, s1)
       else writev_loop fd t0 clock env (j + 1) (retlen + templen) iov s1)"

definition light_writev ::
  "(int \<Rightarrow> u8 list list \<Rightarrow> int) \<Rightarrow> int \<Rightarrow> u8 list list \<Rightarrow> (nat \<Rightarrow> timeval) \<Rightarrow> (nat \<Rightarrow> nat \<Rightarrow> timeval)
     \<Rightarrow> (nat \<Rightarrow> nat \<Rightarrow> 'z app_env_scheme \<Rightarrow> 'z app_env_scheme) \<Rightarrow> 'z app_env_scheme \<Rightarrow> (int \<times> 'z app_env_scheme) c_res" where
  "light_writev real_writev fd iov t0 clock env s =
     cbind (is_light_fd (fdt s) fd) (\<lambda>l.
       if l = 1 then writev_loop fd t0 clock env 0 0 iov s else Inr (real_writev fd iov, s))"

text \<open>
  The receiving counterpart; the elements of the vector are lengths, and the bytes written to each
  element are collected.
\<close>

fun readv_loop ::
  "int \<Rightarrow> (nat \<Rightarrow> nat \<Rightarrow> 'z app_env_scheme \<Rightarrow> 'z app_env_scheme) \<Rightarrow> nat \<Rightarrow> int \<Rightarrow> int list \<Rightarrow> 'z app_env_scheme
     \<Rightarrow> (int \<times> u8 list list \<times> 'z app_env_scheme) c_res" where
  "readv_loop fd env j retlen [] s = Inr (retlen, [], s)"
| "readv_loop fd env j retlen (n # iov) s =
     cbind (light_recv fd n (env j) s) (\<lambda>(r, s1).
       if recv_ret r \<le> 0 then Inr (if retlen > 0 then retlen else recv_ret r, [recv_written r], s1)
       else if recv_ret r < n then Inr (retlen + recv_ret r, [recv_written r], s1)
       else cbind (readv_loop fd env (j + 1) (retlen + recv_ret r) iov s1) (\<lambda>(ret, ws, s2).
              Inr (ret, recv_written r # ws, s2)))"

section \<open>Datagrams\<close>

text \<open>
  The destination is stored in the 16 bytes in front of the data of each buffer.  The loop moves
  to the next element of the caller's address with every buffer: \<open>dests\<close> are the addresses that
  the pointer can be moved over, one for a call of \<open>sendto\<close>.
\<close>

definition store_addr :: "addr \<Rightarrow> u8 list \<Rightarrow> 'z app_env_scheme \<Rightarrow> 'z app_env_scheme c_res" where
  "store_addr a d s =
     (let off = data_off (mbufs s a) in
      if 16 \<le> off \<and> off \<le> length (buf (mbufs s a)) \<and> length d = 16
      then Inr (upd_mbuf a (\<lambda>m. m \<lparr> buf := take (off - 16) (buf m) @ d @ drop off (buf m) \<rparr>) s)
      else Inl OutOfBounds)"

fun set_lengths_to ::
  "addr list \<Rightarrow> int list \<Rightarrow> u8 list list \<Rightarrow> 'z app_env_scheme \<Rightarrow> (int \<times> 'z app_env_scheme) c_res" where
  "set_lengths_to [] lengths dests s = Inr (0, s)"
| "set_lengths_to (a # bufs) (l # lengths) (d # dests) s =
     cbind (store_addr a d (upd_mbuf a (\<lambda>m. m \<lparr> data_len := nat l \<rparr>) s)) (\<lambda>s1.
     cbind (set_lengths_to bufs lengths dests s1) (\<lambda>(total_length, s2). Inr (l + total_length, s2)))"
| "set_lengths_to (a # bufs) lengths dests s = Inl OutOfBounds"

definition light_sendto_bulk ::
  "nat \<Rightarrow> addr list \<Rightarrow> int list \<Rightarrow> u8 list list \<Rightarrow> 'z app_env_scheme \<Rightarrow> (int \<times> 'z app_env_scheme) c_res" where
  "light_sendto_bulk sock bufs lengths dests s =
     cbind (set_lengths_to bufs lengths dests s) (\<lambda>(total_length, s1).
       let (rc, s2) = light_enqueue_tx_bufs_bulk sock bufs s1 in
       if rc = 0 then cbind (sub_tx_space sock total_length s2) (\<lambda>s3. Inr (rc, s3)) else Inr (rc, s2))"

definition light_sendto_mbuf ::
  "nat \<Rightarrow> addr \<Rightarrow> int \<Rightarrow> u8 list \<Rightarrow> 'z app_env_scheme \<Rightarrow> (int \<times> 'z app_env_scheme) c_res" where
  "light_sendto_mbuf sock a len d s =
     cbind (store_addr a d (upd_mbuf a (\<lambda>m. m \<lparr> data_len := nat len \<rparr>) s)) (\<lambda>s1.
       let (rc, s2) = light_enqueue_tx_buf sock a s1 in
       if rc = 0 then cbind (sub_tx_space sock len s2) (\<lambda>s3. Inr (rc, s3)) else Inr (rc, s2))"

definition light_sendto_sock ::
  "nat \<Rightarrow> u8 list \<Rightarrow> u8 list list \<Rightarrow> nat \<Rightarrow> timeval \<Rightarrow> (nat \<Rightarrow> timeval) \<Rightarrow> (nat \<Rightarrow> 'z app_env_scheme \<Rightarrow> 'z app_env_scheme)
     \<Rightarrow> 'z app_env_scheme \<Rightarrow> (int \<times> 'z app_env_scheme) c_res" where
  "light_sendto_sock sock bs dests pr t0 clock env s =
     cbind (light_get_socket_tx_space sock s) (\<lambda>space0.
     cbind (loop_res (tx_wait send_timeout sock t0 clock env 0 space0 s)) (\<lambda>w. cbind w (\<lambda>(space, s1).
     case space of None \<Rightarrow> Inr (- 1, s1) | Some space1 \<Rightarrow>
     let n = int (length bs);
         count1 = n div PKT_PAYLOAD_MAX_SIZE + (if n mod PKT_PAYLOAD_MAX_SIZE > 0 then 1 else 0);
         buf_count = (if count1 > space1 then space1 else count1) in
     if buf_count < 0 then Inl OutOfBounds else
     cbind (sock_of s1 sock) (\<lambda>sk.
     if connect_close_signal sk \<ge> 3 then Inr (- 1, s1) else
     case light_get_buffers_bulk_by_proc_id sock (nat buf_count) pr s1 of
       (None, s2) \<Rightarrow> Inr (- 1, s2)
     | (Some bufs, s2) \<Rightarrow>
         cbind (fill_bufs bufs bs s2) (\<lambda>(lengths, ret_len, s3).
         cbind (light_sendto_bulk sock bufs lengths dests s3) (\<lambda>(rc, s4).
         if rc \<noteq> 0 then cbind (release_bufs (nat space1) bufs s4) (\<lambda>s5. Inr (- 1, s5))
         else cbind (loop_res (kick_until sock pr s4)) (\<lambda>k. cbind k (\<lambda>s5. Inr (ret_len, s5)))))))))"

definition light_sendto ::
  "int \<Rightarrow> u8 list \<Rightarrow> u8 list list \<Rightarrow> timeval \<Rightarrow> (nat \<Rightarrow> timeval) \<Rightarrow> (nat \<Rightarrow> 'z app_env_scheme \<Rightarrow> 'z app_env_scheme)
     \<Rightarrow> 'z app_env_scheme \<Rightarrow> (int \<times> 'z app_env_scheme) c_res" where
  "light_sendto fd bs dests t0 clock env s =
     cbind (target_sock fd s) (\<lambda>(sock, pr). light_sendto_sock sock bs dests pr t0 clock env s)"

section \<open>The transmit stream\<close>

text \<open>A buffer ready to be filled with one packet.\<close>

definition tx_ready :: "rte_mbuf \<Rightarrow> bool" where
  "tx_ready m \<longleftrightarrow> data_off m + 1448 \<le> length (buf m)"

text \<open>The bytes that buffers hold when \<open>lens\<close> are their lengths.\<close>

definition filled :: "(addr \<Rightarrow> rte_mbuf) \<Rightarrow> addr list \<Rightarrow> int list \<Rightarrow> u8 list" where
  "filled h as lens = concat (map2 (\<lambda>a l. take (nat l) (drop (data_off (h a)) (buf (h a)))) as lens)"

text \<open>Two heaps with the same buffers up to the bytes inside.\<close>

definition same_shape :: "(addr \<Rightarrow> rte_mbuf) \<Rightarrow> (addr \<Rightarrow> rte_mbuf) \<Rightarrow> addr list \<Rightarrow> bool" where
  "same_shape h h' as \<longleftrightarrow>
     (\<forall>a. a \<notin> set as \<longrightarrow> h' a = h a) \<and>
     (\<forall>a. data_off (h' a) = data_off (h a) \<and> length (buf (h' a)) = length (buf (h a)) \<and>
          next_seg (h' a) = next_seg (h a) \<and> refcnt (h' a) = refcnt (h a))"

text \<open>
  The transmit side of a socket: no buffer is queued and free at once, and a free buffer has room
  for a packet behind the headroom.  The stream is what the stack has still to take.
\<close>

definition tx_ok :: "'z app_env_scheme \<Rightarrow> nat \<Rightarrow> bool" where
  "tx_ok s i \<longleftrightarrow>
     ring_ok (tx_ring (descs s i)) \<and> pool_ok (tx_bufs_pool s) \<and>
     distinct (contents (tx_ring (descs s i)) @ pool_free (tx_bufs_pool s)) \<and>
     (\<forall>a \<in> set (pool_free (tx_bufs_pool s)). 1576 \<le> length (buf (mbufs s a)))"

definition tx_stream :: "'z app_env_scheme \<Rightarrow> nat \<Rightarrow> u8 list" where
  "tx_stream s i = chain_bytes (mbufs s) (contents (tx_ring (descs s i)))"

text \<open>The number of packets the socket takes at once.\<close>

definition tx_packets :: "'z app_env_scheme \<Rightarrow> nat \<Rightarrow> nat \<Rightarrow> nat" where
  "tx_packets s i k =
     min (min (room (tx_ring (descs s i))) (length (pool_free (tx_bufs_pool s)))) (nat (tx_space (socks s k)) div 1448)"

text \<open>The number of buffers a send uses, as the code computes it.\<close>

definition send_count :: "u8 list \<Rightarrow> nat \<Rightarrow> int" where
  "send_count bs sp =
     (let n = int (length bs); c = n div 1448 + (if n mod 1448 > 0 then 1 else 0) in if c > int sp then int sp else c)"

text \<open>The packets that the bytes of one element need.\<close>

definition packets :: "u8 list \<Rightarrow> nat" where
  "packets bs = (length bs + 1447) div 1448"

text \<open>A socket with three free transmit buffers, for concrete runs.\<close>

definition demo_tx :: "app_env" where
  "demo_tx = (demo_app [] 0)
     \<lparr> mbufs := (\<lambda>_. demo_mbuf (replicate 1600 0) None), socks := (\<lambda>_. (demo_sock 0) \<lparr> tx_space := 100000 \<rparr>) \<rparr>"

section \<open>Lemmas\<close>

lemma sint_of_small:
  assumes "unat (w :: u32) < 2147483648"
  shows "sint w = int (unat w)"
proof -
  have u: "uint w = int (unat w)" by simp
  have "uint w < 2147483648" "- 2147483648 \<le> uint w" using assms unfolding u by linarith+
  then have "signed_take_bit 31 (uint w) = uint w"
    by (intro signed_take_bit_int_eq_self) simp_all
  then show ?thesis by (simp add: sint_uint)
qed

lemma rte_mempool_avail_count_eq: "pool_ok mp \<Longrightarrow> unat (rte_mempool_avail_count mp) = length (pool_free mp)"
  by (simp add: rte_mempool_avail_count_def pool_ok_def pool_free_def common_ring_get_count_def rte_ring_count_eq ring_ok_def)

lemma ring_small: "wf_ring r \<Longrightarrow> length (contents r) < 134217728" "wf_ring r \<Longrightarrow> room r < 134217728"
  using capacity_small [of r] wf_ring_count [of r] by (auto simp: room_def)

lemma min_of_three:
  fixes a b c :: nat
  defines "rc \<equiv> if int a > int b then (if int b > 0 then int b else 0) else int a"
  shows "(if rc > int c then int c else rc) = int (min (min a b) c)"
  by (simp add: rc_def min_def)

lemma light_get_socket_tx_space_eq:
  assumes "ring_ok (tx_ring (descs s sock))" "pool_ok (tx_bufs_pool s)" "sock_of s sock = Inr sk" "0 \<le> tx_space sk"
  shows "light_get_socket_tx_space sock s =
    Inr (int (min (min (room (tx_ring (descs s sock))) (length (pool_free (tx_bufs_pool s)))) (nat (tx_space sk) div 1448)))"
proof -
  let ?r = "tx_ring (descs s sock)" and ?p = "tx_bufs_pool s"
  have wf: "wf_ring ?r" "wf_ring (pool_data ?p)" using assms by (simp_all add: ring_ok_def pool_ok_def)
  have r: "sint (rte_ring_free_count ?r) = int (room ?r)"
    using ring_small [OF wf(1)] by (subst sint_of_small) (simp_all add: rte_ring_free_count_eq wf)
  have p: "sint (rte_mempool_avail_count ?p) = int (length (pool_free ?p))"
    using ring_small [OF wf(2)] assms(2) by (subst sint_of_small) (simp_all add: rte_mempool_avail_count_eq pool_free_def)
  have d: "tx_space sk sdiv 1448 = int (nat (tx_space sk) div 1448)"
    using assms(4) by (cases "tx_space sk = 0") (simp_all add: signed_divide_int_def zdiv_int)
  show ?thesis
    unfolding light_get_socket_tx_space_def light_socket_tx_space_def Let_def r p assms(3) PKT_PAYLOAD_MAX_SIZE_def d
      cbind_simps min_of_three ..
qed

lemma rte_mempool_get_bulk_eq:
  assumes "pool_ok mp" "cnt \<le> length (pool_free mp)" "length tab = cnt"
  shows "rte_mempool_get_bulk lc mp tab (of_nat cnt) =
    (0, take cnt (pool_free mp), mp \<lparr> pool_data := consumed (pool_data mp) (of_nat cnt) \<rparr>)"
proof -
  have "cnt < 2 ^ 32"
    using ring_small(1) [of "pool_data mp"] assms by (simp add: pool_ok_def ring_ok_def pool_free_def)
  then have u: "unat (of_nat cnt :: u32) = cnt" by (intro unat_of_nat_small) simp
  show ?thesis
    using assms u by (simp add: rte_mempool_get_bulk_def rte_mempool_default_cache_def
      mempool_generic_get_def pool_ok_def pool_free_def common_ring_mc_dequeue_eq store_cache_def)
qed

lemma upd_all_simps [simp]: "upd_all [] f h = h" "a \<in> set as \<Longrightarrow> upd_all as f h a = f (h a)"
  "a \<notin> set as \<Longrightarrow> upd_all as f h a = h a"
  by (simp_all add: upd_all_def)

lemma upd_all_Cons: "a \<notin> set as \<Longrightarrow> upd_all as f (h (a := f (h a))) = upd_all (a # as) f h"
  by (auto simp: upd_all_def fun_eq_iff)

lemma fold_upd_mbuf:
  "distinct as \<Longrightarrow> fold (\<lambda>a. upd_mbuf a f) as s = s \<lparr> mbufs := upd_all as f (mbufs s) \<rparr>"
  by (induction as arbitrary: s) (simp_all add: upd_mbuf_def upd_all_Cons)

lemma get_buffers_ok:
  assumes "pool_ok (tx_bufs_pool s)" "cnt \<le> length (pool_free (tx_bufs_pool s))" "distinct (pool_free (tx_bufs_pool s))"
  shows "\<exists>mp. light_get_buffers_bulk_by_proc_id sock cnt pr s =
     (Some (take cnt (pool_free (tx_bufs_pool s))),
      s \<lparr> tx_bufs_pool := mp,
          mbufs := upd_all (take cnt (pool_free (tx_bufs_pool s))) (\<lambda>m. (rte_pktmbuf_reset m) \<lparr> refcnt := 1 \<rparr>) (mbufs s) \<rparr>) \<and>
     pool_ok mp \<and> pool_free mp = drop cnt (pool_free (tx_bufs_pool s)) \<and> pool_cap mp = pool_cap (tx_bufs_pool s)"
proof -
  let ?p = "tx_bufs_pool s"
  let ?mp = "?p \<lparr> pool_data := consumed (pool_data ?p) (of_nat cnt) \<rparr>"
  have "cnt < 2 ^ 32"
    using ring_small(1) [of "pool_data ?p"] assms by (simp add: pool_ok_def ring_ok_def pool_free_def)
  then have u: "unat (of_nat cnt :: u32) = cnt" by (intro unat_of_nat_small) simp
  have mp: "pool_ok ?mp \<and> pool_free ?mp = drop cnt (pool_free ?p) \<and> pool_cap ?mp = pool_cap ?p"
    using assms u consumed_props [of "pool_data ?p" "of_nat cnt"]
    by (simp add: pool_ok_def pool_free_def pool_cap_def ring_ok_consumed contents_consumed ring_ok_def)
  have call: "light_get_buffers_bulk_by_proc_id sock cnt pr s =
     (Some (take cnt (pool_free ?p)), fold (\<lambda>a. upd_mbuf a (\<lambda>m. (rte_pktmbuf_reset m) \<lparr> refcnt := 1 \<rparr>)) (take cnt (pool_free ?p))
        (s \<lparr> tx_bufs_pool := ?mp \<rparr>))"
    using rte_mempool_get_bulk_eq [OF assms(1,2), of "replicate cnt 0" 0]
    by (simp add: light_get_buffers_bulk_by_proc_id_def)
  have d: "distinct (take cnt (pool_free ?p))" using assms(3) by simp
  show ?thesis
    unfolding call fold_upd_mbuf [OF d] using mp by (intro exI [of _ ?mp] conjI) simp_all
qed

lemma filled_simps [simp]: "filled h [] ls = []" "filled h as [] = []"
  "filled h (a # as) (l # ls) = take (nat l) (drop (data_off (h a)) (buf (h a))) @ filled h as ls"
  by (simp_all add: filled_def)

lemma filled_cong: "(\<And>a. a \<in> set as \<Longrightarrow> h' a = h a) \<Longrightarrow> filled h' as ls = filled h as ls"
proof (induction as arbitrary: ls)
  case (Cons a as)
  then show ?case by (cases ls) auto
qed simp

lemma write_data_ok:
  assumes "data_off (mbufs s a) + length bs \<le> length (buf (mbufs s a))"
  shows "\<exists>s'. write_data a bs s = Inr s' \<and> s' = s \<lparr> mbufs := mbufs s' \<rparr> \<and> same_shape (mbufs s) (mbufs s') [a] \<and>
     take (length bs) (drop (data_off (mbufs s a)) (buf (mbufs s' a))) = bs"
  using assms by (simp add: write_data_def Let_def upd_mbuf_def same_shape_def)

lemma fill_bufs_ok:
  assumes "distinct as" "\<forall>a \<in> set as. tx_ready (mbufs s a)" "as \<noteq> [] \<longrightarrow> 1448 * (length as - 1) < length bs"
  shows "\<exists>lens s'. fill_bufs as bs s = Inr (lens, int (min (length bs) (1448 * length as)), s') \<and>
     s' = s \<lparr> mbufs := mbufs s' \<rparr> \<and> same_shape (mbufs s) (mbufs s') as \<and> length lens = length as \<and>
     sum_list lens = int (min (length bs) (1448 * length as)) \<and> (\<forall>l \<in> set lens. 0 < l \<and> l \<le> 1448) \<and>
     filled (mbufs s') as lens = take (1448 * length as) bs"
  using assms
proof (induction as arbitrary: bs s)
  case Nil
  then show ?case by (simp add: same_shape_def)
next
  case (Cons a as)
  have ra: "data_off (mbufs s a) + 1448 \<le> length (buf (mbufs s a))" using Cons.prems(2) by (simp add: tx_ready_def)
  have a: "a \<notin> set as" using Cons.prems(1) by simp
  show ?case
  proof (cases "length bs > 1448")
    case True
    have "length (take 1448 bs) = 1448" using True by simp
    then obtain s1 where w: "write_data a (take 1448 bs) s = Inr s1" "s1 = s \<lparr> mbufs := mbufs s1 \<rparr>"
      "same_shape (mbufs s) (mbufs s1) [a]" "take 1448 (drop (data_off (mbufs s a)) (buf (mbufs s1 a))) = take 1448 bs"
      using write_data_ok [of s a "take 1448 bs"] ra by (metis)
    have rdy: "\<forall>x \<in> set as. tx_ready (mbufs s1 x)"
      using Cons.prems(2) w(3) by (auto simp: tx_ready_def same_shape_def)
    have len: "as \<noteq> [] \<longrightarrow> 1448 * (length as - 1) < length (drop 1448 bs)"
      using Cons.prems(3) by (cases as) auto
    obtain lens s2 where IH: "fill_bufs as (drop 1448 bs) s1 = Inr (lens, int (min (length (drop 1448 bs)) (1448 * length as)), s2)"
      "s2 = s1 \<lparr> mbufs := mbufs s2 \<rparr>" "same_shape (mbufs s1) (mbufs s2) as" "length lens = length as"
      "sum_list lens = int (min (length (drop 1448 bs)) (1448 * length as))" "\<forall>l \<in> set lens. 0 < l \<and> l \<le> 1448"
      "filled (mbufs s2) as lens = take (1448 * length as) (drop 1448 bs)"
      using Cons.IH [OF _ rdy len] Cons.prems(1) by auto
    have m: "1448 + int (min (length (drop 1448 bs)) (1448 * length as)) = int (min (length bs) (1448 * length (a # as)))"
      using True by simp
    have e: "s2 = s \<lparr> mbufs := mbufs s2 \<rparr>" by (subst IH(2), subst w(2)) simp
    have f: "fill_bufs (a # as) bs s = Inr (1448 # lens, int (min (length bs) (1448 * length (a # as))), s2)"
      using True w(1) IH(1) m by (simp add: PKT_PAYLOAD_MAX_SIZE_def)
    have sh: "same_shape (mbufs s) (mbufs s2) (a # as)" using w(3) IH(3) by (simp add: same_shape_def)
    have b: "filled (mbufs s2) (a # as) (1448 # lens) = take (1448 * length (a # as)) bs"
    proof -
      have "mbufs s2 a = mbufs s1 a" "data_off (mbufs s1 a) = data_off (mbufs s a)"
        using IH(3) w(3) a by (simp_all add: same_shape_def)
      then have "filled (mbufs s2) (a # as) (1448 # lens) = take 1448 bs @ take (1448 * length as) (drop 1448 bs)"
        using w(4) IH(7) by simp
      also have "\<dots> = take (1448 + 1448 * length as) bs" by (rule take_add [symmetric])
      finally show ?thesis by simp
    qed
    show ?thesis
      by (rule exI [of _ "1448 # lens"], rule exI [of _ s2], intro conjI f e sh b) (use IH(4-6) m in auto)
  next
    case False
    then have as: "as = []" using Cons.prems(3) by (cases as) auto
    obtain s1 where w: "write_data a bs s = Inr s1" "s1 = s \<lparr> mbufs := mbufs s1 \<rparr>"
      "same_shape (mbufs s) (mbufs s1) [a]" "take (length bs) (drop (data_off (mbufs s a)) (buf (mbufs s1 a))) = bs"
      using write_data_ok [of s a bs] ra False by fastforce
    have "data_off (mbufs s1 a) = data_off (mbufs s a)" using w(3) by (simp add: same_shape_def)
    moreover have "0 < length bs" using Cons.prems(3) by auto
    ultimately show ?thesis
      using False as w by (intro exI [of _ "[int (length bs)]"] exI [of _ s1]) (simp add: PKT_PAYLOAD_MAX_SIZE_def)
  qed
qed

lemma set_lengths_ok:
  assumes "distinct as" "length lens = length as" "\<forall>l \<in> set lens. 0 \<le> l"
  shows "\<exists>s'. set_lengths as lens s = Inr (sum_list lens, s') \<and> s' = s \<lparr> mbufs := mbufs s' \<rparr> \<and>
     (\<forall>a. a \<notin> set as \<longrightarrow> mbufs s' a = mbufs s a) \<and>
     (\<forall>a. buf (mbufs s' a) = buf (mbufs s a) \<and> data_off (mbufs s' a) = data_off (mbufs s a) \<and>
          next_seg (mbufs s' a) = next_seg (mbufs s a)) \<and>
     chain_bytes (mbufs s') as = filled (mbufs s) as lens"
  using assms
proof (induction as arbitrary: lens s)
  case (Cons a as)
  then obtain l ls where lens: "lens = l # ls" by (cases lens) auto
  define s1 where "s1 = upd_mbuf a (\<lambda>m. m \<lparr> data_len := nat l \<rparr>) s"
  have m1: "mbufs s1 = (mbufs s) (a := (mbufs s a) \<lparr> data_len := nat l \<rparr>)" by (simp add: s1_def upd_mbuf_def)
  obtain s' where IH: "set_lengths as ls s1 = Inr (sum_list ls, s')" "s' = s1 \<lparr> mbufs := mbufs s' \<rparr>"
     "\<forall>a. a \<notin> set as \<longrightarrow> mbufs s' a = mbufs s1 a"
     "\<forall>a. buf (mbufs s' a) = buf (mbufs s1 a) \<and> data_off (mbufs s' a) = data_off (mbufs s1 a) \<and>
          next_seg (mbufs s' a) = next_seg (mbufs s1 a)"
     "chain_bytes (mbufs s') as = filled (mbufs s1) as ls"
    using Cons.IH [of ls s1] Cons.prems lens by auto
  have a: "a \<notin> set as" using Cons.prems by simp
  have f: "filled (mbufs s1) as ls = filled (mbufs s) as ls" by (rule filled_cong) (use a m1 in auto)
  have "mbufs s' a = (mbufs s a) \<lparr> data_len := nat l \<rparr>" using IH(3) a m1 by simp
  then have b: "chain_bytes (mbufs s') (a # as) = filled (mbufs s) (a # as) lens"
    using IH(5) f lens by (simp add: seg_bytes_def)
  have e: "s' = s \<lparr> mbufs := mbufs s' \<rparr>" by (subst IH(2)) (simp add: s1_def upd_mbuf_def)
  have c: "set_lengths (a # as) lens s = Inr (sum_list lens, s')" using IH(1) lens by (simp add: s1_def)
  show ?case
    by (rule exI [of _ s'], intro conjI c e b) (use IH(3,4) m1 in auto)
qed simp

lemma enqueue_tx_ok:
  assumes "ring_ok (tx_ring (descs s i))" "length as \<le> room (tx_ring (descs s i))"
  shows "\<exists>rg. light_enqueue_tx_bufs_bulk i as s = (0, upd_desc i (tx_ring_update (\<lambda>_. rg)) s) \<and>
     ring_ok rg \<and> contents rg = contents (tx_ring (descs s i)) @ as \<and> capacity rg = capacity (tx_ring (descs s i))"
proof -
  let ?r = "tx_ring (descs s i)"
  have wf: "wf_ring ?r" using assms(1) by (simp add: ring_ok_def)
  have "length as < 4294967296" using assms(2) ring_small(2) [OF wf] by linarith
  then have u: "unat (of_nat (length as) :: u32) = length as" by (rule unat_of_nat_small)
  then show ?thesis
    using sp_do_enqueue_fixed [OF wf, of as "of_nat (length as)"] assms
    by (intro exI [of _ "published ?r as (of_nat (length as))"])
       (auto simp: light_enqueue_tx_bufs_bulk_def ring_ok_published contents_published_room)
qed

lemma light_send_bulk_ok:
  assumes "ring_ok (tx_ring (descs s i))" "length as \<le> room (tx_ring (descs s i))" "distinct as"
    "length lens = length as" "\<forall>l \<in> set lens. 0 \<le> l" "socket (descs s i) = Some k"
  shows "\<exists>h rg. light_send_bulk i as lens s =
      Inr (0, s \<lparr> mbufs := h, descs := (descs s) (i := (descs s i) \<lparr> tx_ring := rg \<rparr>),
                  socks := (socks s) (k := (socks s k) \<lparr> tx_space := tx_space (socks s k) - sum_list lens \<rparr>) \<rparr>) \<and>
     ring_ok rg \<and> contents rg = contents (tx_ring (descs s i)) @ as \<and>
     (\<forall>a. a \<notin> set as \<longrightarrow> h a = mbufs s a) \<and> (\<forall>a. buf (h a) = buf (mbufs s a) \<and> next_seg (h a) = next_seg (mbufs s a)) \<and>
     chain_bytes h as = filled (mbufs s) as lens \<and> capacity rg = capacity (tx_ring (descs s i))"
proof -
  obtain s1 where l: "set_lengths as lens s = Inr (sum_list lens, s1)" "s1 = s \<lparr> mbufs := mbufs s1 \<rparr>"
     "\<forall>a. a \<notin> set as \<longrightarrow> mbufs s1 a = mbufs s a"
     "\<forall>a. buf (mbufs s1 a) = buf (mbufs s a) \<and> data_off (mbufs s1 a) = data_off (mbufs s a) \<and>
          next_seg (mbufs s1 a) = next_seg (mbufs s a)"
     "chain_bytes (mbufs s1) as = filled (mbufs s) as lens"
    using set_lengths_ok [OF assms(3-5), of s] by blast
  have d: "descs s1 = descs s" "socks s1 = socks s" by (subst l(2), simp)+
  obtain rg where e: "light_enqueue_tx_bufs_bulk i as s1 = (0, upd_desc i (tx_ring_update (\<lambda>_. rg)) s1)"
     "ring_ok rg" "contents rg = contents (tx_ring (descs s i)) @ as" "capacity rg = capacity (tx_ring (descs s i))"
    using enqueue_tx_ok [of s1 i as] assms(1,2) d by auto
  define h where "h = mbufs s1"
  have s1: "s1 = s \<lparr> mbufs := h \<rparr>" using l(2) by (simp add: h_def)
  have "light_send_bulk i as lens s =
      Inr (0, s \<lparr> mbufs := h, descs := (descs s) (i := (descs s i) \<lparr> tx_ring := rg \<rparr>),
                  socks := (socks s) (k := (socks s k) \<lparr> tx_space := tx_space (socks s k) - sum_list lens \<rparr>) \<rparr>)"
    using l(1) e(1) assms(6) unfolding light_send_bulk_def s1
    by (simp add: sub_tx_space_def upd_desc_def upd_sock_def)
  then show ?thesis using e(2-4) l(3-5) by (auto simp: h_def)
qed

lemma cmd_inv_upd_sock [simp]: "cmd_inv (upd_sock k f s) pr held = cmd_inv s pr held"
  by (simp add: cmd_inv_def cmd_bufs_def upd_sock_def)

lemma kick_once:
  assumes "cmd_inv s pr held" "length (contents (command_rings s pr)) < capacity (command_rings s pr)"
    "socket (descs s i) = Some k" "write_done_from_app (socks s k) = 0"
  shows "\<exists>s1. s1 = snd (post_command pr (tx_kick i) (upd_sock k (\<lambda>sk. sk \<lparr> write_done_from_app := 1 \<rparr>) s)) \<and>
     cmd_inv s1 pr held \<and>
     (if pool_free (free_command_pools s pr) = []
      then light_socket_kick_by_proc_id i pr s = Inr (Some (- 1), s1) \<and> queued_cmds s1 pr = queued_cmds s pr
      else light_socket_kick_by_proc_id i pr s = Inr (Some 0, s1) \<and>
           queued_cmds s1 pr = queued_cmds s pr @ [tx_kick i (cmd_mem s (hd (pool_free (free_command_pools s pr))))])"
proof -
  let ?s = "upd_sock k (\<lambda>sk. sk \<lparr> write_done_from_app := 1 \<rparr>) s"
  have same: "free_command_pools ?s = free_command_pools s" "command_rings ?s = command_rings s" "cmd_mem ?s = cmd_mem s"
    by (simp_all add: upd_sock_def)
  have inv: "cmd_inv ?s pr held" using assms(1) by simp
  obtain r s1 where p: "post_command pr (tx_kick i) ?s = (r, s1)" by fastforce
  note o = post_command_outcome [OF inv p]
  have call: "light_socket_kick_by_proc_id i pr s =
    (case r of NoBuffer \<Rightarrow> Inr (Some (- 1), s1) | RingFull \<Rightarrow> Inr (None, s1) | Posted c \<Rightarrow> Inr (Some 0, s1))"
    using assms(3,4) p by (simp add: light_socket_kick_by_proc_id_def)
  show ?thesis
  proof (cases "pool_free (free_command_pools s pr)")
    case Nil
    then have "post_command pr (tx_kick i) ?s = (NoBuffer, ?s)"
      using cmd_get_none [OF inv] same(1) by (simp add: post_command_def)
    then show ?thesis using p call Nil inv same by (auto simp: queued_cmds_def)
  next
    case (Cons c cs)
    obtain s2 where g: "light_get_free_command_buf_by_proc_id pr ?s = (Some c, s2)"
      using cmd_get_some [OF inv, of c cs] Cons same(1) by metis
    have "r = Posted c"
    proof -
      have "r \<noteq> RingFull" "r \<noteq> NoBuffer" using o assms(2) Cons same by auto
      then show ?thesis using p g by (auto simp: post_command_def split: prod.splits if_splits)
    qed
    moreover have "queued_cmds ?s pr = queued_cmds s pr" using same by (simp add: queued_cmds_def)
    ultimately show ?thesis using o p call Cons same by simp
  qed
qed

lemma kick_until_ok:
  assumes "cmd_inv s pr held"
    "write_done_from_app (socks s k) = 0 \<longrightarrow> length (contents (command_rings s pr)) < capacity (command_rings s pr)"
    "socket (descs s i) = Some k"
  shows "\<exists>s1. kick_until i pr s = Some (Inr s1) \<and> cmd_inv s1 pr held \<and> write_done_from_app (socks s1 k) \<noteq> 0 \<and>
     descs s1 = descs s \<and> mbufs s1 = mbufs s \<and> tx_bufs_pool s1 = tx_bufs_pool s \<and>
     tx_space (socks s1 k) = tx_space (socks s k) \<and> fdt s1 = fdt s \<and>
     (\<exists>w. socks s1 = (socks s) (k := (socks s k) \<lparr> write_done_from_app := w \<rparr>)) \<and>
     queued_cmds s1 pr = queued_cmds s pr @
       (if write_done_from_app (socks s k) = 0 \<and> pool_free (free_command_pools s pr) \<noteq> []
        then [tx_kick i (cmd_mem s (hd (pool_free (free_command_pools s pr))))] else []) \<and>
     app_env.more s1 = app_env.more s"
proof (cases "write_done_from_app (socks s k) = 0")
  case False
  then show ?thesis
    using assms by (intro exI [of _ s])
      (auto simp: kick_until.simps light_socket_kick_by_proc_id_def intro!: exI [of _ "write_done_from_app (socks s k)"])
next
  case True
  let ?s = "upd_sock k (\<lambda>sk. sk \<lparr> write_done_from_app := 1 \<rparr>) s"
  obtain s1 where s1: "s1 = snd (post_command pr (tx_kick i) ?s)" "cmd_inv s1 pr held"
     "if pool_free (free_command_pools s pr) = []
      then light_socket_kick_by_proc_id i pr s = Inr (Some (- 1), s1) \<and> queued_cmds s1 pr = queued_cmds s pr
      else light_socket_kick_by_proc_id i pr s = Inr (Some 0, s1) \<and>
           queued_cmds s1 pr = queued_cmds s pr @ [tx_kick i (cmd_mem s (hd (pool_free (free_command_pools s pr))))]"
    using kick_once [OF assms(1) _ assms(3) True] assms(2) True by blast
  have f: "descs s1 = descs s" "mbufs s1 = mbufs s" "tx_bufs_pool s1 = tx_bufs_pool s"
    "write_done_from_app (socks s1 k) = 1" "tx_space (socks s1 k) = tx_space (socks s k)"
    "fdt s1 = fdt s" "socks s1 = (socks s) (k := (socks s k) \<lparr> write_done_from_app := 1 \<rparr>)"
    "app_env.more s1 = app_env.more s"
    unfolding s1(1) by (simp_all add: upd_sock_def)
  have again: "kick_until i pr s1 = Some (Inr s1)"
    using f assms(3) by (simp add: kick_until.simps light_socket_kick_by_proc_id_def)
  show ?thesis
  proof (cases "pool_free (free_command_pools s pr) = []")
    case empty: True
    then have k: "kick_until i pr s = Some (Inr s1)" using s1(3) again by (subst kick_until.simps) simp
    show ?thesis by (rule exI [of _ s1]) (use k s1 f empty in auto)
  next
    case False
    then have k: "kick_until i pr s = Some (Inr s1)" using s1(3) by (subst kick_until.simps) simp
    show ?thesis by (rule exI [of _ s1]) (use k s1 f False True in auto)
  qed
qed

lemma buf_count_arith:
  fixes len sp :: nat
  assumes "c = nat (if int len div 1448 + (if int len mod 1448 > 0 then 1 else 0) > int sp then int sp
                    else int len div 1448 + (if int len mod 1448 > 0 then 1 else 0))"
  shows "c \<le> sp" "c \<noteq> 0 \<Longrightarrow> 1448 * (c - 1) < len" "min len (1448 * c) = min len (1448 * sp)"
    "\<not> (if int len div 1448 + (if int len mod 1448 > 0 then 1 else 0) > int sp then int sp
          else int len div 1448 + (if int len mod 1448 > 0 then 1 else 0)) < 0"
proof -
  define q where "q = len div 1448 + (if len mod 1448 > 0 then 1 else 0)"
  have iq: "int len div 1448 + (if int len mod 1448 > 0 then 1 else 0) = int q"
  proof -
    have "int len mod 1448 = int (len mod 1448)" "int len div 1448 = int (len div 1448)"
      using zmod_int [of len 1448] zdiv_int [of len 1448] by simp_all
    then show ?thesis unfolding q_def by simp
  qed
  have c: "c = (if q > sp then sp else q)" unfolding assms iq by simp
  obtain d m where dm: "len = 1448 * d + m" "m < 1448" "q = d + (if m > 0 then 1 else 0)"
    using that [of "len div 1448" "len mod 1448"] by (simp add: q_def)
  have q1: "len \<le> 1448 * q" "q \<noteq> 0 \<Longrightarrow> 1448 * (q - 1) < len"
    using dm by (auto split: if_splits simp: diff_mult_distrib2)
  show "c \<le> sp" using c by simp
  show "1448 * (c - 1) < len" if "c \<noteq> 0" using c q1 that by (cases "q > sp") auto
  show "min len (1448 * c) = min len (1448 * sp)" using c q1(1) by (cases "q > sp") auto
  show "\<not> (if int len div 1448 + (if int len mod 1448 > 0 then 1 else 0) > int sp then int sp
          else int len div 1448 + (if int len mod 1448 > 0 then 1 else 0)) < 0"
    unfolding iq by simp
qed

lemma send_count_props:
  "nat (send_count bs sp) \<le> sp" "nat (send_count bs sp) \<noteq> 0 \<Longrightarrow> 1448 * (nat (send_count bs sp) - 1) < length bs"
  "min (length bs) (1448 * nat (send_count bs sp)) = min (length bs) (1448 * sp)" "\<not> send_count bs sp < 0"
  using buf_count_arith [where c = "nat (send_count bs sp)" and len = "length bs" and sp = sp]
  by (simp_all only: send_count_def Let_def if_True refl not_False_eq_True)

lemma send_count_two: "1448 < length bs \<Longrightarrow> 2 \<le> sp \<Longrightarrow> 2 \<le> nat (send_count bs sp)"
proof -
  assume a: "1448 < length bs" "2 \<le> sp"
  have "min (length bs) (1448 * nat (send_count bs sp)) > 1448"
    unfolding send_count_props(3) using a by simp
  then show ?thesis by linarith
qed

text \<open>Everything both send functions do before they queue the buffers.\<close>

lemma send_fill_ok:
  assumes ok: "tx_ok s i" and k: "socket (descs s i) = Some k" and sp0: "0 \<le> tx_space (socks s k)"
    and sp: "0 < tx_packets s i k" and ret: "ret = min (length bs) (1448 * tx_packets s i k)"
  obtains bufs lens mp h s2 where
    "light_get_socket_tx_space i s = Inr (int (tx_packets s i k))"
    "tx_wait strict i t0 clock env 0 (int (tx_packets s i k)) s = Some (Inr (Some (int (tx_packets s i k)), s))"
    "light_get_buffers_bulk_by_proc_id i (nat (send_count bs (tx_packets s i k))) pr s = (Some bufs, s2)"
    "fill_bufs bufs bs s2 = Inr (lens, int ret, s \<lparr> tx_bufs_pool := mp, mbufs := h \<rparr>)"
    "length bufs = nat (send_count bs (tx_packets s i k))"
    "bufs = take (length bufs) (pool_free (tx_bufs_pool s))" "length bufs \<le> tx_packets s i k"
    "pool_ok mp" "pool_free mp = drop (length bufs) (pool_free (tx_bufs_pool s))"
    "length lens = length bufs" "sum_list lens = int ret" "\<forall>l \<in> set lens. 0 < l \<and> l \<le> 1448"
    "filled h bufs lens = take ret bs" "\<forall>a. a \<notin> set bufs \<longrightarrow> h a = mbufs s a"
    "\<forall>a \<in> set bufs. data_off (h a) = 128 \<and> 1576 \<le> length (buf (h a)) \<and> next_seg (h a) = None"
proof -
  let ?free = "pool_free (tx_bufs_pool s)" and ?sp = "tx_packets s i k"
  define cnt where "cnt = nat (send_count bs ?sp)"
  note ar = send_count_props [of bs ?sp, folded cnt_def]
  have sk: "sock_of s i = Inr (socks s k)" using k by (simp add: sock_of_def)
  have space: "light_get_socket_tx_space i s = Inr (int ?sp)"
    using light_get_socket_tx_space_eq [OF _ _ sk sp0] ok by (simp add: tx_ok_def tx_packets_def)
  have wait: "tx_wait strict i t0 clock env 0 (int ?sp) s = Some (Inr (Some (int ?sp), s))"
    using sp sk by (subst tx_wait.simps) simp
  define bufs where "bufs = take cnt ?free"
  have cl: "cnt \<le> length ?free" using ar(1) by (auto simp: tx_packets_def)
  have okd: "pool_ok (tx_bufs_pool s)" "distinct ?free" "\<forall>a \<in> set ?free. 1576 \<le> length (buf (mbufs s a))"
    using ok by (auto simp: tx_ok_def)
  have bl: "length bufs = cnt" "distinct bufs" "set bufs \<subseteq> set ?free"
    using cl okd(2) by (auto simp: bufs_def dest: in_set_takeD)
  let ?h = "upd_all bufs (\<lambda>m. (rte_pktmbuf_reset m) \<lparr> refcnt := 1 \<rparr>) (mbufs s)"
  obtain mp where g: "light_get_buffers_bulk_by_proc_id i cnt pr s = (Some bufs, s \<lparr> tx_bufs_pool := mp, mbufs := ?h \<rparr>)"
    "pool_ok mp" "pool_free mp = drop cnt ?free"
    using get_buffers_ok [OF okd(1) cl okd(2), of i pr] by (auto simp: bufs_def)
  let ?s2 = "s \<lparr> tx_bufs_pool := mp, mbufs := ?h \<rparr>"
  have rs: "data_off (?h a) = 128 \<and> 1576 \<le> length (buf (?h a)) \<and> next_seg (?h a) = None" if "a \<in> set bufs" for a
  proof -
    have "1576 \<le> length (buf (mbufs s a))" using okd(3) bl(3) that by blast
    then show ?thesis using that by (simp add: rte_pktmbuf_reset_def RTE_PKTMBUF_HEADROOM_def)
  qed
  then have rdy: "\<forall>a \<in> set bufs. tx_ready (mbufs ?s2 a)" by (fastforce simp: tx_ready_def)
  have need: "bufs \<noteq> [] \<longrightarrow> 1448 * (length bufs - 1) < length bs" using ar(2) bl(1) by auto
  have rc: "min (length bs) (1448 * length bufs) = ret" using ar(3) bl(1) ret by simp
  obtain lens s3 where f: "fill_bufs bufs bs ?s2 = Inr (lens, int ret, s3)" "s3 = ?s2 \<lparr> mbufs := mbufs s3 \<rparr>"
    "same_shape ?h (mbufs s3) bufs" "length lens = length bufs" "sum_list lens = int ret" "\<forall>l \<in> set lens. 0 < l \<and> l \<le> 1448"
    "filled (mbufs s3) bufs lens = take (1448 * length bufs) bs"
    using fill_bufs_ok [OF bl(2) rdy need] rc by auto
  have s3: "s3 = s \<lparr> tx_bufs_pool := mp, mbufs := mbufs s3 \<rparr>" by (subst f(2)) simp
  have tk: "take (1448 * length bufs) bs = take ret bs"
    using rc by (cases "length bs \<le> 1448 * length bufs") auto
  have out: "\<forall>a. a \<notin> set bufs \<longrightarrow> mbufs s3 a = mbufs s a" using f(3) by (simp add: same_shape_def)
  have ins: "\<forall>a \<in> set bufs. data_off (mbufs s3 a) = 128 \<and> 1576 \<le> length (buf (mbufs s3 a)) \<and> next_seg (mbufs s3 a) = None"
    using f(3) rs by (simp add: same_shape_def)
  show thesis
    by (rule that [OF space wait g(1) [unfolded cnt_def] _ bl(1) [unfolded cnt_def] _ _ g(2) _ f(4-6) _ out ins])
      (use f(1) s3 bl(1) g(3) ar(1) f(7) tk in \<open>simp_all add: bufs_def\<close>)
qed

lemma light_send_sock_ok:
  assumes ok: "tx_ok s i" and k: "socket (descs s i) = Some k" and open': "connect_close_signal (socks s k) < 3"
    and sp0: "0 \<le> tx_space (socks s k)" and sp: "0 < tx_packets s i k" and ret: "ret = min (length bs) (1448 * tx_packets s i k)"
    and cmds: "cmd_inv s pr held"
      "write_done_from_app (socks s k) = 0 \<longrightarrow> length (contents (command_rings s pr)) < capacity (command_rings s pr)"
  shows "\<exists>s' cnt. light_send_sock i bs pr t0 clock env s = Inr (int ret, s') \<and> tx_ok s' i \<and>
     contents (tx_ring (descs s' i)) = contents (tx_ring (descs s i)) @ take cnt (pool_free (tx_bufs_pool s)) \<and>
     capacity (tx_ring (descs s' i)) = capacity (tx_ring (descs s i)) \<and>
     pool_free (tx_bufs_pool s') = drop cnt (pool_free (tx_bufs_pool s)) \<and> cnt = nat (send_count bs (tx_packets s i k)) \<and>
     tx_stream s' i = tx_stream s i @ take ret bs \<and> tx_space (socks s' k) = tx_space (socks s k) - int ret \<and>
     write_done_from_app (socks s' k) \<noteq> 0 \<and> cmd_inv s' pr held \<and> fdt s' = fdt s \<and>
     (\<exists>rg. descs s' = (descs s) (i := (descs s i) \<lparr> tx_ring := rg \<rparr>)) \<and>
     (\<exists>w. socks s' = (socks s) (k := (socks s k) \<lparr> tx_space := tx_space (socks s k) - int ret, write_done_from_app := w \<rparr>)) \<and>
     queued_cmds s' pr = queued_cmds s pr @
       (if write_done_from_app (socks s k) = 0 \<and> pool_free (free_command_pools s pr) \<noteq> []
        then [tx_kick i (cmd_mem s (hd (pool_free (free_command_pools s pr))))] else []) \<and>
     (\<forall>a. next_seg (mbufs s' a) = (if a \<in> set (take cnt (pool_free (tx_bufs_pool s))) then None else next_seg (mbufs s a))) \<and>
     app_env.more s' = app_env.more s"
proof -
  let ?free = "pool_free (tx_bufs_pool s)" and ?tx = "tx_ring (descs s i)" and ?sp = "tx_packets s i k"
  obtain bufs lens mp h3 s2 where f: "light_get_socket_tx_space i s = Inr (int ?sp)"
    "tx_wait receive_timeout i t0 clock env 0 (int ?sp) s = Some (Inr (Some (int ?sp), s))"
    "light_get_buffers_bulk_by_proc_id i (nat (send_count bs ?sp)) pr s = (Some bufs, s2)"
    "fill_bufs bufs bs s2 = Inr (lens, int ret, s \<lparr> tx_bufs_pool := mp, mbufs := h3 \<rparr>)"
    "length bufs = nat (send_count bs ?sp)" "bufs = take (length bufs) ?free" "length bufs \<le> ?sp"
    "pool_ok mp" "pool_free mp = drop (length bufs) ?free"
    "length lens = length bufs" "sum_list lens = int ret" "\<forall>l \<in> set lens. 0 < l \<and> l \<le> 1448"
    "filled h3 bufs lens = take ret bs" "\<forall>a. a \<notin> set bufs \<longrightarrow> h3 a = mbufs s a"
    "\<forall>a \<in> set bufs. data_off (h3 a) = 128 \<and> 1576 \<le> length (buf (h3 a)) \<and> next_seg (h3 a) = None"
    by (rule send_fill_ok [OF ok k sp0 sp ret, of receive_timeout t0 clock env pr])
  have sk: "sock_of s i = Inr (socks s k)" using k by (simp add: sock_of_def)
  have dis: "distinct (contents ?tx @ take (length bufs) ?free @ drop (length bufs) ?free)" using ok by (simp add: tx_ok_def)
  then have dis: "distinct (contents ?tx @ bufs @ drop (length bufs) ?free)" using f(6) by simp
  then have bl: "distinct bufs" "set (contents ?tx) \<inter> set bufs = {}" "set bufs \<inter> set (drop (length bufs) ?free) = {}" by auto
  let ?s3 = "s \<lparr> tx_bufs_pool := mp, mbufs := h3 \<rparr>"
  have r3: "ring_ok (tx_ring (descs ?s3 i))" "length bufs \<le> room (tx_ring (descs ?s3 i))" "socket (descs ?s3 i) = Some k"
    "\<forall>l \<in> set lens. 0 \<le> l"
    using ok f(7,12) k by (auto simp: tx_ok_def tx_packets_def)
  obtain h rg where b: "light_send_bulk i bufs lens ?s3 =
      Inr (0, ?s3 \<lparr> mbufs := h, descs := (descs ?s3) (i := (descs ?s3 i) \<lparr> tx_ring := rg \<rparr>),
                  socks := (socks ?s3) (k := (socks ?s3 k) \<lparr> tx_space := tx_space (socks ?s3 k) - sum_list lens \<rparr>) \<rparr>)"
     "ring_ok rg" "contents rg = contents ?tx @ bufs"
     "\<forall>a. a \<notin> set bufs \<longrightarrow> h a = h3 a" "chain_bytes h bufs = take ret bs" "capacity rg = capacity ?tx"
     "\<forall>a. next_seg (h a) = next_seg (h3 a)"
    using light_send_bulk_ok [OF r3(1,2) bl(1) f(10) r3(4,3)] f(13) by auto
  let ?s4 = "s \<lparr> tx_bufs_pool := mp, mbufs := h, descs := (descs s) (i := (descs s i) \<lparr> tx_ring := rg \<rparr>),
                  socks := (socks s) (k := (socks s k) \<lparr> tx_space := tx_space (socks s k) - int ret \<rparr>) \<rparr>"
  have b4: "light_send_bulk i bufs lens ?s3 = Inr (0, ?s4)" using b(1) f(11) by simp
  have c4: "cmd_inv ?s4 pr held"
    "write_done_from_app (socks ?s4 k) = 0 \<longrightarrow> length (contents (command_rings ?s4 pr)) < capacity (command_rings ?s4 pr)"
    "socket (descs ?s4 i) = Some k" "queued_cmds ?s4 pr = queued_cmds s pr"
    "free_command_pools ?s4 = free_command_pools s" "cmd_mem ?s4 = cmd_mem s"
    "write_done_from_app (socks ?s4 k) = write_done_from_app (socks s k)"
    using cmds k by (simp_all add: cmd_inv_def cmd_bufs_def queued_cmds_def)
  obtain s5 where kk: "kick_until i pr ?s4 = Some (Inr s5)" "cmd_inv s5 pr held" "write_done_from_app (socks s5 k) \<noteq> 0"
     "descs s5 = descs ?s4" "mbufs s5 = mbufs ?s4" "tx_bufs_pool s5 = tx_bufs_pool ?s4"
     "tx_space (socks s5 k) = tx_space (socks ?s4 k)" "fdt s5 = fdt ?s4"
     "\<exists>w. socks s5 = (socks ?s4) (k := (socks ?s4 k) \<lparr> write_done_from_app := w \<rparr>)"
     "queued_cmds s5 pr = queued_cmds s pr @
       (if write_done_from_app (socks s k) = 0 \<and> pool_free (free_command_pools s pr) \<noteq> []
        then [tx_kick i (cmd_mem s (hd (pool_free (free_command_pools s pr))))] else [])"
     "app_env.more s5 = app_env.more ?s4"
    using kick_until_ok [OF c4(1-3)] unfolding c4(4-7) by blast
  have call: "light_send_sock i bs pr t0 clock env s = Inr (int ret, s5)"
    using f(1-4) send_count_props(4) [of bs ?sp] b4 kk(1) sk open'
    unfolding light_send_sock_def PKT_PAYLOAD_MAX_SIZE_def send_count_def Let_def
    by (simp add: loop_res_def Let_def)
  have other: "h a = mbufs s a" if "a \<notin> set bufs" for a using that b(4) f(14) by simp
  have old: "chain_bytes h (contents ?tx) = chain_bytes (mbufs s) (contents ?tx)"
    by (rule chain_bytes_cong) (metis other bl(2) disjoint_iff)
  have str: "tx_stream s5 i = tx_stream s i @ take ret bs"
    using kk(4,5) b(3,5) old by (simp add: tx_stream_def)
  have tail: "\<forall>a \<in> set (drop (length bufs) ?free). 1576 \<le> length (buf (h a))"
  proof
    fix a assume a: "a \<in> set (drop (length bufs) ?free)"
    then have "h a = mbufs s a" "a \<in> set ?free" using other bl(3) by (auto dest: in_set_dropD)
    then show "1576 \<le> length (buf (h a))" using ok by (simp add: tx_ok_def)
  qed
  have tok: "tx_ok s5 i" using kk(4-6) f(8,9) b(2,3) tail dis by (simp add: tx_ok_def)
  have nx: "\<forall>a. next_seg (mbufs s5 a) = (if a \<in> set (take (length bufs) ?free) then None else next_seg (mbufs s a))"
    using kk(5) b(7) f(14,15) unfolding f(6) [symmetric] by simp
  show ?thesis
    by (rule exI [of _ s5], rule exI [of _ "length bufs"], intro conjI call tok str kk(2,3,10) nx)
       (use kk(4,6-9,11) f(5,6,9) b(3,6) in auto)
qed

lemma packets_fit: "packets bs \<le> sp \<Longrightarrow> length bs \<le> 1448 * sp"
  unfolding packets_def by linarith

lemma send_count_packets: "packets bs \<le> sp \<Longrightarrow> nat (send_count bs sp) \<le> packets bs"
proof -
  assume p: "packets bs \<le> sp"
  let ?c = "nat (send_count bs sp)"
  have "?c = 0 \<or> 1448 * (?c - 1) < length bs" using send_count_props(2) by blast
  then show ?thesis unfolding packets_def by linarith
qed

lemma target_sock_frame:
  assumes "fdt s' = fdt s" "descs s' = (descs s) (i := (descs s i) \<lparr> tx_ring := rg \<rparr>)"
    "socks s' = (socks s) (k := (socks s k) \<lparr> tx_space := n, write_done_from_app := w \<rparr>)"
  shows "target_sock fd s' = target_sock fd s"
proof -
  have p: "proc_id (descs s' j) = proc_id (descs s j)" "socket (descs s' j) = socket (descs s j)"
    "multicore_socket_copies (socks s' j) = multicore_socket_copies (socks s j)" for j
    by (simp_all add: assms(2,3))
  show ?thesis
  proof (cases "light_fd_to_socket_epoll_index (fdt s) fd")
    case (Inr it)
    obtain idx ty where "it = (idx, ty)" by fastforce
    then show ?thesis
      using Inr by (cases "socket (descs s (nat idx))") (simp_all add: target_sock_def assms(1) sock_of_def p cong: if_cong)
  qed (simp add: target_sock_def assms(1))
qed

lemma writev_loop_ok:
  assumes "target_sock fd s = Inr (i, pr)" "tx_ok s i" "socket (descs s i) = Some k"
    "connect_close_signal (socks s k) < 3" "0 \<le> tx_space (socks s k)" "sum_list (map packets iov) \<le> tx_packets s i k"
    "\<forall>bs \<in> set iov. bs \<noteq> []" "cmd_inv s pr held"
    "write_done_from_app (socks s k) = 0 \<longrightarrow> length (contents (command_rings s pr)) < capacity (command_rings s pr)"
  shows "\<exists>s'. writev_loop fd t0 clock env j retlen iov s = Inr (retlen + int (length (concat iov)), s') \<and>
     tx_ok s' i \<and> tx_stream s' i = tx_stream s i @ concat iov"
  using assms
proof (induction iov arbitrary: s j retlen)
  case (Cons bs iov)
  let ?sp = "tx_packets s i k"
  have pk: "packets bs + sum_list (map packets iov) \<le> ?sp" using Cons.prems(6) by simp
  have ne: "0 < length bs" using Cons.prems(7) by simp
  have len: "length bs \<le> 1448 * packets bs" by (rule packets_fit) simp
  have pos: "0 < packets bs" using ne len by linarith
  have all: "min (length bs) (1448 * ?sp) = length bs" using packets_fit [of bs ?sp] pk by simp
  obtain s1 cnt where s1: "light_send_sock i bs pr (t0 j) (clock j) (env j) s = Inr (int (length bs), s1)" "tx_ok s1 i"
     "contents (tx_ring (descs s1 i)) = contents (tx_ring (descs s i)) @ take cnt (pool_free (tx_bufs_pool s))"
     "capacity (tx_ring (descs s1 i)) = capacity (tx_ring (descs s i))"
     "pool_free (tx_bufs_pool s1) = drop cnt (pool_free (tx_bufs_pool s))" "cnt = nat (send_count bs ?sp)"
     "tx_stream s1 i = tx_stream s i @ take (length bs) bs" "tx_space (socks s1 k) = tx_space (socks s k) - int (length bs)"
     "write_done_from_app (socks s1 k) \<noteq> 0" "cmd_inv s1 pr held" "fdt s1 = fdt s"
     "\<exists>rg. descs s1 = (descs s) (i := (descs s i) \<lparr> tx_ring := rg \<rparr>)"
     "\<exists>w. socks s1 = (socks s) (k := (socks s k) \<lparr> tx_space := tx_space (socks s k) - int (length bs), write_done_from_app := w \<rparr>)"
    using light_send_sock_ok [OF Cons.prems(2-5) _ all [symmetric] Cons.prems(8,9), of "t0 j" "clock j" "env j"] pk pos by auto
  have send: "light_send fd bs (t0 j) (clock j) (env j) s = Inr (int (length bs), s1)"
    using Cons.prems(1) s1(1) by (simp add: light_send_def)
  have c: "cnt \<le> packets bs" using send_count_packets [of bs ?sp] pk s1(6) by simp
  have tgt: "target_sock fd s1 = Inr (i, pr)" using target_sock_frame s1(11-13) Cons.prems(1) by metis
  have k1: "socket (descs s1 i) = Some k" "connect_close_signal (socks s1 k) < 3" using s1(12,13) Cons.prems(3,4) by auto
  have space: "1448 * ?sp \<le> nat (tx_space (socks s k))" unfolding tx_packets_def by linarith
  then have nn: "0 \<le> tx_space (socks s1 k)" using s1(8) len pk Cons.prems(5) by linarith
  have "?sp - packets bs \<le> nat (tx_space (socks s1 k)) div 1448"
    using space s1(8) len pk Cons.prems(5) by linarith
  moreover have "?sp - packets bs \<le> room (tx_ring (descs s1 i))"
    using c s1(3,4) by (auto simp: room_def tx_packets_def)
  moreover have "?sp - packets bs \<le> length (pool_free (tx_bufs_pool s1))"
    using c s1(5) by (auto simp: tx_packets_def)
  ultimately have "?sp - packets bs \<le> tx_packets s1 i k" by (simp add: tx_packets_def)
  then have pk1: "sum_list (map packets iov) \<le> tx_packets s1 i k" using pk by linarith
  obtain s' where IH: "writev_loop fd t0 clock env (j + 1) (retlen + int (length bs)) iov s1 =
      Inr (retlen + int (length bs) + int (length (concat iov)), s')" "tx_ok s' i" "tx_stream s' i = tx_stream s1 i @ concat iov"
    using Cons.IH [OF tgt s1(2) k1 nn pk1 _ s1(10), of "j + 1" "retlen + int (length bs)"] Cons.prems(7) s1(9) by auto
  then show ?case using send ne s1(7) by (intro exI [of _ s']) simp
qed simp

lemma kick_until_total: "kick_until i pr s \<noteq> None"
proof -
  have again: "kick_until i pr (upd_sock k (\<lambda>sk. sk \<lparr> write_done_from_app := 1 \<rparr>) s) \<noteq> None"
    if "socket (descs s i) = Some k" for k
    using that by (subst kick_until.simps) (simp add: light_socket_kick_by_proc_id_def upd_sock_def)
  have nb: "s1 = s0" if "post_command pr f s0 = (NoBuffer, s1)" for f s1 and s0 :: "'a app_env_scheme"
    using that by (auto simp: post_command_def light_get_free_command_buf_by_proc_id_def Let_def split: prod.splits if_splits)
  show ?thesis
  proof (cases "socket (descs s i)")
    case None
    then show ?thesis by (subst kick_until.simps) (simp add: light_socket_kick_by_proc_id_def)
  next
    case (Some k)
    then show ?thesis
      using again [OF Some] nb
      by (subst kick_until.simps) (auto simp: light_socket_kick_by_proc_id_def split: prod.split post_result.split)
  qed
qed

lemma demo_tx_cmds:
  "free_command_pools demo_tx = (\<lambda>_. pool_of 3 0 [6, 7])" "command_rings demo_tx = (\<lambda>_. ring_of 1 0 [])"
  "tx_bufs_pool demo_tx = pool_of 3 0 [20, 21, 22]" "tx_ring (demo_desc rx) = ring_of 2 0 []"
  by (simp_all add: demo_tx_def demo_app_def cmd_env.defs demo_env_def demo_desc_def)

lemma demo_tx_ok:
  "tx_ok demo_tx 3" "socket (descs demo_tx 3) = Some 3" "connect_close_signal (socks demo_tx 3) < 3"
  "0 \<le> tx_space (socks demo_tx 3)" "tx_packets demo_tx 3 3 = 3" "cmd_inv demo_tx 0 []"
  "length (contents (command_rings demo_tx 0)) < capacity (command_rings demo_tx 0)"
  "target_sock 0 demo_tx = Inr (3, 0)" "tx_stream demo_tx 3 = []"
proof -
  note rings = ring_of_ok [of 2 "[]" "0 :: addr"] ring_of_ok [of 1 "[]" "0 :: addr"]
    pool_of_ok [of 3 "[20, 21, 22]" "0 :: addr"] pool_of_ok [of 3 "[6, 7]" "0 :: addr"]
  have d: "descs demo_tx i = demo_desc []" "socks demo_tx k = (demo_sock 0) \<lparr> tx_space := 100000 \<rparr>"
    "mbufs demo_tx a = demo_mbuf (replicate 1600 0) None" "fdt demo_tx = fdt (demo_app [] 0)" for i k a
    by (simp_all add: demo_tx_def)
  show "tx_ok demo_tx 3" using rings by (simp add: tx_ok_def d demo_tx_cmds demo_mbuf_def)
  show "socket (descs demo_tx 3) = Some 3" "connect_close_signal (socks demo_tx 3) < 3" "0 \<le> tx_space (socks demo_tx 3)"
    by (simp_all add: d)
  show "tx_packets demo_tx 3 3 = 3" using rings by (simp add: tx_packets_def d demo_tx_cmds room_def)
  show "cmd_inv demo_tx 0 []" using rings by (simp add: cmd_inv_def cmd_bufs_def demo_tx_cmds)
  show "length (contents (command_rings demo_tx 0)) < capacity (command_rings demo_tx 0)" using rings by (simp add: demo_tx_cmds)
  show "target_sock 0 demo_tx = Inr (3, 0)"
    by (simp add: target_sock_def d light_fd_to_socket_epoll_index_def aget_def LIGHT_CONNECTION_POOL_SIZE_def sock_of_def)
  show "tx_stream demo_tx 3 = []" using rings by (simp add: tx_stream_def d demo_tx_cmds)
qed

section \<open>Properties\<close>





text \<open>C27. The number of packets a socket accepts at once is the smallest of the free slots of its
  transmit ring, the free buffers and the whole packets in its window; it is never negative while
  the window is not.\<close>

theorem light_get_socket_tx_space_bounds:
  assumes "ring_ok (tx_ring (descs s i))" "pool_ok (tx_bufs_pool s)" "sock_of s i = Inr sk" "0 \<le> tx_space sk"
  shows "\<exists>n. light_get_socket_tx_space i s = Inr (int n) \<and> n \<le> room (tx_ring (descs s i)) \<and>
     n \<le> length (pool_free (tx_bufs_pool s)) \<and> 1448 * int n \<le> tx_space sk \<and>
     (n = room (tx_ring (descs s i)) \<or> n = length (pool_free (tx_bufs_pool s)) \<or> tx_space sk < 1448 * (int n + 1))"
proof -
  define r f d where "r = room (tx_ring (descs s i))" and "f = length (pool_free (tx_bufs_pool s))"
    and "d = nat (tx_space sk) div 1448"
  obtain m where m: "nat (tx_space sk) = 1448 * d + m" "m < 1448"
    using that [of "nat (tx_space sk) mod 1448"] by (simp add: d_def)
  then have t: "tx_space sk = 1448 * int d + int m" using assms(4) by linarith
  have d: "1448 * int d \<le> tx_space sk" and d': "tx_space sk < 1448 * (int d + 1)" using t m(2) by simp_all
  define n where "n = min (min r f) d"
  have n: "n \<le> r" "n \<le> f" "n \<le> d" "n = r \<or> n = f \<or> n = d" by (auto simp: n_def min_def)
  have "1448 * int n \<le> tx_space sk" using d n(3) by linarith
  moreover have "n = r \<or> n = f \<or> tx_space sk < 1448 * (int n + 1)" using n(4) d' by blast
  moreover have "light_get_socket_tx_space i s = Inr (int n)"
    using light_get_socket_tx_space_eq [OF assms] by (simp only: n_def r_def f_def d_def)
  ultimately show ?thesis using n(1,2) unfolding r_def f_def by blast
qed

theorem light_get_socket_tx_space_bounds_witness:
  "\<exists>n. light_get_socket_tx_space 3 demo_tx = Inr (int n) \<and> n \<le> 3"
  using light_get_socket_tx_space_bounds [of demo_tx 3 "(demo_sock 0) \<lparr> tx_space := 100000 \<rparr>"] demo_tx_ok(1)
    pool_of_ok [of 3 "[20, 21, 22]" "0 :: addr"]
  by (auto simp: tx_ok_def sock_of_def demo_tx_def demo_tx_cmds [unfolded demo_tx_def])


text \<open>A kick can be lost for good: without a free command buffer the loop ends with the flag set but
  no command queued, and while the flag stays set no later kick queues one either.\<close>

theorem kick_lost_without_command_buffer:
  fixes s :: "'z app_env_scheme"
  assumes "cmd_inv s pr held" "socket (descs s i) = Some k" "write_done_from_app (socks s k) = 0"
    "pool_free (free_command_pools s pr) = []"
  shows "\<exists>s1. kick_until i pr s = Some (Inr s1) \<and> write_done_from_app (socks s1 k) = 1 \<and>
     command_rings s1 = command_rings s \<and> cmd_mem s1 = cmd_mem s \<and>
     (\<forall>s2 :: 'z app_env_scheme. socket (descs s2 i) = Some k \<and> write_done_from_app (socks s2 k) = 1 \<longrightarrow> kick_until i pr s2 = Some (Inr s2))"
proof -
  let ?s = "upd_sock k (\<lambda>sk. sk \<lparr> write_done_from_app := 1 \<rparr>) s"
  have again: "kick_until i pr s2 = Some (Inr s2)" if "socket (descs s2 i) = Some k" "write_done_from_app (socks s2 k) = 1"
    for s2 :: "'z app_env_scheme"
    using that by (subst kick_until.simps) (simp add: light_socket_kick_by_proc_id_def)
  have pools: "free_command_pools ?s = free_command_pools s" "command_rings ?s = command_rings s" "cmd_mem ?s = cmd_mem s"
    "socket (descs ?s i) = Some k" "write_done_from_app (socks ?s k) = 1"
    using assms(2) by (simp_all add: upd_sock_def)
  have "post_command pr (tx_kick i) ?s = (NoBuffer, ?s)"
    using cmd_get_none [of ?s pr held] assms(1,4) pools(1) by (simp add: post_command_def)
  then have "kick_until i pr s = kick_until i pr ?s"
    using assms(2,3) by (subst kick_until.simps) (simp add: light_socket_kick_by_proc_id_def)
  then have "kick_until i pr s = Some (Inr ?s)" using again [OF pools(4,5)] by simp
  then show ?thesis by (intro exI [of _ ?s]) (simp add: pools again)
qed

theorem kick_lost_without_command_buffer_witness:
  "\<exists>s1. kick_until 3 0 (demo_tx \<lparr> free_command_pools := (\<lambda>_. pool_of 3 0 []) \<rparr>) = Some (Inr s1) \<and>
     write_done_from_app (socks s1 3) = 1 \<and> contents (command_rings s1 0) = []"
proof -
  let ?s = "demo_tx \<lparr> free_command_pools := (\<lambda>_. pool_of 3 0 []) \<rparr>"
  note rings = ring_of_ok [of 1 "[]" "0 :: addr"] pool_of_ok [of 3 "[]" "0 :: addr"]
  have "cmd_inv ?s 0 []" using rings by (simp add: cmd_inv_def cmd_bufs_def demo_tx_cmds)
  moreover have "write_done_from_app (socks ?s 3) = 0" by (simp add: demo_tx_def demo_sock_def)
  ultimately show ?thesis
    using kick_lost_without_command_buffer [of ?s 0 "[]" 3 3] demo_tx_ok(2) rings by (auto simp: demo_tx_cmds)
qed

lemma sendto_run:
  assumes ok: "tx_ok s i" and k: "socket (descs s i) = Some k" and open': "connect_close_signal (socks s k) < 3"
    and sp0: "0 \<le> tx_space (socks s k)" and sp: "0 < tx_packets s i k" and ret: "ret = min (length bs) (1448 * tx_packets s i k)"
  obtains bufs lens mp h where
    "light_sendto_sock i bs dests pr t0 clock env s =
       cbind (light_sendto_bulk i bufs lens dests (s \<lparr> tx_bufs_pool := mp, mbufs := h \<rparr>)) (\<lambda>(rc, s4).
         if rc \<noteq> 0 then cbind (release_bufs (tx_packets s i k) bufs s4) (\<lambda>s5. Inr (- 1, s5))
         else cbind (loop_res (kick_until i pr s4)) (\<lambda>k. cbind k (\<lambda>s5. Inr (int ret, s5))))"
    "length bufs = nat (send_count bs (tx_packets s i k))" "bufs = take (length bufs) (pool_free (tx_bufs_pool s))"
    "length lens = length bufs" "sum_list lens = int ret" "\<forall>l \<in> set lens. 0 < l \<and> l \<le> 1448"
    "filled h bufs lens = take ret bs" "\<forall>a. a \<notin> set bufs \<longrightarrow> h a = mbufs s a"
    "\<forall>a \<in> set bufs. data_off (h a) = 128 \<and> 1576 \<le> length (buf (h a)) \<and> next_seg (h a) = None"
    "pool_ok mp" "pool_free mp = drop (length bufs) (pool_free (tx_bufs_pool s))" "length bufs \<le> tx_packets s i k"
proof -
  let ?sp = "tx_packets s i k"
  obtain bufs lens mp h s2 where f: "light_get_socket_tx_space i s = Inr (int ?sp)"
    "tx_wait send_timeout i t0 clock env 0 (int ?sp) s = Some (Inr (Some (int ?sp), s))"
    "light_get_buffers_bulk_by_proc_id i (nat (send_count bs ?sp)) pr s = (Some bufs, s2)"
    "fill_bufs bufs bs s2 = Inr (lens, int ret, s \<lparr> tx_bufs_pool := mp, mbufs := h \<rparr>)"
    "length bufs = nat (send_count bs ?sp)" "bufs = take (length bufs) (pool_free (tx_bufs_pool s))" "length bufs \<le> ?sp"
    "pool_ok mp" "pool_free mp = drop (length bufs) (pool_free (tx_bufs_pool s))"
    "length lens = length bufs" "sum_list lens = int ret" "\<forall>l \<in> set lens. 0 < l \<and> l \<le> 1448"
    "filled h bufs lens = take ret bs" "\<forall>a. a \<notin> set bufs \<longrightarrow> h a = mbufs s a"
    "\<forall>a \<in> set bufs. data_off (h a) = 128 \<and> 1576 \<le> length (buf (h a)) \<and> next_seg (h a) = None"
    by (rule send_fill_ok [OF ok k sp0 sp ret, of send_timeout t0 clock env pr])
  have sk: "sock_of s i = Inr (socks s k)" using k by (simp add: sock_of_def)
  show thesis
    by (rule that [OF _ f(5,6,10,11,12,13,14,15,8,9,7)])
      (use f(1-4) send_count_props(4) [of bs ?sp] sk open' in
        \<open>simp add: light_sendto_sock_def PKT_PAYLOAD_MAX_SIZE_def send_count_def Let_def loop_res_def cong: if_cong\<close>)
qed

lemma store_addr_cases:
  "store_addr a d s = Inl OutOfBounds \<or> (\<exists>s1. store_addr a d s = Inr s1)"
  by (simp add: store_addr_def Let_def)

text \<open>A datagram that needs two packets makes \<open>light_sendto\<close> read beyond the one destination address its
  caller passes: the address pointer moves on with every buffer.\<close>

theorem light_sendto_two_packets_out_of_bounds:
  assumes "target_sock fd s = Inr (i, pr)" "tx_ok s i" "socket (descs s i) = Some k" "connect_close_signal (socks s k) < 3"
    "0 \<le> tx_space (socks s k)" "2 \<le> tx_packets s i k" "1448 < length bs"
  shows "light_sendto fd bs [d] t0 clock env s = Inl OutOfBounds"
proof -
  have sp: "0 < tx_packets s i k" using assms(6) by simp
  obtain bufs lens mp h where r:
    "light_sendto_sock i bs [d] pr t0 clock env s =
       cbind (light_sendto_bulk i bufs lens [d] (s \<lparr> tx_bufs_pool := mp, mbufs := h \<rparr>)) (\<lambda>(rc, s4).
         if rc \<noteq> 0 then cbind (release_bufs (tx_packets s i k) bufs s4) (\<lambda>s5. Inr (- 1, s5))
         else cbind (loop_res (kick_until i pr s4)) (\<lambda>ka. cbind ka (\<lambda>s5. Inr (int (min (length bs) (1448 * tx_packets s i k)), s5))))"
    "length bufs = nat (send_count bs (tx_packets s i k))" "length lens = length bufs"
    by (rule sendto_run [OF assms(2-5) sp refl, where bs = bs and dests = "[d]"], rule that)
  obtain a b rest where b: "bufs = a # b # rest"
    using r(2) send_count_two [OF assms(7,6)] by (cases bufs; cases "tl bufs") auto
  obtain l l2 ls where l: "lens = l # l2 # ls" using r(3) b by (cases lens; cases "tl lens") auto
  have "set_lengths_to bufs lens [d] x = Inl OutOfBounds" for x :: "'a app_env_scheme"
    using store_addr_cases [of a d "upd_mbuf a (\<lambda>m. m \<lparr> data_len := nat l \<rparr>) x"] by (auto simp: b l)
  then show ?thesis using assms(1) r(1) by (simp add: light_sendto_def light_sendto_bulk_def)
qed

theorem light_sendto_two_packets_out_of_bounds_witness:
  "light_sendto 0 (replicate 1449 0) [replicate 16 1] \<lparr> tv_sec = 0, tv_usec = 0 \<rparr> (\<lambda>_. \<lparr> tv_sec = 0, tv_usec = 0 \<rparr>)
     (\<lambda>_ s. s) demo_tx = Inl OutOfBounds"
  using light_sendto_two_packets_out_of_bounds [OF demo_tx_ok(8,1-4), of "replicate 1449 0"] demo_tx_ok(5) by simp

end
