(* ===== verification/Tailq.thy ===== *)
theory Tailq
  imports App_State
begin

text \<open>
  The intrusive tail queues of \<open>sys/queue.h\<close> that link the descriptors of one epoll object
  (\<open>socket_list\<close> with the entries \<open>socket_list_entry\<close>).  A descriptor has a single entry, so the
  pointers are modelled as they are; the lemmas show on which lists they implement append and
  removal, and what else they touch.
\<close>

section \<open>Pointers\<close>

text \<open>The address of a pointer variable: the first pointer of a head, or the next pointer of an entry.\<close>

datatype tqref = TqNull | TqHead nat | TqNext nat

record tailq =
  tqh_first :: "nat \<Rightarrow> nat option"
  tqh_last :: "nat \<Rightarrow> tqref"
  tqe_next :: "nat \<Rightarrow> nat option"
  tqe_prev :: "nat \<Rightarrow> tqref"

definition tq_store :: "tqref \<Rightarrow> nat option \<Rightarrow> tailq \<Rightarrow> tailq c_res" where
  "tq_store r v q =
     (case r of TqNull \<Rightarrow> Inl BadPointer
      | TqHead e \<Rightarrow> Inr (q \<lparr> tqh_first := (tqh_first q) (e := v) \<rparr>)
      | TqNext d \<Rightarrow> Inr (q \<lparr> tqe_next := (tqe_next q) (d := v) \<rparr>))"

definition TAILQ_INIT :: "nat \<Rightarrow> tailq \<Rightarrow> tailq" where
  "TAILQ_INIT e q = q \<lparr> tqh_first := (tqh_first q) (e := None), tqh_last := (tqh_last q) (e := TqHead e) \<rparr>"

definition TAILQ_INSERT_TAIL :: "nat \<Rightarrow> nat \<Rightarrow> tailq \<Rightarrow> tailq c_res" where
  "TAILQ_INSERT_TAIL e d q =
     (let q1 = q \<lparr> tqe_next := (tqe_next q) (d := None), tqe_prev := (tqe_prev q) (d := tqh_last q e) \<rparr>
      in cbind (tq_store (tqh_last q1 e) (Some d) q1) (\<lambda>q2.
         Inr (q2 \<lparr> tqh_last := (tqh_last q2) (e := TqNext d) \<rparr>)))"

definition TAILQ_REMOVE :: "nat \<Rightarrow> nat \<Rightarrow> tailq \<Rightarrow> tailq c_res" where
  "TAILQ_REMOVE e d q =
     (let q1 = (case tqe_next q d of
                  Some n \<Rightarrow> q \<lparr> tqe_prev := (tqe_prev q) (n := tqe_prev q d) \<rparr>
                | None \<Rightarrow> q \<lparr> tqh_last := (tqh_last q) (e := tqe_prev q d) \<rparr>)
      in tq_store (tqe_prev q1 d) (tqe_next q1 d) q1)"

text \<open>\<open>memset\<close> of an entry to zero.\<close>

definition tq_clear_entry :: "nat \<Rightarrow> tailq \<Rightarrow> tailq" where
  "tq_clear_entry d q = q \<lparr> tqe_next := (tqe_next q) (d := None), tqe_prev := (tqe_prev q) (d := TqNull) \<rparr>"

section \<open>The list behind the pointers\<close>

definition tq_load :: "tailq \<Rightarrow> tqref \<Rightarrow> nat option" where
  "tq_load q r = (case r of TqNull \<Rightarrow> None | TqHead e \<Rightarrow> tqh_first q e | TqNext d \<Rightarrow> tqe_next q d)"

fun tq_seg :: "tailq \<Rightarrow> tqref \<Rightarrow> nat list \<Rightarrow> tqref \<Rightarrow> bool" where
  "tq_seg q r [] l \<longleftrightarrow> r = l"
| "tq_seg q r (d # ds) l \<longleftrightarrow> tq_load q r = Some d \<and> tqe_prev q d = r \<and> tq_seg q (TqNext d) ds l"

definition tq_list :: "tailq \<Rightarrow> nat \<Rightarrow> nat list \<Rightarrow> bool" where
  "tq_list q e ds \<longleftrightarrow> distinct ds \<and> tq_seg q (TqHead e) ds (tqh_last q e) \<and> tq_load q (tqh_last q e) = None"

section \<open>Lemmas\<close>

lemma tq_load_simps [simp]:
  "tq_load q (TqHead e) = tqh_first q e" "tq_load q (TqNext d) = tqe_next q d"
  by (simp_all add: tq_load_def)

lemma tq_seg_end: "tq_seg q r ds l \<Longrightarrow> l = (if ds = [] then r else TqNext (last ds))"
  by (induction ds arbitrary: r) auto

lemma tq_seg_append: "tq_seg q r (as @ bs) l \<longleftrightarrow> (\<exists>k. tq_seg q r as k \<and> tq_seg q k bs l)"
  by (induction as arbitrary: r) auto

lemma tq_seg_cong:
  assumes "ds \<noteq> [] \<Longrightarrow> tq_load q' r = tq_load q r" "\<forall>d \<in> set ds. tqe_prev q' d = tqe_prev q d"
    "\<forall>d \<in> set (butlast ds). tqe_next q' d = tqe_next q d"
  shows "tq_seg q' r ds l = tq_seg q r ds l"
  using assms
proof (induction ds arbitrary: r)
  case (Cons d ds)
  have "tq_seg q' (TqNext d) ds l = tq_seg q (TqNext d) ds l"
    by (rule Cons.IH) (use Cons.prems in \<open>auto split: if_splits\<close>)
  then show ?case using Cons.prems by simp
qed simp

lemma last_not_butlast: "distinct ds \<Longrightarrow> ds \<noteq> [] \<Longrightarrow> last ds \<notin> set (butlast ds)"
  by (induction ds rule: rev_induct) auto

lemma tq_init_list: "tq_list (TAILQ_INIT e q) e []"
  by (simp add: tq_list_def TAILQ_INIT_def)

text \<open>Storing through the end of a segment does not change the segment.\<close>

lemma tq_seg_store:
  assumes "tq_seg q (TqHead e) as k" "distinct as" "tq_store k v q = Inr q'"
  shows "tq_seg q' (TqHead e) as k"
proof -
  have k: "k = (if as = [] then TqHead e else TqNext (last as))" using tq_seg_end assms(1) by blast
  have "tq_seg q' (TqHead e) as k = tq_seg q (TqHead e) as k"
    by (rule tq_seg_cong) (use assms(2,3) k last_not_butlast [of as] in \<open>auto simp: tq_store_def split: if_splits\<close>)
  then show ?thesis using assms(1) by simp
qed

lemma tq_store_ok: "tq_seg q (TqHead e) as k \<Longrightarrow> \<exists>q'. tq_store k v q = Inr q'"
  using tq_seg_end [of q "TqHead e" as k] by (auto simp: tq_store_def)

lemma tq_store_frame:
  assumes "tq_store k v q = Inr q'"
  shows "tq_load q' k = v" "r \<noteq> k \<Longrightarrow> tq_load q' r = tq_load q r" "tqe_prev q' = tqe_prev q" "tqh_last q' = tqh_last q"
  using assms by (auto simp: tq_store_def tq_load_def split: tqref.splits if_splits)

lemma TAILQ_INSERT_TAIL_list:
  assumes "tq_list q e ds" "d \<notin> set ds"
  shows "\<exists>q'. TAILQ_INSERT_TAIL e d q = Inr q' \<and> tq_list q' e (ds @ [d])"
proof -
  let ?l = "tqh_last q e"
  define q1 where "q1 = q \<lparr> tqe_next := (tqe_next q) (d := None), tqe_prev := (tqe_prev q) (d := ?l) \<rparr>"
  have old: "distinct ds" "tq_seg q (TqHead e) ds ?l" using assms by (simp_all add: tq_list_def)
  have "tq_seg q1 (TqHead e) ds ?l = tq_seg q (TqHead e) ds ?l"
    by (rule tq_seg_cong) (use assms(2) in \<open>auto simp: q1_def dest: in_set_butlastD\<close>)
  then have seg1: "tq_seg q1 (TqHead e) ds ?l" using old by simp
  obtain q2 where q2: "tq_store ?l (Some d) q1 = Inr q2" using tq_store_ok [OF seg1] by blast
  have seg2: "tq_seg q2 (TqHead e) ds ?l" by (rule tq_seg_store [OF seg1 old(1) q2])
  define q' where "q' = q2 \<lparr> tqh_last := (tqh_last q2) (e := TqNext d) \<rparr>"
  have "TAILQ_INSERT_TAIL e d q = Inr q'"
    using q2 by (simp add: TAILQ_INSERT_TAIL_def q1_def q'_def)
  moreover have "tq_seg q' (TqHead e) ds ?l"
    using seg2 tq_seg_cong [of ds q' "TqHead e" q2 ?l] by (simp add: q'_def)
  moreover have "tq_load q' ?l = Some d" "tqe_prev q' d = ?l"
    using tq_store_frame [OF q2] by (auto simp: q'_def q1_def tq_load_def split: tqref.splits)
  moreover have "?l \<noteq> TqNext d" using tq_seg_end [OF old(2)] assms(2) by (auto split: if_splits)
  then have "tqe_next q' d = None"
    using tq_store_frame(2) [OF q2, of "TqNext d"] by (simp add: q'_def q1_def)
  ultimately show ?thesis
    using old(1) assms(2) by (auto simp: tq_list_def tq_seg_append q'_def)
qed

lemma TAILQ_REMOVE_list:
  assumes "tq_list q e (as @ x # bs)"
  shows "\<exists>q'. TAILQ_REMOVE e x q = Inr q' \<and> tq_list q' e (as @ bs)"
proof -
  let ?l = "tqh_last q e"
  have dist: "distinct (as @ x # bs)" and nil: "tq_load q ?l = None" using assms by (simp_all add: tq_list_def)
  obtain k where k: "tq_seg q (TqHead e) as k" "tq_load q k = Some x" "tqe_prev q x = k" "tq_seg q (TqNext x) bs ?l"
    using assms by (auto simp: tq_list_def tq_seg_append)
  show ?thesis
  proof (cases bs)
    case Nil
    then have "?l = TqNext x" using k(4) by simp
    then have l: "?l = TqNext x" "tqe_next q x = None" using nil by simp_all
    define q1 where "q1 = q \<lparr> tqh_last := (tqh_last q) (e := k) \<rparr>"
    have seg1: "tq_seg q1 (TqHead e) as k" using k(1) tq_seg_cong [of as q1 "TqHead e" q k] by (simp add: q1_def)
    obtain q' where q': "tq_store k None q1 = Inr q'" using tq_store_ok [OF seg1] by blast
    have "TAILQ_REMOVE e x q = Inr q'" using q' l k(3) by (simp add: TAILQ_REMOVE_def q1_def)
    then show ?thesis
      using tq_seg_store [OF seg1 _ q'] tq_store_frame [OF q'] dist Nil by (auto simp: tq_list_def q1_def)
  next
    case (Cons n bs')
    then have n: "tqe_next q x = Some n" "n \<noteq> x" "n \<notin> set as" "tq_seg q (TqNext n) bs' ?l" using k(4) dist by auto
    define q1 where "q1 = q \<lparr> tqe_prev := (tqe_prev q) (n := k) \<rparr>"
    have "tq_seg q1 (TqHead e) as k = tq_seg q (TqHead e) as k"
      by (rule tq_seg_cong) (use n(3) in \<open>auto simp: q1_def\<close>)
    then have seg1: "tq_seg q1 (TqHead e) as k" using k(1) by simp
    obtain q' where q': "tq_store k (Some n) q1 = Inr q'" using tq_store_ok [OF seg1] by blast
    note fr = tq_store_frame [OF q']
    have kk: "k = (if as = [] then TqHead e else TqNext (last as))" using tq_seg_end [OF k(1)] .
    have out: "TqNext b \<noteq> k" if "b \<in> set bs" for b using that kk dist last_in_set [of as] by (auto simp: disjoint_iff split: if_splits)
    have "TAILQ_REMOVE e x q = Inr q'" using q' n(1,2) k(3) by (simp add: TAILQ_REMOVE_def q1_def)
    moreover have nx: "tqe_next q' b = tqe_next q b" if "b \<in> set bs" for b
      using fr(2) [OF out [OF that]] by (simp add: q1_def)
    have seg: "tq_seg q' (TqNext n) bs' ?l = tq_seg q (TqNext n) bs' ?l"
      by (rule tq_seg_cong) (use fr(3) nx Cons dist in \<open>auto simp: q1_def dest: in_set_butlastD\<close>)
    moreover have "?l = TqNext (last bs)" using tq_seg_end [OF k(4)] Cons by simp
    then have "tq_load q' ?l = None" using fr(2) [of ?l] out [of "last bs"] nil Cons by (auto simp: q1_def)
    ultimately show ?thesis
      using tq_seg_store [OF seg1 _ q'] fr n dist Cons seg by (auto simp: tq_list_def tq_seg_append q1_def)
  qed
qed

end
