(* ===== verification/Socket_Api.thy ===== *)
theory Socket_Api
  imports Tx_Path Tailq
begin

text \<open>
  The control path of \<open>light_api.c\<close>: opening, binding, listening, accepting, closing, options and
  modes of a socket.  Operations that need the stack post a command and, where they wait for the
  answer, poll the return value that the stack fills in; the stack's steps between two polls are
  the argument \<open>env\<close>.  The lemmas show what becomes of descriptors, connections, commands and
  packet buffers on the way.
\<close>

section \<open>State\<close>

text \<open>
  \<open>free_connections_ring\<close> holds the indices of the shared sockets that are free; \<open>ret_mem\<close> and \<open>enodes\<close>
  are the memory of the return values and of the epoll nodes.
\<close>

record sock_env = app_env +
  free_connections_ring :: "nat rte_ring"
  free_return_value_pools :: "nat \<Rightarrow> addr rte_mempool"
  ret_mem :: "addr \<Rightarrow> light_return_value_t"
  free_epoll_node_pool :: "addr rte_mempool"
  enodes :: "addr \<Rightarrow> epoll_node"
  socket_lists :: tailq
  stack_proc_id :: int
  errno :: int
  pid :: int

definition AF_INET :: int where "AF_INET = 2"
definition LIGHT_ERRNO :: int where "LIGHT_ERRNO = 10000"
definition SOL_SOCKET :: int where "SOL_SOCKET = 1"
definition SO_RCVTIMEO :: int where "SO_RCVTIMEO = 20"
definition SO_SNDTIMEO :: int where "SO_SNDTIMEO = 21"
definition FIONREAD :: nat where "FIONREAD = 0x541B"
definition FIONBIO :: nat where "FIONBIO = 0x5421"
definition F_GETFL :: int where "F_GETFL = 3"
definition F_SETFL :: int where "F_SETFL = 4"
definition O_NONBLOCK :: int where "O_NONBLOCK = 2048"

abbreviation no_timeout :: timeval where "no_timeout \<equiv> \<lparr> tv_sec = - 1, tv_usec = - 1 \<rparr>"

text \<open>An index into \<open>local_socket_descriptors\<close>.\<close>

definition sock_idx :: "int \<Rightarrow> nat c_res" where
  "sock_idx i = (if 0 \<le> i \<and> i < LIGHT_CONNECTION_POOL_SIZE then Inr (nat i) else Inl OutOfBounds)"

definition upd_lists :: "(tailq \<Rightarrow> tailq) \<Rightarrow> 'z sock_env_scheme \<Rightarrow> 'z sock_env_scheme" where
  "upd_lists f s = s \<lparr> socket_lists := f (socket_lists s) \<rparr>"

text \<open>The shared socket a descriptor points to, by index.\<close>

definition socket_ptr :: "'z sock_env_scheme \<Rightarrow> nat \<Rightarrow> nat c_res" where
  "socket_ptr s i = (case socket (descs s i) of None \<Rightarrow> Inl BadPointer | Some k \<Rightarrow> Inr k)"

text \<open>Entry \<open>p\<close> of the table of copies of the socket behind descriptor \<open>i\<close>.\<close>

definition copy_of :: "'z sock_env_scheme \<Rightarrow> nat \<Rightarrow> int \<Rightarrow> int c_res" where
  "copy_of s i p = cbind (sock_of s i) (\<lambda>sk. aget (multicore_socket_copies sk) p)"

text \<open>From a file descriptor to the index of the local descriptor.\<close>

definition fd_sock :: "int \<Rightarrow> 'z sock_env_scheme \<Rightarrow> nat c_res" where
  "fd_sock fd s = cbind (light_fd_to_socket_epoll_index (fdt s) fd) (\<lambda>(idx, fd_type). sock_idx idx)"

section \<open>Opening\<close>

definition light_reset_local_descriptor :: "nat \<Rightarrow> 'z sock_env_scheme \<Rightarrow> 'z sock_env_scheme" where
  "light_reset_local_descriptor i s =
     upd_lists (tq_clear_entry i)
       (upd_desc i (\<lambda>d. d \<lparr> is_init := 0, is_set_sockopt := 0, local_mask := 0, present_in_ready_cache := 0,
          shadow_len_delievered := 0, shadow_len_remainder := 0, shadow := None, shadow_next := None \<rparr>) s)"

definition light_get_socket :: "int \<Rightarrow> int \<Rightarrow> int \<Rightarrow> 'z sock_env_scheme \<Rightarrow> (int \<times> 'z sock_env_scheme) c_res" where
  "light_get_socket fam ty proto s =
     (let (ret, k, rg) = rte_ring_dequeue (free_connections_ring s) 0 in
      if ret \<noteq> 0 then Inr (- 1, s)
      else
        let s1 = s \<lparr> free_connections_ring := rg \<rparr>;
            sock = connection_idx (socks s1 k);
            s2 = upd_sock k (\<lambda>x. x \<lparr> is_multicore := 0 \<rparr>) s1
        in cbind (sock_idx sock) (\<lambda>i.
           Inr (sock, light_reset_local_descriptor i
             (upd_desc i (\<lambda>d. d \<lparr> socket := Some k, family := fam, type := ty, protocol := proto \<rparr>) s2))))"

text \<open>The descriptor is allocated before the index is looked at, also when there was no free connection.\<close>

definition light_open_socket :: "int \<Rightarrow> int \<Rightarrow> int \<Rightarrow> 'z sock_env_scheme \<Rightarrow> (int \<times> 'z sock_env_scheme) c_res" where
  "light_open_socket fam ty proto s =
     cbind (light_get_socket fam ty proto s) (\<lambda>(sock, s1).
     cbind (get_new_light_fd (fdt s1) sock LIGHT_SOCKET_INDEX) (\<lambda>(light_fd, t).
       Inr (if sock < 0 then sock else light_fd, s1 \<lparr> fdt := t \<rparr>)))"

section \<open>Requests that wait for an answer\<close>

definition light_get_free_return_value_buf_by_proc_id ::
  "nat \<Rightarrow> 'z sock_env_scheme \<Rightarrow> addr option \<times> 'z sock_env_scheme" where
  "light_get_free_return_value_buf_by_proc_id pr s =
     (let (ret, r, mp) = rte_mempool_get 0 (free_return_value_pools s pr) 0 in
      if ret \<noteq> 0 then (None, s)
      else (Some r, s \<lparr> free_return_value_pools := (free_return_value_pools s) (pr := mp) \<rparr>))"

definition light_free_return_value_buf_by_proc_id ::
  "addr \<Rightarrow> nat \<Rightarrow> 'z sock_env_scheme \<Rightarrow> 'z sock_env_scheme" where
  "light_free_return_value_buf_by_proc_id r pr s =
     s \<lparr> free_return_value_pools := (free_return_value_pools s)
           (pr := rte_mempool_put 0 (free_return_value_pools s pr) r) \<rparr>"

definition write_ret ::
  "addr \<Rightarrow> (light_return_value_t \<Rightarrow> light_return_value_t) \<Rightarrow> 'z sock_env_scheme \<Rightarrow> 'z sock_env_scheme" where
  "write_ret r f s = s \<lparr> ret_mem := (ret_mem s) (r := f (ret_mem s r)) \<rparr>"

text \<open>
  The steps that \<open>_light_socket_init\<close> and \<open>_light_bind\<close> share: take a command buffer and a return
  value, fill both, enqueue the command, and give both back when the ring is full.
\<close>

datatype request_result = NoCommand | NoReturnValue | CommandRingFull | Requested addr

definition request ::
  "nat \<Rightarrow> (light_cmd_t \<Rightarrow> light_cmd_t) \<Rightarrow> 'z sock_env_scheme \<Rightarrow> request_result \<times> 'z sock_env_scheme" where
  "request pr f s =
     (case light_get_free_command_buf_by_proc_id pr s of
        (None, s1) \<Rightarrow> (NoCommand, s1)
      | (Some c, s1) \<Rightarrow>
          (case light_get_free_return_value_buf_by_proc_id pr (write_cmd c f s1) of
             (None, s2) \<Rightarrow> (NoReturnValue, light_free_command_buf_by_proc_id c pr s2)
           | (Some r, s2) \<Rightarrow>
               (case light_enqueue_command_buf_by_proc_id c pr
                   (write_ret r (\<lambda>v. v \<lparr> ready_signal := 0 \<rparr>) (write_cmd c (\<lambda>x. x \<lparr> res := Some r \<rparr>) s2)) of
                  (rc, s3) \<Rightarrow>
                    if rc \<noteq> 0
                    then (CommandRingFull, light_free_return_value_buf_by_proc_id r pr
                            (light_free_command_buf_by_proc_id c pr s3))
                    else (Requested r, s3))))"

text \<open>Polling the ready signal; \<open>env n\<close> is what the stack does between poll \<open>n\<close> and the next.\<close>

partial_function (option) wait_ready ::
  "(nat \<Rightarrow> 'z sock_env_scheme \<Rightarrow> 'z sock_env_scheme) \<Rightarrow> nat \<Rightarrow> addr \<Rightarrow> 'z sock_env_scheme \<Rightarrow> 'z sock_env_scheme option" where
  "wait_ready env n r s =
     (if ready_signal (ret_mem s r) \<noteq> 0 then Some s else wait_ready env (Suc n) r (env n s))"

section \<open>Closing\<close>

definition free_mbuf :: "addr \<Rightarrow> 'z app_env_scheme \<Rightarrow> 'z app_env_scheme" where
  "free_mbuf a s =
     (let (last, s1) = pktmbuf_prefree_seg a s in
      if last then (upd_mbuf a (\<lambda>m. m \<lparr> next_seg := None \<rparr>) s1) \<lparr> released := released s1 @ [a] \<rparr> else s1)"

partial_function (option) rte_pktmbuf_free :: "addr option \<Rightarrow> 'z app_env_scheme \<Rightarrow> 'z app_env_scheme option" where
  "rte_pktmbuf_free m s =
     (case m of None \<Rightarrow> Some s
      | Some a \<Rightarrow> rte_pktmbuf_free (next_seg (mbufs s a)) (free_mbuf a s))"

text \<open>The two loops over the same ring, with the dequeue functions they call.\<close>

partial_function (option) flush_cache :: "nat \<Rightarrow> 'z app_env_scheme \<Rightarrow> 'z app_env_scheme option" where
  "flush_cache i s =
     (case rte_ring_dequeue (rx_ring (descs s i)) 0 of (ret, m, rg) \<Rightarrow>
        if ret \<noteq> 0 then Some s
        else (case rte_pktmbuf_free (Some m) (upd_desc i (\<lambda>d. d \<lparr> rx_ring := rg \<rparr>) s) of
                None \<Rightarrow> None | Some s1 \<Rightarrow> flush_cache i s1))"

partial_function (option) flush_ring :: "nat \<Rightarrow> 'z app_env_scheme \<Rightarrow> 'z app_env_scheme option" where
  "flush_ring i s =
     (case sc_do_dequeue (rx_ring (descs s i)) [0] 1 RTE_RING_QUEUE_VARIABLE of (n, tab, rg) \<Rightarrow>
        if n \<noteq> 1 then Some s
        else (case rte_pktmbuf_free (Some (hd tab)) (upd_desc i (\<lambda>d. d \<lparr> rx_ring := rg \<rparr>) s) of
                None \<Rightarrow> None | Some s1 \<Rightarrow> flush_ring i s1))"

definition flush_shadow :: "nat \<Rightarrow> 'z app_env_scheme \<Rightarrow> 'z app_env_scheme c_res" where
  "flush_shadow i s =
     cbind (case shadow (descs s i) of None \<Rightarrow> Inr s
            | Some m \<Rightarrow> cbind (loop_res (rte_pktmbuf_free (Some m) s)) (\<lambda>s3.
                Inr (upd_desc i (\<lambda>d. d \<lparr> shadow := None \<rparr>) s3))) (\<lambda>s3.
     cbind (case shadow_next (descs s3 i) of None \<Rightarrow> Inr s3
            | Some m \<Rightarrow> cbind (loop_res (rte_pktmbuf_free (Some m) s3)) (\<lambda>s4.
                Inr (upd_desc i (\<lambda>d. d \<lparr> shadow_next := None \<rparr>) s4))) (\<lambda>s4.
     Inr (upd_desc i (\<lambda>d. d \<lparr> shadow_len_delievered := 0, shadow_len_remainder := 0 \<rparr>) s4)))"

definition light_flush_rx :: "nat \<Rightarrow> 'z app_env_scheme \<Rightarrow> 'z app_env_scheme c_res" where
  "light_flush_rx i s =
     cbind (loop_res (flush_cache i s)) (\<lambda>s1.
     cbind (loop_res (flush_ring i s1)) (flush_shadow i))"

text \<open>
  The epoll nodes of the socket are unlinked in list order; each first takes the descriptor out of
  the list of its epoll object.
\<close>

definition free_epoll_node_buf :: "addr \<Rightarrow> 'z sock_env_scheme \<Rightarrow> 'z sock_env_scheme" where
  "free_epoll_node_buf o' s = s \<lparr> free_epoll_node_pool := rte_mempool_put 0 (free_epoll_node_pool s) o' \<rparr>"

definition upd_node :: "addr \<Rightarrow> (epoll_node \<Rightarrow> epoll_node) \<Rightarrow> 'z sock_env_scheme \<Rightarrow> 'z sock_env_scheme" where
  "upd_node o' f s = s \<lparr> enodes := (enodes s) (o' := f (enodes s o')) \<rparr>"

definition epoll_slot :: "int \<Rightarrow> nat c_res" where
  "epoll_slot e = (if 0 \<le> e \<and> e < LIGHT_EPOLL_POOL_SIZE then Inr (nat e) else Inl OutOfBounds)"

definition list_remove :: "int \<Rightarrow> nat \<Rightarrow> 'z sock_env_scheme \<Rightarrow> 'z sock_env_scheme c_res" where
  "list_remove e i s =
     cbind (epoll_slot e) (\<lambda>slot.
     cbind (TAILQ_REMOVE slot i (socket_lists s)) (\<lambda>q. Inr (s \<lparr> socket_lists := q \<rparr>)))"

fun detach_nodes :: "nat \<Rightarrow> nat \<Rightarrow> addr list \<Rightarrow> 'z sock_env_scheme \<Rightarrow> 'z sock_env_scheme c_res" where
  "detach_nodes i k [] s = Inr s"
| "detach_nodes i k (o' # os) s =
     cbind (list_remove (node_epoll_idx (enodes s o')) i s) (\<lambda>s1.
       detach_nodes i k os
         (free_epoll_node_buf o'
           (upd_node o' (\<lambda>n. n \<lparr> node_epoll_idx := - 1, epoll_events := 0, ready_events := 0 \<rparr>)
             (upd_sock k (\<lambda>x. x \<lparr> epoll_node_list := remove1 o' (epoll_node_list x) \<rparr>) s1))))"

definition close_cmd :: "nat \<Rightarrow> light_cmd_t \<Rightarrow> light_cmd_t" where
  "close_cmd i c = c \<lparr> cmd := LIGHT_SOCKET_CLOSE_COMMAND, ringset_idx := int i \<rparr>"

text \<open>An uninitialised socket goes straight back to the ring; a full ring is only reported.\<close>

definition put_connection :: "nat \<Rightarrow> 'z sock_env_scheme \<Rightarrow> 'z sock_env_scheme" where
  "put_connection k s = s \<lparr> free_connections_ring := snd (rte_ring_enqueue (free_connections_ring s) k) \<rparr>"

definition reset_closed_socket :: "nat \<Rightarrow> 'z sock_env_scheme \<Rightarrow> 'z sock_env_scheme" where
  "reset_closed_socket k s =
     upd_sock k (\<lambda>x. x \<lparr> connect_close_signal := 0, is_nonblock := 0, send_timeout := no_timeout,
       receive_timeout := no_timeout \<rparr>) s"

definition close_single :: "nat \<Rightarrow> nat \<Rightarrow> 'z sock_env_scheme \<Rightarrow> (int \<times> 'z sock_env_scheme) c_res" where
  "close_single i k s =
     (if is_init (descs s i) = 0 then Inr (0, put_connection k s)
      else case post_command (proc_id (descs s i)) (close_cmd i) s of
             (Posted c, s1) \<Rightarrow>
               cbind (light_flush_rx i s1) (\<lambda>s2.
               let s3 = reset_closed_socket k s2 in
               cbind (detach_nodes i k (epoll_node_list (socks s3 k)) s3) (\<lambda>s4.
               Inr (0, upd_desc i (\<lambda>d. d \<lparr> proc_id := 0 \<rparr>) s4)))
           | (_, s1) \<Rightarrow> Inr (- 1, s1))"

text \<open>
  The copies of a multicore socket, one per stack process; the epoll nodes hang on the copy of the
  process that serves the caller.
\<close>

fun close_copies :: "nat \<Rightarrow> nat \<Rightarrow> nat list \<Rightarrow> 'z sock_env_scheme \<Rightarrow> (int \<times> 'z sock_env_scheme) c_res" where
  "close_copies main mainpr [] s = Inr (0, s)"
| "close_copies main mainpr (p # ps) s =
     cbind (copy_of s main (int p)) (\<lambda>copy.
     cbind (sock_idx copy) (\<lambda>j.
     cbind (socket_ptr s j) (\<lambda>k.
     if is_init (descs s j) = 0 then close_copies main mainpr ps (put_connection k s)
     else case post_command p (close_cmd j) s of
            (Posted c, s1) \<Rightarrow>
              cbind (light_flush_rx j s1) (\<lambda>s2.
              let s3 = reset_closed_socket k s2 in
              cbind (if p = mainpr then detach_nodes j k (epoll_node_list (socks s3 k)) s3 else Inr s3) (\<lambda>s4.
              close_copies main mainpr ps (upd_desc j (\<lambda>d. d \<lparr> is_init := 0 \<rparr>) s4)))
          | (_, s1) \<Rightarrow> Inr (- 1, s1))))"

definition close_sock :: "nat \<Rightarrow> 'z sock_env_scheme \<Rightarrow> (int \<times> 'z sock_env_scheme) c_res" where
  "close_sock i s =
     cbind (socket_ptr s i) (\<lambda>k.
     if is_multicore (socks s k) = 0 then close_single i k s
     else cbind (close_copies i (proc_id (descs s i)) [0..<num_procs s] s) (\<lambda>(ret, s1).
          if ret \<noteq> 0 then Inr (ret, s1)
          else cbind (socket_ptr s1 i) (\<lambda>k1.
               Inr (0, upd_desc i (\<lambda>d. d \<lparr> proc_id := 0 \<rparr>) (upd_sock k1 (\<lambda>x. x \<lparr> is_multicore := 0 \<rparr>) s1)))))"

definition light_close_index :: "int \<Rightarrow> 'z sock_env_scheme \<Rightarrow> (int \<times> 'z sock_env_scheme) c_res" where
  "light_close_index sock s =
     cbind (socket_epoll_index_to_light_fd (fdt s) sock LIGHT_SOCKET_INDEX) (\<lambda>fd.
     cbind (put_back_light_fd (fdt s) fd) (\<lambda>(ret, t).
     if ret \<noteq> 0 then Inl Exit
     else cbind (sock_idx sock) (\<lambda>i. close_sock i (s \<lparr> fdt := t \<rparr>))))"

section \<open>Options and modes\<close>

text \<open>A \<open>struct timeval\<close> in memory: two signed 64-bit integers, least significant byte first.\<close>

definition le_int :: "u8 list \<Rightarrow> int" where
  "le_int bs = (let v = foldr (\<lambda>b acc. uint b + 256 * acc) bs 0
                in if v < 2 ^ 63 then v else v - 2 ^ 64)"

definition load_timeval :: "u8 list \<Rightarrow> timeval c_res" where
  "load_timeval mem =
     (if length mem < 16 then Inl OutOfBounds
      else Inr \<lparr> tv_sec = le_int (take 8 mem), tv_usec = le_int (take 8 (drop 8 mem)) \<rparr>)"

text \<open>\<open>memcpy\<close> of \<open>len\<close> bytes into an array of 128 characters.\<close>

definition copy_optval :: "u8 list \<Rightarrow> int \<Rightarrow> u8 list \<Rightarrow> u8 list c_res" where
  "copy_optval mem len old =
     (if len > 128 \<or> len > int (length mem) then Inl OutOfBounds
      else Inr (take (nat len) mem @ drop (nat len) old))"

definition setsockopt_cmd :: "int \<Rightarrow> int \<Rightarrow> int \<Rightarrow> int \<Rightarrow> u8 list \<Rightarrow> light_cmd_t \<Rightarrow> light_cmd_t" where
  "setsockopt_cmd sock lev opt len val c =
     c \<lparr> cmd := LIGHT_SETSOCKOPT_COMMAND, ringset_idx := sock, u := setsockopt_args lev opt len val \<rparr>"

text \<open>The timeouts of the shared socket follow the option.\<close>

definition note_timeouts :: "nat \<Rightarrow> int \<Rightarrow> int \<Rightarrow> u8 list \<Rightarrow> 'z sock_env_scheme \<Rightarrow> 'z sock_env_scheme c_res" where
  "note_timeouts i lev opt mem s =
     cbind (if lev = SOL_SOCKET \<and> opt = SO_SNDTIMEO
            then cbind (load_timeval mem) (\<lambda>t. cbind (socket_ptr s i) (\<lambda>k.
                   Inr (upd_sock k (\<lambda>x. x \<lparr> send_timeout := t \<rparr>) s)))
            else Inr s) (\<lambda>s1.
     if lev = SOL_SOCKET \<and> opt = SO_RCVTIMEO
     then cbind (load_timeval mem) (\<lambda>t. cbind (socket_ptr s1 i) (\<lambda>k.
            Inr (upd_sock k (\<lambda>x. x \<lparr> receive_timeout := t \<rparr>) s1)))
     else Inr s1)"

text \<open>
  One option command to the stack process \<open>pr\<close>.  The copy of the value happens between taking the
  buffer and enqueueing it; a value that does not fit is written past the command.
\<close>

definition setsockopt_one ::
  "nat \<Rightarrow> nat \<Rightarrow> int \<Rightarrow> int \<Rightarrow> u8 list \<Rightarrow> int \<Rightarrow> 'z sock_env_scheme \<Rightarrow> (int \<times> 'z sock_env_scheme) c_res" where
  "setsockopt_one i pr lev opt mem len s =
     (if fst (light_get_free_command_buf_by_proc_id pr s) = None then Inr (- 1, s)
      else cbind (copy_optval mem len []) (\<lambda>val.
           case post_command pr (setsockopt_cmd (int i) lev opt len val) s of
             (NoBuffer, s1) \<Rightarrow> Inr (- 1, s1)
           | (RingFull, s1) \<Rightarrow> Inr (- 2, s1)
           | (Posted c, s1) \<Rightarrow> cbind (note_timeouts i lev opt mem s1) (\<lambda>s2. Inr (0, s2))))"

fun setsockopt_copies ::
  "nat \<Rightarrow> nat list \<Rightarrow> int \<Rightarrow> int \<Rightarrow> u8 list \<Rightarrow> int \<Rightarrow> 'z sock_env_scheme \<Rightarrow> (int \<times> 'z sock_env_scheme) c_res" where
  "setsockopt_copies main [] lev opt mem len s = Inr (0, s)"
| "setsockopt_copies main (p # ps) lev opt mem len s =
     cbind (copy_of s main (int p)) (\<lambda>copy.
     cbind (sock_idx copy) (\<lambda>j.
     if is_init (descs s j) = 0 then setsockopt_copies main ps lev opt mem len s
     else cbind (setsockopt_one j p lev opt mem len s) (\<lambda>(ret, s1).
          if ret \<noteq> 0 then Inr (ret, s1) else setsockopt_copies main ps lev opt mem len s1)))"

definition light_setsockopt ::
  "int \<Rightarrow> int \<Rightarrow> int \<Rightarrow> u8 list option \<Rightarrow> int \<Rightarrow> 'z sock_env_scheme \<Rightarrow> (int \<times> 'z sock_env_scheme) c_res" where
  "light_setsockopt fd lev opt val len s =
     (case val of None \<Rightarrow> Inr (- 1, s)
      | Some mem \<Rightarrow>
        if len = 0 then Inr (- 1, s)
        else cbind (fd_sock fd s) (\<lambda>i.
             cbind (sock_of s i) (\<lambda>sk.
             if is_multicore sk \<noteq> 0 then setsockopt_copies i [0..<num_procs s] lev opt mem len s
             else if is_init (descs s i) = 0
             then cbind (copy_optval mem len (optval (descs s i))) (\<lambda>v.
                  Inr (0, upd_desc i (\<lambda>d. d \<lparr> is_set_sockopt := 1, level := lev, optname := opt, optlen := len,
                            optval := v \<rparr>) s))
             else setsockopt_one i (proc_id (descs s i)) lev opt mem len s)))"

text \<open>Setting the blocking mode, on every copy of a multicore socket.\<close>

definition put_nonblock :: "nat \<Rightarrow> int \<Rightarrow> 'z sock_env_scheme \<Rightarrow> 'z sock_env_scheme c_res" where
  "put_nonblock i v s = cbind (socket_ptr s i) (\<lambda>k. Inr (upd_sock k (\<lambda>x. x \<lparr> is_nonblock := v \<rparr>) s))"

fun nonblock_copies :: "nat \<Rightarrow> nat list \<Rightarrow> int \<Rightarrow> 'z sock_env_scheme \<Rightarrow> 'z sock_env_scheme c_res" where
  "nonblock_copies main [] v s = Inr s"
| "nonblock_copies main (p # ps) v s =
     cbind (copy_of s main (int p)) (\<lambda>copy.
     cbind (sock_idx copy) (\<lambda>j.
     cbind (put_nonblock j v s) (nonblock_copies main ps v)))"

definition set_nonblock :: "nat \<Rightarrow> int \<Rightarrow> 'z sock_env_scheme \<Rightarrow> 'z sock_env_scheme c_res" where
  "set_nonblock i v s =
     cbind (sock_of s i) (\<lambda>sk.
     if is_multicore sk \<noteq> 0 then nonblock_copies i [0..<num_procs s] v s else put_nonblock i v s)"

fun count_copies :: "nat \<Rightarrow> nat list \<Rightarrow> int \<Rightarrow> 'z sock_env_scheme \<Rightarrow> int c_res" where
  "count_copies main [] acc s = Inr acc"
| "count_copies main (p # ps) acc s =
     cbind (copy_of s main (int p)) (\<lambda>copy.
     cbind (sock_idx copy) (\<lambda>j.
     count_copies main ps (acc + uint (rte_ring_count (rx_ring (descs s j)))) s))"

text \<open>
  \<open>argp\<close> is the integer the argument points to, if it is not NULL; the result carries its new value.
  \<open>real_ioctl\<close> is the result of the system call for other descriptors.
\<close>

definition light_ioctl ::
  "int \<Rightarrow> nat \<Rightarrow> int option \<Rightarrow> int \<Rightarrow> 'z sock_env_scheme \<Rightarrow> (int \<times> int option \<times> 'z sock_env_scheme) c_res" where
  "light_ioctl fd req argp real_ioctl s =
     cbind (is_light_fd (fdt s) fd) (\<lambda>light.
     if light \<noteq> 0
     then cbind (fd_sock fd s) (\<lambda>i.
          case argp of None \<Rightarrow> Inr (- 1, None, s)
          | Some v \<Rightarrow>
            if req = FIONREAD
            then cbind (sock_of s i) (\<lambda>sk.
                 cbind (if is_multicore sk \<noteq> 0 then count_copies i [0..<num_procs s] 0 s
                        else Inr (uint (rte_ring_count (rx_ring (descs s i))))) (\<lambda>n. Inr (0, Some n, s)))
            else if req = FIONBIO
            then cbind (set_nonblock i (if v \<noteq> 0 then 1 else 0) s) (\<lambda>s1. Inr (0, argp, s1))
            else Inr (- 1, argp, s))
     else Inr (real_ioctl, argp, s))"

definition light_fcntl ::
  "int \<Rightarrow> int \<Rightarrow> int \<Rightarrow> int \<Rightarrow> 'z sock_env_scheme \<Rightarrow> (int \<times> 'z sock_env_scheme) c_res" where
  "light_fcntl fd com arg real_fcntl s =
     cbind (is_light_fd (fdt s) fd) (\<lambda>light.
     if light = 1
     then cbind (fd_sock fd s) (\<lambda>i.
          if com = F_GETFL
          then cbind (sock_of s i) (\<lambda>sk. Inr (if is_nonblock sk \<noteq> 0 then 2 OR O_NONBLOCK else 2, s))
          else if com = F_SETFL
          then cbind (set_nonblock i (if arg AND O_NONBLOCK \<noteq> 0 then 1 else 0) s) (\<lambda>s1. Inr (0, s1))
          else Inr (- 1, s))
     else Inr (real_fcntl, s))"

definition shutdown_cmd :: "nat \<Rightarrow> int \<Rightarrow> light_cmd_t \<Rightarrow> light_cmd_t" where
  "shutdown_cmd i how c = c \<lparr> cmd := LIGHT_SOCKET_SHUTDOWN_COMMAND, ringset_idx := int i, u := socket_shutdown how \<rparr>"

definition light_shutdown :: "int \<Rightarrow> int \<Rightarrow> 'z sock_env_scheme \<Rightarrow> (int \<times> 'z sock_env_scheme) c_res" where
  "light_shutdown fd how s =
     cbind (fd_sock fd s) (\<lambda>i.
     case post_command (proc_id (descs s i)) (shutdown_cmd i how) s of
       (NoBuffer, s1) \<Rightarrow> Inr (- 1, s1)
     | (_, s1) \<Rightarrow> Inr (0, s1))"

definition light_getsockname :: "int \<Rightarrow> bool \<Rightarrow> 'z sock_env_scheme \<Rightarrow> (u32 \<times> u16) c_res" where
  "light_getsockname fd is_local s =
     cbind (fd_sock fd s) (\<lambda>i.
     if is_local
     then cbind (sock_of s i) (\<lambda>sk.
          Inr (if local_ipaddr sk \<noteq> 0 then (local_ipaddr sk, local_port sk)
               else (desc_local_ipaddr (descs s i), desc_local_port (descs s i))))
     else Inr (remote_ipaddr (descs s i), remote_port (descs s i)))"

section \<open>Binding and listening\<close>

definition open_cmd :: "int \<Rightarrow> int \<Rightarrow> int \<Rightarrow> int \<Rightarrow> light_cmd_t \<Rightarrow> light_cmd_t" where
  "open_cmd idx fam ty p c =
     c \<lparr> cmd := LIGHT_OPEN_SOCKET_COMMAND, ringset_idx := idx, parent_idx := - 1, u := open_sock fam ty p \<rparr>"

text \<open>The saved option is applied once the stack has opened the socket; the result is not looked at.\<close>

definition light_socket_init ::
  "(nat \<Rightarrow> 'z sock_env_scheme \<Rightarrow> 'z sock_env_scheme) \<Rightarrow> int \<Rightarrow> nat \<Rightarrow> 'z sock_env_scheme \<Rightarrow> (int \<times> 'z sock_env_scheme) c_res" where
  "light_socket_init env sock pr s =
     (if sock < 0 then Inr (- 1, s)
      else cbind (sock_idx sock) (\<lambda>i.
           cbind (socket_ptr s i) (\<lambda>k.
           let d = descs s i; idx = connection_idx (socks s k) in
           case request pr (open_cmd idx (family d) (type d) (pid s)) s of
             (NoCommand, s1) \<Rightarrow> Inr (- 2, s1)
           | (NoReturnValue, s1) \<Rightarrow> Inr (- 2, put_connection k s1)
           | (CommandRingFull, s1) \<Rightarrow> Inr (- 3, s1)
           | (Requested r, s1) \<Rightarrow>
               cbind (loop_res (wait_ready env 0 r
                 (upd_sock k (\<lambda>x. x \<lparr> send_timeout := no_timeout, receive_timeout := no_timeout,
                    epoll_node_list := [], connect_close_signal := 0 \<rparr>) s1))) (\<lambda>s2.
               let s3 = light_free_return_value_buf_by_proc_id r pr s2 in
               if return_value (ret_mem s2 r) \<noteq> 0
               then cbind (light_close_index (connection_idx (socks s3 k)) s3) (\<lambda>(_, s4). Inr (- 1, s4))
               else
                 let s4 = upd_desc i (\<lambda>d. d \<lparr> is_init := 1 \<rparr>) s3; d = descs s4 i in
                 cbind (socket_epoll_index_to_light_fd (fdt s4) sock LIGHT_SOCKET_INDEX) (\<lambda>fd.
                 cbind (light_setsockopt fd (level d) (optname d) (Some (optval d)) (optlen d mod 2 ^ 32) s4) (\<lambda>(_, s5).
                 Inr (0, s5)))))))"

definition bind_cmd :: "int \<Rightarrow> u32 \<Rightarrow> u16 \<Rightarrow> light_cmd_t \<Rightarrow> light_cmd_t" where
  "bind_cmd sock ip port c =
     c \<lparr> cmd := LIGHT_SOCKET_CONNECT_BIND_COMMAND, ringset_idx := sock, parent_idx := - 1,
         u := socket_connect_bind ip port 0 \<rparr>"

definition light_bind_by_proc_id ::
  "(nat \<Rightarrow> 'z sock_env_scheme \<Rightarrow> 'z sock_env_scheme) \<Rightarrow> int \<Rightarrow> int \<Rightarrow> u32 \<Rightarrow> u16 \<Rightarrow> nat \<Rightarrow> 'z sock_env_scheme
     \<Rightarrow> (int \<times> 'z sock_env_scheme) c_res" where
  "light_bind_by_proc_id env sock fam ip port pr s0 =
     (let s = s0 \<lparr> errno := LIGHT_ERRNO \<rparr> in
      if fam \<noteq> AF_INET then Inr (- 1, s)
      else case request pr (bind_cmd sock ip port) s of
             (NoCommand, s1) \<Rightarrow> Inr (- 1, s1)
           | (NoReturnValue, s1) \<Rightarrow> Inr (- 2, s1)
           | (CommandRingFull, s1) \<Rightarrow> Inr (- 2, s1)
           | (Requested r, s1) \<Rightarrow>
               cbind (sock_idx sock) (\<lambda>i.
               cbind (loop_res (wait_ready env 0 r
                 (upd_desc i (\<lambda>d. d \<lparr> desc_local_ipaddr := ip, desc_local_port := port \<rparr>) s1))) (\<lambda>s2.
               let s3 = light_free_return_value_buf_by_proc_id r pr (s2 \<lparr> errno := return_errno (ret_mem s2 r) \<rparr>)
               in Inr (if return_value (ret_mem s2 r) \<noteq> 0 then - 1 else 0, s3))))"

text \<open>Storing into the table of copies of the socket behind a descriptor.\<close>

definition set_copy :: "nat \<Rightarrow> int \<Rightarrow> int \<Rightarrow> 'z sock_env_scheme \<Rightarrow> 'z sock_env_scheme c_res" where
  "set_copy i p v s =
     cbind (socket_ptr s i) (\<lambda>k.
     cbind (aset (multicore_socket_copies (socks s k)) p v) (\<lambda>cs.
     Inr (upd_sock k (\<lambda>x. x \<lparr> multicore_socket_copies := cs \<rparr>) s)))"

fun close_range :: "nat \<Rightarrow> nat list \<Rightarrow> 'z sock_env_scheme \<Rightarrow> 'z sock_env_scheme c_res" where
  "close_range main [] s = Inr s"
| "close_range main (p # ps) s =
     cbind (copy_of s main (int p)) (\<lambda>copy.
     cbind (light_close_index copy s) (\<lambda>(_, s1). close_range main ps s1))"

text \<open>One copy per further stack process.  A failure closes the copies made so far.\<close>

fun make_copies ::
  "(nat \<Rightarrow> 'z sock_env_scheme \<Rightarrow> 'z sock_env_scheme) \<Rightarrow> nat \<Rightarrow> int \<Rightarrow> nat list \<Rightarrow> 'z sock_env_scheme
     \<Rightarrow> (int \<times> 'z sock_env_scheme) c_res" where
  "make_copies env main nb [] s = Inr (0, s)"
| "make_copies env main nb (p # ps) s =
     cbind (light_get_socket (family (descs s main)) (type (descs s main)) (protocol (descs s main)) s) (\<lambda>(copied, s1).
     cbind (light_socket_init env copied p s1) (\<lambda>(ret, s2).
     if ret \<noteq> 0
     then cbind (close_range main [1..<p] s2) (\<lambda>s3.
          cbind (socket_ptr s3 main) (\<lambda>k. Inr (- 1, upd_sock k (\<lambda>x. x \<lparr> is_multicore := 0 \<rparr>) s3)))
     else cbind (set_copy main (int p) copied s2) (\<lambda>s3.
          cbind (sock_idx copied) (\<lambda>j.
          let s4 = upd_desc j (\<lambda>d. d \<lparr> proc_id := p \<rparr>) s3 in
          cbind (socket_ptr s4 j) (\<lambda>k.
          cbind (set_copy j 0 (int main) (upd_sock k (\<lambda>x. x \<lparr> is_multicore := 1 \<rparr>) s4)) (\<lambda>s5.
          make_copies env main nb ps (upd_sock k (\<lambda>x. x \<lparr> is_nonblock := nb \<rparr>) s5)))))))"

text \<open>The table of the main socket is written into each copy.\<close>

fun spread_row :: "nat \<Rightarrow> nat \<Rightarrow> nat list \<Rightarrow> 'z sock_env_scheme \<Rightarrow> 'z sock_env_scheme c_res" where
  "spread_row main j [] s = Inr s"
| "spread_row main j (q # qs) s =
     cbind (copy_of s main (int q)) (\<lambda>v. cbind (set_copy j (int q) v s) (spread_row main j qs))"

fun spread_copies :: "nat \<Rightarrow> nat list \<Rightarrow> 'z sock_env_scheme \<Rightarrow> 'z sock_env_scheme c_res" where
  "spread_copies main [] s = Inr s"
| "spread_copies main (p # ps) s =
     cbind (copy_of s main (int p)) (\<lambda>copied.
     cbind (sock_idx copied) (\<lambda>j.
     cbind (spread_row main j [1..<num_procs s] s) (spread_copies main ps)))"

fun bind_copies ::
  "(nat \<Rightarrow> 'z sock_env_scheme \<Rightarrow> 'z sock_env_scheme) \<Rightarrow> nat \<Rightarrow> int \<Rightarrow> u32 \<Rightarrow> u16 \<Rightarrow> nat list \<Rightarrow> 'z sock_env_scheme
     \<Rightarrow> (int \<times> 'z sock_env_scheme) c_res" where
  "bind_copies env main fam ip port [] s = Inr (0, s)"
| "bind_copies env main fam ip port (p # ps) s =
     cbind (copy_of s main (int p)) (\<lambda>copied.
     cbind (light_bind_by_proc_id env copied fam ip port p s) (\<lambda>(ret, s1).
     if ret \<noteq> 0 then Inr (ret, s1) else bind_copies env main fam ip port ps s1))"

definition light_bind ::
  "(nat \<Rightarrow> 'z sock_env_scheme \<Rightarrow> 'z sock_env_scheme) \<Rightarrow> int \<Rightarrow> int \<Rightarrow> u32 \<Rightarrow> u16 \<Rightarrow> 'z sock_env_scheme
     \<Rightarrow> (int \<times> 'z sock_env_scheme) c_res" where
  "light_bind env fd fam ip port s =
     cbind (fd_sock fd s) (\<lambda>i.
     cbind (socket_ptr s i) (\<lambda>k.
     cbind (set_copy i 0 (int i) (upd_sock k (\<lambda>x. x \<lparr> is_multicore := 1 \<rparr>) s)) (\<lambda>s1.
     cbind (light_socket_init env (int i) 0 (upd_desc i (\<lambda>d. d \<lparr> proc_id := 0 \<rparr>) s1)) (\<lambda>(ret, s2).
     if ret \<noteq> 0 then Inr (- 1, s2)
     else cbind (sock_of s2 i) (\<lambda>sk.
          cbind (make_copies env i (is_nonblock sk) [1..<num_procs s2] s2) (\<lambda>(ret, s3).
          if ret \<noteq> 0 then Inr (ret, s3)
          else cbind (spread_copies i [1..<num_procs s3] s3) (\<lambda>s4.
               bind_copies env i fam ip port [0..<num_procs s4] s4)))))))"

definition listen_cmd :: "int \<Rightarrow> u32 \<Rightarrow> light_cmd_t \<Rightarrow> light_cmd_t" where
  "listen_cmd sock backlog c =
     c \<lparr> cmd := LIGHT_LISTEN_SOCKET_COMMAND, ringset_idx := sock, parent_idx := - 1, u := listen_backlog backlog \<rparr>"

definition light_listen_socket_by_proc_id ::
  "int \<Rightarrow> u32 \<Rightarrow> nat \<Rightarrow> 'z sock_env_scheme \<Rightarrow> int \<times> 'z sock_env_scheme" where
  "light_listen_socket_by_proc_id sock backlog pr s =
     (case post_command pr (listen_cmd sock backlog) s of
        (NoBuffer, s1) \<Rightarrow> (- 1, s1) | (RingFull, s1) \<Rightarrow> (- 2, s1) | (Posted c, s1) \<Rightarrow> (0, s1))"

fun listen_copies :: "nat \<Rightarrow> u32 \<Rightarrow> nat list \<Rightarrow> 'z sock_env_scheme \<Rightarrow> (int \<times> 'z sock_env_scheme) c_res" where
  "listen_copies main backlog [] s = Inr (0, s)"
| "listen_copies main backlog (p # ps) s =
     cbind (copy_of s main (int p)) (\<lambda>copied.
     case light_listen_socket_by_proc_id copied backlog p s of (ret, s1) \<Rightarrow>
       if ret \<noteq> 0 then Inr (ret, s1) else listen_copies main backlog ps s1)"

definition light_listen_socket :: "int \<Rightarrow> u32 \<Rightarrow> 'z sock_env_scheme \<Rightarrow> (int \<times> 'z sock_env_scheme) c_res" where
  "light_listen_socket fd backlog s =
     cbind (fd_sock fd s) (\<lambda>i. listen_copies i backlog [0..<num_procs s] s)"

section \<open>Accepting\<close>

text \<open>A waiting connection is a command buffer on the receive ring of the listening socket.\<close>

definition decline_cmd :: "light_cmd_t \<Rightarrow> light_cmd_t" where
  "decline_cmd c = c \<lparr> cmd := LIGHT_SOCKET_DECLINE_COMMAND,
     u := (case u c of accepted_socket d _ _ \<Rightarrow> socket_decline d | v \<Rightarrow> v) \<rparr>"

definition set_ring_cmd :: "int \<Rightarrow> nat \<Rightarrow> int \<Rightarrow> light_cmd_t \<Rightarrow> light_cmd_t" where
  "set_ring_cmd idx descr p c =
     c \<lparr> cmd := LIGHT_SET_SOCKET_RING_COMMAND, ringset_idx := idx, parent_idx := - 1, u := set_socket_ring descr p \<rparr>"

text \<open>The fields of the union member \<open>accepted_socket\<close>; another member has no such fields.\<close>

definition accepted_fields :: "light_cmd_t \<Rightarrow> (nat \<times> u32 \<times> u16) c_res" where
  "accepted_fields c = (case u c of accepted_socket d ip port \<Rightarrow> Inr (d, ip, port) | _ \<Rightarrow> Inl NoValue)"

text \<open>What the new connection's descriptor and socket are set to.\<close>

definition init_accepted ::
  "nat \<Rightarrow> nat \<Rightarrow> nat \<Rightarrow> nat \<Rightarrow> (u32 \<times> u16) option \<Rightarrow> 'z sock_env_scheme \<Rightarrow> 'z sock_env_scheme c_res" where
  "init_accepted i j k pr peer s =
     (let s1 = (case peer of None \<Rightarrow> s
                | Some (ip, port) \<Rightarrow> upd_desc j (\<lambda>d. d \<lparr> remote_ipaddr := ip, remote_port := port \<rparr>) s);
          s2 = light_reset_local_descriptor j (upd_desc j (\<lambda>d. d \<lparr> socket := Some k \<rparr>) s1);
          lip = desc_local_ipaddr (descs s2 i); lport = desc_local_port (descs s2 i);
          s3 = upd_desc j (\<lambda>d. d \<lparr> desc_local_ipaddr := lip, desc_local_port := lport \<rparr>) s2;
          s4 = upd_sock k (\<lambda>x. x \<lparr> send_timeout := no_timeout, receive_timeout := no_timeout \<rparr>) s3;
          s5 = upd_desc j (\<lambda>d. d \<lparr> proc_id := pr \<rparr>) s4
      in cbind (set_copy j (int pr) (int j) s5) (\<lambda>s6.
         Inr (upd_sock k (\<lambda>x. x \<lparr> is_multicore := 0, connect_close_signal := 0, is_nonblock := 0 \<rparr>) s6)))"

text \<open>The last part: the command buffer goes back to the stack, and the descriptor is allocated.\<close>

definition announce_accepted ::
  "addr \<Rightarrow> nat \<Rightarrow> nat \<Rightarrow> int \<Rightarrow> nat \<Rightarrow> (u32 \<times> u16) option \<Rightarrow> 'z sock_env_scheme
     \<Rightarrow> (int \<times> (u32 \<times> u16) option \<times> 'z sock_env_scheme) c_res" where
  "announce_accepted c pr j idx descr peer s =
     (case light_enqueue_command_buf_by_proc_id c pr (write_cmd c (set_ring_cmd idx descr (pid s)) s) of
        (rc, s4) \<Rightarrow>
          if rc \<noteq> 0 then Inr (- 1, peer, light_free_command_buf_by_proc_id c pr s4)
          else
            let s5 = upd_desc j (\<lambda>d. d \<lparr> is_init := 1 \<rparr>) s4 in
            cbind (get_new_light_fd (fdt s5) idx LIGHT_SOCKET_INDEX) (\<lambda>(fd, t).
            Inr (fd, peer, s5 \<lparr> fdt := t \<rparr>)))"

text \<open>
  The result is the new file descriptor, or \<open>- 1\<close>, and the peer address when the caller asked for it.
\<close>

definition light_accept_by_proc_id ::
  "nat \<Rightarrow> bool \<Rightarrow> nat \<Rightarrow> 'z sock_env_scheme \<Rightarrow> (int \<times> (u32 \<times> u16) option \<times> 'z sock_env_scheme) c_res" where
  "light_accept_by_proc_id i want pr s =
     (let (ret, c, rg) = rte_ring_dequeue (rx_ring (descs s i)) 0 in
      if ret \<noteq> 0 then Inr (- 1, None, s)
      else
        let s1 = upd_desc i (\<lambda>d. d \<lparr> rx_ring := rg \<rparr>) s;
            (ret2, k, fr) = rte_ring_dequeue (free_connections_ring s1) 0 in
        if ret2 \<noteq> 0
        then (case light_enqueue_command_buf_by_proc_id c pr (write_cmd c decline_cmd s1) of
                (rc, s2) \<Rightarrow> Inr (- 1, None, if rc \<noteq> 0 then light_free_command_buf_by_proc_id c pr s2 else s2))
        else
          cbind (accepted_fields (cmd_mem s1 c)) (\<lambda>(descr, ip, port).
          let s2 = s1 \<lparr> free_connections_ring := fr \<rparr>; idx = connection_idx (socks s2 k);
              peer = (if want then Some (ip, port) else None) in
          cbind (sock_idx idx) (\<lambda>j.
          cbind (init_accepted i j k pr peer s2) (\<lambda>s3.
          announce_accepted c pr j idx descr peer s3))))"

partial_function (option) accept_wait ::
  "(nat \<Rightarrow> 'z sock_env_scheme \<Rightarrow> 'z sock_env_scheme) \<Rightarrow> nat \<Rightarrow> nat \<Rightarrow> 'z sock_env_scheme \<Rightarrow> 'z sock_env_scheme option" where
  "accept_wait env n i s =
     (if rte_ring_empty (rx_ring (descs s i)) then accept_wait env (Suc n) i (env n s) else Some s)"

definition light_accept ::
  "(nat \<Rightarrow> 'z sock_env_scheme \<Rightarrow> 'z sock_env_scheme) \<Rightarrow> int \<Rightarrow> bool \<Rightarrow> 'z sock_env_scheme
     \<Rightarrow> (int \<times> (u32 \<times> u16) option \<times> 'z sock_env_scheme) c_res" where
  "light_accept env fd want s =
     cbind (fd_sock fd s) (\<lambda>i.
     cbind (sock_of s i) (\<lambda>sk.
     cbind (copy_of s i (stack_proc_id s)) (\<lambda>copied.
     cbind (sock_idx copied) (\<lambda>j.
     if is_nonblock sk \<noteq> 0
     then if rte_ring_empty (rx_ring (descs s j)) then Inr (- 1, None, s \<lparr> errno := EAGAIN \<rparr>)
          else light_accept_by_proc_id j want (nat (stack_proc_id s)) s
     else cbind (loop_res (accept_wait env 0 j s)) (light_accept_by_proc_id j want (nat (stack_proc_id s)))))))"

definition light_accept4 ::
  "(nat \<Rightarrow> 'z sock_env_scheme \<Rightarrow> 'z sock_env_scheme) \<Rightarrow> int \<Rightarrow> bool \<Rightarrow> int \<Rightarrow> int \<Rightarrow> 'z sock_env_scheme
     \<Rightarrow> (int \<times> (u32 \<times> u16) option \<times> 'z sock_env_scheme) c_res" where
  "light_accept4 env fd want fl real_ioctl s =
     (if fl AND O_NONBLOCK \<noteq> 0
      then cbind (light_accept env fd want s) (\<lambda>(new_fd, peer, s1).
           if new_fd \<noteq> - 1
           then cbind (light_ioctl new_fd FIONBIO (Some 1) real_ioctl s1) (\<lambda>(_, _, s2). Inr (new_fd, peer, s2))
           else Inr (new_fd, peer, s1))
      else light_accept env fd want s)"

text \<open>The sockets \<open>K\<close> with their blocking mode set.\<close>

definition nb_socks :: "nat set \<Rightarrow> int \<Rightarrow> (nat \<Rightarrow> light_socket_t) \<Rightarrow> nat \<Rightarrow> light_socket_t" where
  "nb_socks K v h = (\<lambda>k. if k \<in> K then (h k) \<lparr> is_nonblock := v \<rparr> else h k)"

text \<open>The copies of a bound socket: descriptor \<open>cp p\<close> with shared socket \<open>sk p\<close> serves stack process \<open>p\<close>.\<close>

definition copies_ok :: "'z sock_env_scheme \<Rightarrow> nat \<Rightarrow> (nat \<Rightarrow> nat) \<Rightarrow> (nat \<Rightarrow> nat) \<Rightarrow> bool" where
  "copies_ok s i cp sk \<longleftrightarrow>
     (\<forall>p < num_procs s. copy_of s i (int p) = Inr (int (cp p)) \<and> cp p < 2048 \<and> socket (descs s (cp p)) = Some (sk p))"

text \<open>The sockets a mode change reaches: all copies of a multicore socket, else the socket itself.\<close>

definition mode_socks :: "'z sock_env_scheme \<Rightarrow> nat \<Rightarrow> nat \<Rightarrow> (nat \<Rightarrow> nat) \<Rightarrow> nat set" where
  "mode_socks s i k sk = (if is_multicore (socks s k) \<noteq> 0 then sk ` {..<num_procs s} else {k})"

text \<open>
  A process for concrete runs: the receive rings hold \<open>rx\<close>, the connections \<open>conns\<close> are free, one
  descriptor is free, and every command announces an accepted connection.
\<close>

definition demo_net :: "addr list \<Rightarrow> nat list \<Rightarrow> sock_env" where
  "demo_net rx conns = app_env.extend ((demo_app rx 0) \<lparr> fdt := demo_tables,
       cmd_mem := (\<lambda>_. \<lparr> cmd = LIGHT_SOCKET_ACCEPTED_COMMAND, ringset_idx = 0, parent_idx = 0, res = None,
                         u = accepted_socket 9 1 2 \<rparr>) \<rparr>)
     \<lparr> free_connections_ring = ring_of 3 0 conns, free_return_value_pools = (\<lambda>_. pool_of 2 0 [30]),
       ret_mem = (\<lambda>_. \<lparr> ready_signal = 1, return_value = 0, return_errno = 0 \<rparr>),
       free_epoll_node_pool = pool_of 2 0 [40, 41],
       enodes = (\<lambda>_. \<lparr> node_epoll_idx = - 1, epoll_events = 0, ready_events = 0, ep_data = 0 \<rparr>),
       socket_lists = \<lparr> tqh_first = (\<lambda>_. None), tqh_last = TqHead, tqe_next = (\<lambda>_. None), tqe_prev = (\<lambda>_. TqNull) \<rparr>,
       stack_proc_id = 0, errno = 0, pid = 100 \<rparr>"

section \<open>Lemmas\<close>

lemma sock_idx_nat [simp]: "j < 2048 \<Longrightarrow> sock_idx (int j) = Inr j"
  by (simp add: sock_idx_def LIGHT_CONNECTION_POOL_SIZE_def)

lemma nb_socks_simps [simp]:
  "nb_socks {} v h = h" "multicore_socket_copies (nb_socks K v h k) = multicore_socket_copies (h k)"
  "is_multicore (nb_socks K v h k) = is_multicore (h k)"
  by (simp_all add: nb_socks_def)

lemma copy_of_nb [simp]: "copy_of (s \<lparr> socks := nb_socks K v (socks s) \<rparr>) i p = copy_of s i p"
  by (simp add: copy_of_def sock_of_def split: option.split)

lemma put_nonblock_ok:
  "socket (descs s j) = Some k \<Longrightarrow> put_nonblock j v s = Inr (s \<lparr> socks := nb_socks {k} v (socks s) \<rparr>)"
  by (simp add: put_nonblock_def socket_ptr_def upd_sock_def nb_socks_def fun_upd_def cong: if_cong)

lemma nb_socks_insert: "nb_socks K v (nb_socks {k} v h) = nb_socks (insert k K) v h"
  by (auto simp: nb_socks_def)

lemma nonblock_copies_ok:
  fixes s :: "'z sock_env_scheme"
  assumes "\<forall>p \<in> set ps. copy_of s i (int p) = Inr (int (cp p)) \<and> cp p < 2048 \<and> socket (descs s (cp p)) = Some (sk p)"
  shows "nonblock_copies i ps v s = Inr (s \<lparr> socks := nb_socks (sk ` set ps) v (socks s) \<rparr>)"
  using assms
proof (induction ps arbitrary: s)
  case (Cons p ps)
  have "nonblock_copies i ps v (s \<lparr> socks := nb_socks {sk p} v (socks s) \<rparr>) =
      Inr (s \<lparr> socks := nb_socks (sk ` set ps) v (nb_socks {sk p} v (socks s)) \<rparr>)"
    using Cons.IH [of "s \<lparr> socks := nb_socks {sk p} v (socks s) \<rparr>"] Cons.prems by simp
  then show ?case using Cons.prems by (simp add: put_nonblock_ok nb_socks_insert)
qed simp

lemma set_nonblock_ok:
  assumes "socket (descs s i) = Some k" "is_multicore (socks s k) \<noteq> 0 \<Longrightarrow> copies_ok s i cp sk"
  shows "set_nonblock i v s = Inr (s \<lparr> socks := nb_socks (mode_socks s i k sk) v (socks s) \<rparr>)"
proof (cases "is_multicore (socks s k) = 0")
  case True
  then show ?thesis using assms by (simp add: set_nonblock_def sock_of_def mode_socks_def put_nonblock_ok)
next
  case False
  then have "nonblock_copies i [0..<num_procs s] v s = Inr (s \<lparr> socks := nb_socks (sk ` {..<num_procs s}) v (socks s) \<rparr>)"
    using nonblock_copies_ok [of "[0..<num_procs s]" s i cp sk v] assms(2) by (simp add: copies_ok_def atLeast0LessThan)
  then show ?thesis using False assms(1) by (simp add: set_nonblock_def sock_of_def mode_socks_def)
qed

text \<open>Setting the flags of a descriptor and reading them back agree: \<open>F_SETFL\<close> switches every socket
  behind the descriptor, all copies of a multicore socket included, and nothing else; \<open>F_GETFL\<close> then
  reports the mode.  \<open>FIONBIO\<close> has the same effect.\<close>

theorem light_fcntl_roundtrip:
  assumes "is_light_fd (fdt s) fd = Inr 1" "fd_sock fd s = Inr i" "socket (descs s i) = Some k"
    and "is_multicore (socks s k) \<noteq> 0 \<Longrightarrow> copies_ok s i cp sk"
    and "k \<in> mode_socks s i k sk"
  shows "\<exists>s1. light_fcntl fd F_SETFL arg sys s = Inr (0, s1) \<and>
     light_fcntl fd F_GETFL a sys s1 = Inr (if arg AND O_NONBLOCK \<noteq> 0 then 2050 else 2, s1) \<and>
     s1 = s \<lparr> socks := nb_socks (mode_socks s i k sk) (if arg AND O_NONBLOCK \<noteq> 0 then 1 else 0) (socks s) \<rparr> \<and>
     light_ioctl fd FIONBIO (Some (arg AND O_NONBLOCK)) sys s = Inr (0, Some (arg AND O_NONBLOCK), s1)"
proof -
  define v where "v = (if arg AND O_NONBLOCK \<noteq> 0 then 1 else 0 :: int)"
  define s1 where "s1 = s \<lparr> socks := nb_socks (mode_socks s i k sk) v (socks s) \<rparr>"
  have set: "set_nonblock i v s = Inr s1" unfolding s1_def by (rule set_nonblock_ok [OF assms(3,4)])
  have same: "fdt s1 = fdt s" "fd_sock fd s1 = fd_sock fd s" "sock_of s1 i = Inr (socks s1 k)"
    using assms(3) by (simp_all add: s1_def fd_sock_def sock_of_def)
  have nb: "is_nonblock (socks s1 k) = v" using assms(5) by (simp add: s1_def nb_socks_def)
  have "light_fcntl fd F_SETFL arg sys s = Inr (0, s1)"
    using assms(1,2) set by (simp add: light_fcntl_def F_GETFL_def F_SETFL_def v_def)
  moreover have "light_fcntl fd F_GETFL a sys s1 = Inr (if arg AND O_NONBLOCK \<noteq> 0 then 2050 else 2, s1)"
    using assms(1,2) same nb by (simp add: light_fcntl_def v_def O_NONBLOCK_def)
  moreover have "light_ioctl fd FIONBIO (Some (arg AND O_NONBLOCK)) sys s = Inr (0, Some (arg AND O_NONBLOCK), s1)"
    using assms(1,2) set by (simp add: light_ioctl_def FIONREAD_def FIONBIO_def v_def)
  ultimately show ?thesis unfolding s1_def v_def by blast
qed

lemma light_get_socket_ok:
  assumes "ring_ok (free_connections_ring s)" "contents (free_connections_ring s) = k # ks"
    and "connection_idx (socks s k) = int i" "i < 2048"
  obtains s1 where "light_get_socket fam ty proto s = Inr (int i, s1)" "fdt s1 = fdt s"
    "ring_ok (free_connections_ring s1)" "contents (free_connections_ring s1) = ks"
    "capacity (free_connections_ring s1) = capacity (free_connections_ring s)"
    "socket (descs s1 i) = Some k" "is_init (descs s1 i) = 0" "shadow (descs s1 i) = None"
    "family (descs s1 i) = fam" "type (descs s1 i) = ty" "protocol (descs s1 i) = proto"
    "socks s1 = (socks s) (k := (socks s k) \<lparr> is_multicore := 0 \<rparr>)" "\<forall>j. j \<noteq> i \<longrightarrow> descs s1 j = descs s j"
    "num_procs s1 = num_procs s"
  using that ring_take(1) [OF assms(1,2), of 0] ring_take(2,3) [OF assms(1,2)] assms(3,4)
  by (simp add: light_get_socket_def light_reset_local_descriptor_def upd_lists_def upd_desc_def upd_sock_def)

lemma light_get_socket_none:
  "ring_ok (free_connections_ring s) \<Longrightarrow> contents (free_connections_ring s) = [] \<Longrightarrow>
   light_get_socket fam ty proto s = Inr (- 1, s)"
  by (simp add: light_get_socket_def rte_ring_dequeue_eq)

text \<open>Closing a socket that was never initialised.\<close>

lemma close_uninitialised:
  assumes "socket (descs s i) = Some k" "is_multicore (socks s k) = 0" "is_init (descs s i) = 0"
    and "ring_ok (free_connections_ring s)" "length (contents (free_connections_ring s)) < capacity (free_connections_ring s)"
  shows "\<exists>rg. close_sock i s = Inr (0, s \<lparr> free_connections_ring := rg \<rparr>) \<and> ring_ok rg \<and>
     contents rg = contents (free_connections_ring s) @ [k]"
  using assms ring_give [OF assms(4,5), where x = k]
  by (intro exI [of _ "published (free_connections_ring s) [k] 1"])
    (simp add: close_sock_def socket_ptr_def close_single_def put_connection_def)

text \<open>C32. Opening and closing are inverse: with a free connection and a free descriptor
  \<open>light_open_socket\<close> returns a descriptor of the connection at the head of the ring, and closing
  it before it was bound or connected puts the connection back, frees the descriptor and
  restores the translation tables.\<close>

theorem light_open_close_roundtrip:
  assumes "fd_inv (fdt s)" "free_fds (fdt s) \<noteq> []" "light_to_true (fdt s) ! i = - 1"
    and "ring_ok (free_connections_ring s)" "contents (free_connections_ring s) = k # ks"
    and "connection_idx (socks s k) = int i" "i < 2048"
  shows "\<exists>fd s1 s2. light_open_socket fam ty proto s = Inr (fd, s1) \<and> fd = hd (free_fds (fdt s)) \<and>
     is_light_fd (fdt s1) fd = Inr 1 \<and> fd_sock fd s1 = Inr i \<and> socket (descs s1 i) = Some k \<and>
     contents (free_connections_ring s1) = ks \<and> fd_inv (fdt s1) \<and>
     light_close_index (int i) s1 = Inr (0, s2) \<and> fd_inv (fdt s2) \<and>
     contents (free_connections_ring s2) = ks @ [k] \<and> free_fds (fdt s2) = tl (free_fds (fdt s)) @ [fd] \<and>
     light_to_true (fdt s2) = light_to_true (fdt s) \<and> true_to_light (fdt s2) = true_to_light (fdt s)"
proof -
  have vi: "valid_index (int i) LIGHT_SOCKET_INDEX" "light_to_true (fdt s) ! nat (fd_slot (int i) LIGHT_SOCKET_INDEX) = - 1"
    using assms(3,7) by (simp_all add: valid_index_def fd_slot_def LIGHT_CONNECTION_POOL_SIZE_def LIGHT_SOCKET_INDEX_def
        LIGHT_EPOLL_INDEX_def)
  obtain s1 where s1: "light_get_socket fam ty proto s = Inr (int i, s1)" "fdt s1 = fdt s"
    "ring_ok (free_connections_ring s1)" "contents (free_connections_ring s1) = ks"
    "capacity (free_connections_ring s1) = capacity (free_connections_ring s)"
    "socket (descs s1 i) = Some k" "is_init (descs s1 i) = 0"
    "socks s1 = (socks s) (k := (socks s k) \<lparr> is_multicore := 0 \<rparr>)"
    by (rule light_get_socket_ok [OF assms(4-7), of fam ty proto]) simp
  obtain fd t where t: "get_new_light_fd (fdt s) (int i) LIGHT_SOCKET_INDEX = Inr (fd, t)" "fd_inv t"
    "free_fds (fdt s) = fd # free_fds t" "is_light_fd t fd = Inr 1"
    "light_fd_to_socket_epoll_index t fd = Inr (int i, LIGHT_SOCKET_INDEX)"
    "socket_epoll_index_to_light_fd t (int i) LIGHT_SOCKET_INDEX = Inr fd"
    using get_new_light_fd_maps [OF assms(1,2) vi] by auto
  obtain t2 where t2: "put_back_light_fd t fd = Inr (0, t2)" "fd_inv t2" "light_to_true t2 = light_to_true (fdt s)"
    "true_to_light t2 = true_to_light (fdt s)" "free_fds t2 = tl (free_fds (fdt s)) @ [fd]"
    using put_back_light_fd_undoes [OF assms(1,2) vi t(1)] by blast
  have room: "length ks < capacity (free_connections_ring s)"
    using ring_ok_count [OF assms(4)] assms(5) by simp
  obtain rg where rg: "close_sock i (s1 \<lparr> fdt := t2 \<rparr>) = Inr (0, s1 \<lparr> fdt := t2, free_connections_ring := rg \<rparr>)"
    "contents rg = ks @ [k]"
    using close_uninitialised [of "s1 \<lparr> fdt := t2 \<rparr>" i k] s1 room by auto
  have "light_open_socket fam ty proto s = Inr (fd, s1 \<lparr> fdt := t \<rparr>)"
    using s1(1,2) t(1) by (simp add: light_open_socket_def)
  moreover have "light_close_index (int i) (s1 \<lparr> fdt := t \<rparr>) = Inr (0, s1 \<lparr> fdt := t2, free_connections_ring := rg \<rparr>)"
    using t(6) t2(1) assms(7) rg(1) by (simp add: light_close_index_def)
  ultimately show ?thesis
    using s1 t t2 rg(2) assms(7) by (simp add: fd_sock_def)
qed

text \<open>Without a free connection \<open>light_open_socket\<close> does not fail cleanly: it takes a descriptor for the
  index \<open>- 1\<close> and stores it before the start of the translation table.\<close>

theorem light_open_socket_exhausted:
  assumes "fd_inv (fdt s)" "free_fds (fdt s) \<noteq> []"
    and "ring_ok (free_connections_ring s)" "contents (free_connections_ring s) = []"
  shows "light_open_socket fam ty proto s = Inl OutOfBounds"
proof -
  have "ring_ok (fd_mapping_ring (fdt s))" "contents (fd_mapping_ring (fdt s)) \<noteq> []"
    using assms(1,2) by (auto simp: fd_inv_def fd_storage_ok_def free_fds_def)
  then obtain p ps where "rte_ring_dequeue (fd_mapping_ring (fdt s)) 0 = (0, p, consumed (fd_mapping_ring (fdt s)) 1)"
    using ring_take(1) by (metis list.exhaust)
  then show ?thesis
    using light_get_socket_none [OF assms(3,4)]
    by (simp add: light_open_socket_def get_new_light_fd_def aset_def Let_def LIGHT_SOCKET_INDEX_def)
qed

lemma init_accepted_ok:
  assumes "pr < length (multicore_socket_copies (socks s k))"
  obtains s1 where "init_accepted i j k pr peer s = Inr s1" "fdt s1 = fdt s" "pid s1 = pid s"
    "free_connections_ring s1 = free_connections_ring s" "cmd_mem s1 = cmd_mem s" "command_rings s1 = command_rings s"
    "free_command_pools s1 = free_command_pools s" "rx_ring (descs s1 i) = rx_ring (descs s i)"
    "socket (descs s1 j) = Some k" "proc_id (descs s1 j) = pr"
    "multicore_socket_copies (socks s1 k) ! pr = int j" "pr < length (multicore_socket_copies (socks s1 k))"
  using that assms
  by (cases peer)
    (simp_all add: init_accepted_def light_reset_local_descriptor_def upd_lists_def upd_desc_def upd_sock_def
      set_copy_def socket_ptr_def Let_def split: prod.splits)

lemma cmd_inv_cong:
  "free_command_pools s' pr = free_command_pools s pr \<Longrightarrow> command_rings s' pr = command_rings s pr \<Longrightarrow>
   cmd_inv s' pr held = cmd_inv s pr held"
  by (simp add: cmd_inv_def cmd_bufs_def)

text \<open>What \<open>_light_accept\<close> does up to the enqueue of its command.\<close>

lemma accept_to_enqueue:
  assumes "ring_ok (rx_ring (descs s i))" "contents (rx_ring (descs s i)) = c # cs"
    and "u (cmd_mem s c) = accepted_socket descr ip port"
    and "ring_ok (free_connections_ring s)" "contents (free_connections_ring s) = k # ks"
    and "connection_idx (socks s k) = int j" "j < 2048" "pr < length (multicore_socket_copies (socks s k))"
  obtains s3 where "light_accept_by_proc_id i want pr s =
      announce_accepted c pr j (int j) descr (if want then Some (ip, port) else None) s3"
    "fdt s3 = fdt s" "pid s3 = pid s" "contents (free_connections_ring s3) = ks" "cmd_mem s3 = cmd_mem s" "command_rings s3 = command_rings s"
    "free_command_pools s3 = free_command_pools s" "contents (rx_ring (descs s3 i)) = cs"
    "socket (descs s3 j) = Some k" "proc_id (descs s3 j) = pr"
    "multicore_socket_copies (socks s3 k) ! pr = int j" "pr < length (multicore_socket_copies (socks s3 k))"
proof -
  note rx = ring_take(1) [OF assms(1,2), of 0] ring_take(2,3) [OF assms(1,2)]
  note fr = ring_take(1) [OF assms(4,5), of 0] ring_take(2,3) [OF assms(4,5)]
  define s2 where "s2 = (upd_desc i (\<lambda>d. d \<lparr> rx_ring := consumed (rx_ring (descs s i)) 1 \<rparr>) s)
      \<lparr> free_connections_ring := consumed (free_connections_ring s) 1 \<rparr>"
  have s2: "fdt s2 = fdt s" "pid s2 = pid s" "cmd_mem s2 = cmd_mem s" "command_rings s2 = command_rings s"
    "free_command_pools s2 = free_command_pools s" "socks s2 = socks s"
    "rx_ring (descs s2 i) = consumed (rx_ring (descs s i)) 1"
    "free_connections_ring s2 = consumed (free_connections_ring s) 1"
    by (simp_all add: s2_def upd_desc_def)
  obtain s3 where s3: "init_accepted i j k pr (if want then Some (ip, port) else None) s2 = Inr s3" "fdt s3 = fdt s2"
    "pid s3 = pid s2" "free_connections_ring s3 = free_connections_ring s2" "cmd_mem s3 = cmd_mem s2"
    "command_rings s3 = command_rings s2" "free_command_pools s3 = free_command_pools s2"
    "rx_ring (descs s3 i) = rx_ring (descs s2 i)" "socket (descs s3 j) = Some k" "proc_id (descs s3 j) = pr"
    "multicore_socket_copies (socks s3 k) ! pr = int j" "pr < length (multicore_socket_copies (socks s3 k))"
    using init_accepted_ok [of pr s2 k i j "if want then Some (ip, port) else None"] assms(8) s2(6) by metis
  have up: "free_connections_ring (upd_desc i f s) = free_connections_ring s" "cmd_mem (upd_desc i f s) = cmd_mem s"
    "socks (upd_desc i f s) = socks s" for f by (simp_all add: upd_desc_def)
  have run: "light_accept_by_proc_id i want pr s =
      announce_accepted c pr j (int j) descr (if want then Some (ip, port) else None) s3"
    using rx(1) fr(1) assms(3,6,7) s2(2) s3(1,3)
    by (simp add: light_accept_by_proc_id_def Let_def up accepted_fields_def s2_def [symmetric] del: if_split cong: if_cong)
  show thesis by (rule that [OF run]) (use s3 s2 rx fr in simp_all)
qed

text \<open>C33. A connection that waits on a listening socket becomes an open socket: the caller gets a new
  descriptor and, if wanted, the peer's address; the data operations on the descriptor go to the
  new connection and the process that accepted it; and the command buffer that announced the
  connection is sent back to that process with the new ring set, without a buffer lost.\<close>

theorem light_accept_opens:
  assumes "ring_ok (rx_ring (descs s i))" "contents (rx_ring (descs s i)) = c # cs"
    and "u (cmd_mem s c) = accepted_socket descr ip port"
    and "ring_ok (free_connections_ring s)" "contents (free_connections_ring s) = k # ks"
    and "connection_idx (socks s k) = int j" "j < 2048" "pr < length (multicore_socket_copies (socks s k))"
    and "fd_inv (fdt s)" "free_fds (fdt s) \<noteq> []" "light_to_true (fdt s) ! j = - 1"
    and "cmd_inv s pr (c # held)" "length (contents (command_rings s pr)) < capacity (command_rings s pr)"
  shows "\<exists>fd s'. light_accept_by_proc_id i want pr s = Inr (fd, if want then Some (ip, port) else None, s') \<and>
     fd = hd (free_fds (fdt s)) \<and> is_light_fd (fdt s') fd = Inr 1 \<and> target_sock fd s' = Inr (j, pr) \<and>
     socket (descs s' j) = Some k \<and> is_init (descs s' j) = 1 \<and> fd_inv (fdt s') \<and>
     contents (rx_ring (descs s' i)) = cs \<and> contents (free_connections_ring s') = ks \<and> cmd_inv s' pr held \<and>
     queued_cmds s' pr = queued_cmds s pr @ [set_ring_cmd (int j) descr (pid s) (cmd_mem s c)]"
proof -
  obtain s3 where s3: "light_accept_by_proc_id i want pr s =
      announce_accepted c pr j (int j) descr (if want then Some (ip, port) else None) s3"
    "fdt s3 = fdt s" "pid s3 = pid s" "contents (free_connections_ring s3) = ks" "cmd_mem s3 = cmd_mem s" "command_rings s3 = command_rings s"
    "free_command_pools s3 = free_command_pools s" "contents (rx_ring (descs s3 i)) = cs"
    "socket (descs s3 j) = Some k" "proc_id (descs s3 j) = pr"
    "multicore_socket_copies (socks s3 k) ! pr = int j" "pr < length (multicore_socket_copies (socks s3 k))"
    by (rule accept_to_enqueue [OF assms(1-8)])
  let ?w = "write_cmd c (set_ring_cmd (int j) descr (pid s)) s3"
  have inv: "cmd_inv ?w pr (c # held)" using assms(12) cmd_inv_cong [of s3 pr s] s3(6,7) by simp
  have fresh: "c \<notin> set (contents (command_rings s pr))" using assms(12) by (auto simp: cmd_inv_def cmd_bufs_def)
  obtain s4 where s4: "light_enqueue_command_buf_by_proc_id c pr ?w = (0, s4)" "cmd_inv s4 pr held"
    "contents (command_rings s4 pr) = contents (command_rings s pr) @ [c]" "cmd_mem s4 = cmd_mem ?w"
    "cmd_env.more s4 = cmd_env.more ?w"
    using cmd_enqueue_room [OF inv] assms(13) s3(6) by (metis write_cmd_fields(2))
  have same: "fdt s4 = fdt s3" "descs s4 = descs s3" "socks s4 = socks s3" "free_connections_ring s4 = free_connections_ring s3"
    using s4(1) by (auto simp: light_enqueue_command_buf_by_proc_id_def write_cmd_def split: prod.splits)
  have vi: "valid_index (int j) LIGHT_SOCKET_INDEX" "light_to_true (fdt s) ! nat (fd_slot (int j) LIGHT_SOCKET_INDEX) = - 1"
    using assms(7,11) by (simp_all add: valid_index_def fd_slot_def LIGHT_CONNECTION_POOL_SIZE_def LIGHT_SOCKET_INDEX_def
        LIGHT_EPOLL_INDEX_def)
  obtain fd t where t: "get_new_light_fd (fdt s) (int j) LIGHT_SOCKET_INDEX = Inr (fd, t)" "fd_inv t"
    "free_fds (fdt s) = fd # free_fds t" "is_light_fd t fd = Inr 1"
    "light_fd_to_socket_epoll_index t fd = Inr (int j, LIGHT_SOCKET_INDEX)"
    using get_new_light_fd_maps [OF assms(9,10) vi] by auto
  define s' where "s' = (upd_desc j (\<lambda>d. d \<lparr> is_init := 1 \<rparr>) s4) \<lparr> fdt := t \<rparr>"
  have "light_accept_by_proc_id i want pr s = Inr (fd, if want then Some (ip, port) else None, s')"
    using s3(1,2,3) s4(1) same(1) t(1) by (simp add: announce_accepted_def s'_def upd_desc_def)
  moreover have "target_sock fd s' = Inr (j, pr)"
    using t(5) s3 same by (simp add: target_sock_def s'_def upd_desc_def sock_of_def)
  moreover have "queued_cmds s' pr = queued_cmds s pr @ [set_ring_cmd (int j) descr (pid s) (cmd_mem s c)]"
    using s4(3,4) s3(5) fresh by (simp add: queued_cmds_def s'_def upd_desc_def)
  moreover have "cmd_inv s' pr held" using s4(2) cmd_inv_cong [of s' pr s4 held] by (simp add: s'_def upd_desc_def)
  moreover have "contents (rx_ring (descs s' i)) = cs" using s3(8) same(2) by (auto simp: s'_def upd_desc_def)
  moreover have "fdt s' = t" "socket (descs s' j) = Some k" "is_init (descs s' j) = 1" "contents (free_connections_ring s') = ks"
    using s3(4,9) same by (simp_all add: s'_def upd_desc_def)
  ultimately show ?thesis using t by (intro exI [of _ fd] exI [of _ s']) simp
qed

text \<open>When the command ring is full the accepted connection is lost: the call fails and gives the
  command buffer back, but the connection it took is neither returned to the free connections
  nor reachable through any descriptor.\<close>

theorem light_accept_leaks_connection:
  assumes "ring_ok (rx_ring (descs s i))" "contents (rx_ring (descs s i)) = c # cs"
    and "u (cmd_mem s c) = accepted_socket descr ip port"
    and "ring_ok (free_connections_ring s)" "contents (free_connections_ring s) = k # ks"
    and "connection_idx (socks s k) = int j" "j < 2048" "pr < length (multicore_socket_copies (socks s k))"
    and "cmd_inv s pr (c # held)" "length (contents (command_rings s pr)) = capacity (command_rings s pr)"
  shows "\<exists>s'. light_accept_by_proc_id i want pr s = Inr (- 1, if want then Some (ip, port) else None, s') \<and>
     contents (free_connections_ring s') = ks \<and> fdt s' = fdt s \<and> queued_cmds s' pr = queued_cmds s pr \<and>
     pool_free (free_command_pools s' pr) = pool_free (free_command_pools s pr) @ [c]"
proof -
  obtain s3 where s3: "light_accept_by_proc_id i want pr s =
      announce_accepted c pr j (int j) descr (if want then Some (ip, port) else None) s3"
    "fdt s3 = fdt s" "pid s3 = pid s" "contents (free_connections_ring s3) = ks" "cmd_mem s3 = cmd_mem s" "command_rings s3 = command_rings s"
    "free_command_pools s3 = free_command_pools s"
    by (rule accept_to_enqueue [OF assms(1-8)])
  let ?w = "write_cmd c (set_ring_cmd (int j) descr (pid s)) s3"
  have inv: "cmd_inv ?w pr (c # held)" using assms(9) cmd_inv_cong [of s3 pr s] s3(6,7) by simp
  have fresh: "c \<notin> set (contents (command_rings s pr))" using assms(9) by (auto simp: cmd_inv_def cmd_bufs_def)
  have "light_enqueue_command_buf_by_proc_id c pr ?w = (1, ?w)"
    by (rule cmd_enqueue_full) (use inv assms(10) s3(6) in \<open>simp_all add: cmd_inv_def\<close>)
  then have run: "light_accept_by_proc_id i want pr s =
      Inr (- 1, if want then Some (ip, port) else None, light_free_command_buf_by_proc_id c pr ?w)"
    using s3(1,3) by (simp add: announce_accepted_def)
  have "free_connections_ring (light_free_command_buf_by_proc_id c pr ?w) = free_connections_ring s3"
    "fdt (light_free_command_buf_by_proc_id c pr ?w) = fdt s3"
    "queued_cmds (light_free_command_buf_by_proc_id c pr ?w) pr = queued_cmds s pr"
    using s3(5,6) fresh by (auto simp: light_free_command_buf_by_proc_id_def write_cmd_def queued_cmds_def)
  then show ?thesis using run cmd_free(2) [OF inv] s3(2,3,4,7)
    by (intro exI [of _ "light_free_command_buf_by_proc_id c pr ?w"]) simp
qed

text \<open>Freeing a chain releases its buffers in order.\<close>

lemma rte_pktmbuf_free_chain:
  fixes s :: "'z app_env_scheme"
  assumes "chain (mbufs s) m as" "\<forall>a \<in> set as. refcnt (mbufs s a) = 1"
  shows "rte_pktmbuf_free m s = Some (s \<lparr> mbufs := freed as (mbufs s), released := released s @ as \<rparr>)"
  using assms
proof (induction as arbitrary: m s)
  case Nil
  then show ?case by (simp add: rte_pktmbuf_free.simps freed_def)
next
  case (Cons a as)
  have a: "a \<notin> set as" using chain_distinct [OF Cons.prems(1)] by simp
  define t where "t = s \<lparr> mbufs := (mbufs s) (a := (mbufs s a) \<lparr> refcnt := 0, next_seg := None \<rparr>),
     released := released s @ [a] \<rparr>"
  have free: "free_mbuf a s = t"
    using Cons.prems(2) by (simp add: free_mbuf_def pktmbuf_prefree_seg_def upd_mbuf_def t_def)
  have "chain (mbufs t) (next_seg (mbufs s a)) as = chain (mbufs s) (next_seg (mbufs s a)) as"
    by (rule chain_cong) (use a in \<open>auto simp: t_def\<close>)
  moreover have "\<forall>b \<in> set as. refcnt (mbufs t b) = 1" using Cons.prems(2) a by (auto simp: t_def)
  ultimately have "rte_pktmbuf_free (next_seg (mbufs s a)) t = Some (t \<lparr> mbufs := freed as (mbufs t), released := released t @ as \<rparr>)"
    using Cons.prems(1) by (intro Cons.IH) simp_all
  moreover have "rte_pktmbuf_free m s = rte_pktmbuf_free (next_seg (mbufs s a)) (free_mbuf a s)"
    using Cons.prems(1) by (subst rte_pktmbuf_free.simps) simp
  ultimately show ?case using free freed_Cons [OF a, of "mbufs s"] by (simp add: t_def)
qed

lemma freed_same [simp]: "a \<notin> set as \<Longrightarrow> freed as h a = h a"
  by (simp add: freed_def)

lemma flush_cache_ok:
  fixes s :: "'z app_env_scheme"
  assumes "queue_ok s i rcs"
  shows "\<exists>rg. flush_cache i s = Some (s \<lparr> mbufs := freed (concat rcs) (mbufs s), released := released s @ concat rcs,
      descs := (descs s) (i := (descs s i) \<lparr> rx_ring := rg \<rparr>) \<rparr>) \<and> ring_ok rg \<and> contents rg = []"
  using assms
proof (induction rcs arbitrary: s)
  case Nil
  then show ?case
    by (intro exI [of _ "rx_ring (descs s i)"])
      (simp add: flush_cache.simps rte_ring_dequeue_eq queue_ok_def freed_def fun_upd_idem)
next
  case (Cons c rcs)
  let ?r = "rx_ring (descs s i)"
  have q: "ring_ok ?r" "contents ?r = hd c # map hd rcs" "chain (mbufs s) (Some (hd c)) c"
    "\<forall>a \<in> set c. refcnt (mbufs s a) = 1" "set c \<inter> set (concat rcs) = {}"
    using Cons.prems by (auto simp: queue_ok_def live_seg_def)
  define t where "t = s \<lparr> mbufs := freed c (mbufs s), released := released s @ c,
     descs := (descs s) (i := (descs s i) \<lparr> rx_ring := consumed ?r 1 \<rparr>) \<rparr>"
  have free: "rte_pktmbuf_free (Some (hd c)) (upd_desc i (\<lambda>d. d \<lparr> rx_ring := consumed ?r 1 \<rparr>) s) = Some t"
    using rte_pktmbuf_free_chain [of "upd_desc i (\<lambda>d. d \<lparr> rx_ring := consumed ?r 1 \<rparr>) s" "Some (hd c)" c] q
    by (simp add: upd_desc_def t_def)
  have "chain (mbufs t) (Some (hd d)) d" if "d \<in> set rcs" for d
  proof -
    have "chain (mbufs t) (Some (hd d)) d = chain (mbufs s) (Some (hd d)) d"
      by (rule chain_cong) (use q(5) that in \<open>auto simp: t_def freed_def disjoint_iff\<close>)
    then show ?thesis using Cons.prems that by (simp add: queue_ok_def)
  qed
  moreover have "live_seg (mbufs t a)" if "a \<in> set (concat rcs)" for a
  proof -
    have "mbufs t a = mbufs s a" using q(5) that by (auto simp: t_def freed_def disjoint_iff)
    then show ?thesis using Cons.prems that by (simp add: queue_ok_def)
  qed
  ultimately have "queue_ok t i rcs"
    using Cons.prems ring_take(2,3) [OF q(1,2)] by (simp add: queue_ok_def t_def)
  from Cons.IH [OF this] obtain rg where rg: "flush_cache i t = Some (t \<lparr> mbufs := freed (concat rcs) (mbufs t),
      released := released t @ concat rcs, descs := (descs t) (i := (descs t i) \<lparr> rx_ring := rg \<rparr>) \<rparr>)"
      "ring_ok rg" "contents rg = []" by blast
  have "flush_cache i s = flush_cache i t"
    using ring_take(1) [OF q(1,2), of 0] free by (subst flush_cache.simps) simp
  moreover have "freed (concat rcs) (mbufs t) = freed (concat (c # rcs)) (mbufs s)"
    by (auto simp: t_def freed_def)
  moreover have "(descs t) (i := (descs t i) \<lparr> rx_ring := rg \<rparr>) = (descs s) (i := (descs s i) \<lparr> rx_ring := rg \<rparr>)"
    by (simp add: t_def)
  ultimately show ?case using rg by (intro exI [of _ rg]) (simp add: t_def fun_upd_def cong: if_cong)
qed

lemma flush_ring_empty:
  "ring_ok (rx_ring (descs s i)) \<Longrightarrow> contents (rx_ring (descs s i)) = [] \<Longrightarrow> flush_ring i s = Some s"
  using sc_do_dequeue_variable [of "rx_ring (descs s i)" 1 "[0]"] by (subst flush_ring.simps) (simp add: ring_ok_def)

text \<open>The ring part of the flush, as one step.\<close>

lemma flush_rings_ok:
  fixes s :: "'z app_env_scheme"
  assumes "queue_ok s i rcs"
  obtains s2 where "light_flush_rx i s = flush_shadow i s2" "mbufs s2 = freed (concat rcs) (mbufs s)"
    "released s2 = released s @ concat rcs" "contents (rx_ring (descs s2 i)) = []"
    "shadow (descs s2 i) = shadow (descs s i)" "shadow_next (descs s2 i) = shadow_next (descs s i)"
proof -
  obtain rg where rg: "flush_cache i s = Some (s \<lparr> mbufs := freed (concat rcs) (mbufs s), released := released s @ concat rcs,
      descs := (descs s) (i := (descs s i) \<lparr> rx_ring := rg \<rparr>) \<rparr>)" "ring_ok rg" "contents rg = []"
    using flush_cache_ok [OF assms] by blast
  define s2 where "s2 = s \<lparr> mbufs := freed (concat rcs) (mbufs s),
      released := released s @ concat rcs, descs := (descs s) (i := (descs s i) \<lparr> rx_ring := rg \<rparr>) \<rparr>"
  have "flush_ring i s2 = Some s2" by (rule flush_ring_empty) (use rg in \<open>simp_all add: s2_def\<close>)
  then show thesis using that [of s2] rg by (simp add: light_flush_rx_def s2_def)
qed

text \<open>Releasing a shadow that is no longer linked to the rest of its packet, and one that is.\<close>

lemma flush_shadow_none:
  assumes "shadow (descs s i) = None" "shadow_next (descs s i) = None"
  shows "\<exists>s'. flush_shadow i s = Inr s' \<and> released s' = released s \<and> mbufs s' = mbufs s \<and>
     rx_ring (descs s' i) = rx_ring (descs s i) \<and> shadow (descs s' i) = None \<and> shadow_next (descs s' i) = None"
  using assms by (simp add: flush_shadow_def upd_desc_def)

lemma flush_shadow_cut:
  assumes "shadow (descs s i) = Some m" "next_seg (mbufs s m) = None" "chain (mbufs s) (shadow_next (descs s i)) sh"
    and "\<forall>a \<in> set (m # sh). refcnt (mbufs s a) = 1" "m \<notin> set sh"
  shows "\<exists>s'. flush_shadow i s = Inr s' \<and> released s' = released s @ m # sh \<and> mbufs s' = freed (m # sh) (mbufs s) \<and>
     rx_ring (descs s' i) = rx_ring (descs s i) \<and> shadow (descs s' i) = None \<and> shadow_next (descs s' i) = None"
proof -
  define s3 where "s3 = upd_desc i (\<lambda>d. d \<lparr> shadow := None \<rparr>) (s \<lparr> mbufs := freed [m] (mbufs s), released := released s @ [m] \<rparr>)"
  have one: "rte_pktmbuf_free (Some m) s = Some (s \<lparr> mbufs := freed [m] (mbufs s), released := released s @ [m] \<rparr>)"
    by (rule rte_pktmbuf_free_chain) (use assms(2,4) in auto)
  have s3: "mbufs s3 = freed [m] (mbufs s)" "released s3 = released s @ [m]" "shadow (descs s3 i) = None"
    "shadow_next (descs s3 i) = shadow_next (descs s i)" "rx_ring (descs s3 i) = rx_ring (descs s i)"
    by (simp_all add: s3_def upd_desc_def)
  have "chain (mbufs s3) (shadow_next (descs s i)) sh = chain (mbufs s) (shadow_next (descs s i)) sh"
    by (rule chain_cong) (use assms(5) s3(1) in \<open>auto simp: freed_def\<close>)
  then have two: "rte_pktmbuf_free (shadow_next (descs s i)) s3 = Some (s3 \<lparr> mbufs := freed sh (mbufs s3), released := released s3 @ sh \<rparr>)"
    using assms(3,4,5) s3(1) by (intro rte_pktmbuf_free_chain) (auto simp: freed_def)
  have "freed sh (freed [m] (mbufs s)) = freed (m # sh) (mbufs s)" by (auto simp: freed_def)
  moreover have "sh = []" if "shadow_next (descs s i) = None" using assms(3) that by (cases sh) auto
  moreover have "flush_shadow i s =
      cbind (case shadow_next (descs s3 i) of None \<Rightarrow> Inr s3
             | Some m \<Rightarrow> cbind (loop_res (rte_pktmbuf_free (Some m) s3)) (\<lambda>s4.
                 Inr (upd_desc i (\<lambda>d. d \<lparr> shadow_next := None \<rparr>) s4))) (\<lambda>s4.
      Inr (upd_desc i (\<lambda>d. d \<lparr> shadow_len_delievered := 0, shadow_len_remainder := 0 \<rparr>) s4))"
    using assms(1) one by (simp add: flush_shadow_def s3_def [symmetric])
  ultimately show ?thesis
    using two s3 by (cases "shadow_next (descs s i)") (auto simp: upd_desc_def)
qed


text \<open>After a read that ended exactly at the end of a segment the shadow is still linked to the rest of
  its packet, which the descriptor also remembers; the flush then frees the second segment twice:
  it is back in its pool when its reference count is decremented again, to 65535.\<close>

theorem light_flush_rx_frees_twice:
  assumes "rx_ok s i (n # sh) rcs" "shadow (descs s i) = Some m" "next_seg (mbufs s m) = shadow_next (descs s i)"
  shows "\<exists>s'. light_flush_rx i s = Inr s' \<and> released s' = released s @ concat rcs @ m # n # sh \<and>
     refcnt (mbufs s' n) = 65535"
proof -
  have q: "queue_ok s i rcs" and sho: "shadow_ok (mbufs s) (descs s i) (n # sh)"
    and dist: "distinct (m # n # sh @ concat rcs)"
    using assms(1,2) by (auto simp: rx_ok_def queue_ok_def shadow_addrs_def)
  obtain s2 where s2: "light_flush_rx i s = flush_shadow i s2" "mbufs s2 = freed (concat rcs) (mbufs s)"
    "released s2 = released s @ concat rcs" "contents (rx_ring (descs s2 i)) = []"
    "shadow (descs s2 i) = shadow (descs s i)" "shadow_next (descs s2 i) = shadow_next (descs s i)"
    by (rule flush_rings_ok [OF q])
  let ?c = "m # n # sh"
  have out: "\<forall>a \<in> set ?c. mbufs s2 a = mbufs s a" using dist s2(2) by (auto simp: freed_def disjoint_iff)
  have ch: "chain (mbufs s) (Some m) ?c" "shadow_next (descs s i) = Some n"
    using sho assms(2,3) by (auto simp: shadow_ok_def)
  have "chain (mbufs s2) (Some m) ?c = chain (mbufs s) (Some m) ?c" by (rule chain_cong) (use out in auto)
  then have one: "rte_pktmbuf_free (Some m) s2 = Some (s2 \<lparr> mbufs := freed ?c (mbufs s2), released := released s2 @ ?c \<rparr>)"
    using ch sho assms(2) out by (intro rte_pktmbuf_free_chain) (auto simp: shadow_ok_def live_seg_def)
  define s3 where "s3 = upd_desc i (\<lambda>d. d \<lparr> shadow := None \<rparr>) (s2 \<lparr> mbufs := freed ?c (mbufs s2), released := released s2 @ ?c \<rparr>)"
  have s3: "mbufs s3 = freed ?c (mbufs s2)" "released s3 = released s2 @ ?c" "shadow_next (descs s3 i) = Some n"
    using s2(6) ch(2) by (simp_all add: s3_def upd_desc_def)
  have n: "refcnt (mbufs s3 n) = 0" "next_seg (mbufs s3 n) = None" by (simp_all add: s3(1) freed_def)
  have two: "rte_pktmbuf_free (Some n) s3 = Some (upd_mbuf n (\<lambda>b. b \<lparr> refcnt := 65535 \<rparr>) s3)"
    using n by (simp add: rte_pktmbuf_free.simps free_mbuf_def pktmbuf_prefree_seg_def upd_mbuf_def)
  have "flush_shadow i s2 =
      cbind (case shadow_next (descs s3 i) of None \<Rightarrow> Inr s3
             | Some m \<Rightarrow> cbind (loop_res (rte_pktmbuf_free (Some m) s3)) (\<lambda>s4.
                 Inr (upd_desc i (\<lambda>d. d \<lparr> shadow_next := None \<rparr>) s4))) (\<lambda>s4.
      Inr (upd_desc i (\<lambda>d. d \<lparr> shadow_len_delievered := 0, shadow_len_remainder := 0 \<rparr>) s4))"
    using one s2(5) assms(2) by (simp add: flush_shadow_def s3_def [symmetric])
  then show ?thesis using two s3 s2(1,3) by (simp add: upd_desc_def upd_mbuf_def)
qed

lemma demo_net_simps [simp]:
  "descs (demo_net rx cs) i = demo_desc rx" "socks (demo_net rx cs) k = demo_sock 0" "fdt (demo_net rx cs) = demo_tables"
  "free_connections_ring (demo_net rx cs) = ring_of 3 0 cs" "pid (demo_net rx cs) = 100" "num_procs (demo_net rx cs) = 1"
  "free_command_pools (demo_net rx cs) = (\<lambda>_. pool_of 3 0 [6, 7])" "command_rings (demo_net rx cs) = (\<lambda>_. ring_of 1 0 [])"
  "u (cmd_mem (demo_net rx cs) c) = accepted_socket 9 1 2" "released (demo_net rx cs) = []"
  "mbufs (demo_net rx cs) a = (if a = 10 then demo_mbuf [1, 2, 3] (Some 11) else demo_mbuf [4, 5] None)"
  by (simp_all add: demo_net_def app_env.defs demo_app_def demo_env_def cmd_env.defs)

lemma demo_fields [simp]: "connection_idx (demo_sock sig) = 3" "is_multicore (demo_sock sig) = 0" "is_init (demo_desc rx) = 1"
  "shadow_next (demo_desc rx) = None"
  by (simp_all add: demo_sock_def demo_desc_def)

lemma demo_net_ok:
  "length rx \<le> 7 \<Longrightarrow> ring_ok (ring_of 3 (0 :: addr) rx) \<and> contents (ring_of 3 (0 :: addr) rx) = rx"
  "cmd_inv (demo_net rx cs) pr [5]" "contents (ring_of 1 (0 :: addr) []) = []" "capacity (ring_of 1 (0 :: addr) []) = 1"
  "light_to_true demo_tables ! 3 = - 1"
  using ring_of_ok [of 3 rx "0 :: addr"] ring_of_ok [of 1 "[]" "0 :: addr"] pool_of_ok [of 3 "[6, 7]" "0 :: addr"]
  by (simp_all add: cmd_inv_def cmd_bufs_def demo_tables_def)

theorem light_fcntl_roundtrip_witness:
  "\<exists>(s :: sock_env) s1. light_fcntl 0 F_SETFL 2048 0 s = Inr (0, s1) \<and> light_fcntl 0 F_GETFL 0 0 s1 = Inr (2050, s1) \<and> num_procs s = 1"
proof -
  let ?s = "demo_net [] [] \<lparr> fdt := demo_tables \<lparr> true_to_light := [3], full_true_fd := [1] \<rparr>,
     socks := (\<lambda>_. (demo_sock 0) \<lparr> is_multicore := 1 \<rparr>) \<rparr>"
  have a: "is_light_fd (fdt ?s) 0 = Inr 1" by (simp add: is_light_fd_def aget_def)
  have b: "fd_sock 0 ?s = Inr 3"
    by (simp add: fd_sock_def light_fd_to_socket_epoll_index_def aget_def sock_idx_def LIGHT_CONNECTION_POOL_SIZE_def)
  have c: "socket (descs ?s 3) = Some 3" by simp
  have d: "copies_ok ?s 3 (\<lambda>_. 3) (\<lambda>_. 3)" by (simp add: copies_ok_def copy_of_def sock_of_def aget_def)
  have e: "3 \<in> mode_socks ?s 3 3 (\<lambda>_. 3)" by (simp add: mode_socks_def)
  have v: "(2048 :: int) AND O_NONBLOCK = 2048" by (simp add: O_NONBLOCK_def)
  have "num_procs ?s = 1" by simp
  then show ?thesis using light_fcntl_roundtrip [OF a b c d e, of 2048 0 0] unfolding v by - (rule exI [of _ ?s], auto)
qed

theorem light_open_close_roundtrip_witness:
  "\<exists>s1 s2. light_open_socket 2 1 0 (demo_net [] [3, 4]) = Inr (7, s1) \<and> light_close_index 3 s1 = Inr (0, s2) \<and>
     contents (free_connections_ring s2) = [4, 3]"
  using light_open_close_roundtrip [of "demo_net [] [3, 4]" 3 3 "[4]" 2 1 0] demo_tables_inv demo_net_ok(1) [of "[3, 4]"]
    demo_net_ok(5) by auto

theorem light_open_socket_exhausted_witness:
  "light_open_socket 2 1 0 (demo_net [] []) = Inl OutOfBounds"
  using light_open_socket_exhausted [of "demo_net [] []" 2 1 0] demo_tables_inv demo_net_ok(1) [of "[]"] by simp

theorem light_accept_opens_witness:
  "\<exists>s'. light_accept_by_proc_id 8 True 0 (demo_net [5] [3]) = Inr (7, Some (1, 2), s') \<and> target_sock 7 s' = Inr (3, 0)"
  using light_accept_opens [of "demo_net [5] [3]" 8 5 "[]" 9 1 2 3 "[]" 3 0 "[]" True] demo_tables_inv demo_net_ok by auto

theorem light_accept_leaks_connection_witness:
  "\<exists>(s :: sock_env) s'. contents (free_connections_ring s) = [3] \<and> light_accept_by_proc_id 8 True 0 s = Inr (- 1, Some (1, 2), s') \<and>
     contents (free_connections_ring s') = [] \<and> fdt s' = fdt s"
proof -
  let ?s = "demo_net [5] [3] \<lparr> command_rings := (\<lambda>_. ring_of 1 0 [8]) \<rparr>"
  have "cmd_inv ?s 0 [5]" "length (contents (command_rings ?s 0)) = capacity (command_rings ?s 0)"
    using ring_of_ok [of 1 "[8]" "0 :: addr"] pool_of_ok [of 3 "[6, 7]" "0 :: addr"] by (simp_all add: cmd_inv_def cmd_bufs_def)
  then show ?thesis
    using light_accept_leaks_connection [of ?s 8 5 "[]" 9 1 2 3 "[]" 3 0 "[]" True] demo_net_ok(1)
    by - (rule exI [of _ ?s], auto)
qed

lemma demo_mbuf_fields [simp]: "next_seg (demo_mbuf bs n) = n" "refcnt (demo_mbuf bs n) = 1" "data_len (demo_mbuf bs n) = length bs"
  "data_off (demo_mbuf bs n) = 0" "buf (demo_mbuf bs n) = bs"
  by (simp_all add: demo_mbuf_def)


theorem light_flush_rx_frees_twice_witness:
  "\<exists>(s :: sock_env) s'. light_flush_rx 3 s = Inr s' \<and> released s' = [10, 11] \<and> refcnt (mbufs s' 11) = 65535"
proof -
  let ?s = "demo_net [] [] \<lparr> descs := (\<lambda>_. (demo_desc []) \<lparr> shadow := Some 10, shadow_next := Some 11,
      shadow_len_remainder := 3, shadow_len_delievered := 0 \<rparr>) \<rparr>"
  have "rx_ok ?s 3 [11] []"
    using demo_net_ok(1) [of "[]"] by (simp add: rx_ok_def shadow_ok_def shadow_addrs_def live_seg_def seg_ok_def)
  then show ?thesis using light_flush_rx_frees_twice [of ?s 3 11 "[]" "[]" 10] by - (rule exI [of _ ?s], auto)
qed

end
