(* ===== verification/Epoll.thy ===== *)
theory Epoll
  imports Socket_Api
begin

text \<open>
  Epoll objects of \<open>light_api.c\<close> and the events the stack puts on them (\<open>add_epoll_event_to_queue\<close> of
  \<open>light_server_side.h\<close>).  An epoll object has two rings of event records: \<open>ready_connections\<close>, filled
  by the stack, and \<open>shadow_connections\<close>, filled by the application for events that must be
  reported again.  A node on the list of the socket holds the registration and the bits of the
  events that are queued.  Calls to the kernel are arguments.
\<close>

section \<open>State\<close>

record light_epoll_t =
  ready_connections :: "addr rte_ring"
  shadow_connections :: "addr rte_ring"
  ep_epoll_idx :: int
  is_active :: int
  is_sleeping :: int
  kernel_epoll_fd :: int
  fifo_write_fds :: "int list"
  fifo_read_fds :: "int list"
  ep_pid :: int

text \<open>
  \<open>epolls\<close> gives the object behind each slot; \<open>closed_fds\<close> and \<open>fifo_writes\<close> record the descriptors passed to
  \<open>real_close\<close> and the wake-ups written to a fifo.
\<close>

record epoll_env = sock_env +
  epoll_objs :: "nat \<Rightarrow> light_epoll_t"
  epolls :: "nat \<Rightarrow> nat option"
  epoll_ring :: "nat rte_ring"
  free_event_info_pool :: "addr rte_mempool"
  event_infos :: "addr \<Rightarrow> light_event_info_t"
  closed_fds :: "int list"
  fifo_writes :: "int list"

definition upd_epoll :: "nat \<Rightarrow> (light_epoll_t \<Rightarrow> light_epoll_t) \<Rightarrow> 'z epoll_env_scheme \<Rightarrow> 'z epoll_env_scheme" where
  "upd_epoll e f s = s \<lparr> epoll_objs := (epoll_objs s) (e := f (epoll_objs s e)) \<rparr>"

definition real_close :: "int \<Rightarrow> 'z epoll_env_scheme \<Rightarrow> 'z epoll_env_scheme" where
  "real_close fd s = s \<lparr> closed_fds := closed_fds s @ [fd] \<rparr>"

section \<open>Nodes and events\<close>

definition search_epoll_node_in_socket :: "int \<Rightarrow> nat \<Rightarrow> 'z epoll_env_scheme \<Rightarrow> addr option" where
  "search_epoll_node_in_socket e k s = find (\<lambda>o'. node_epoll_idx (enodes s o') = e) (epoll_node_list (socks s k))"

definition unlink_node :: "nat \<Rightarrow> addr \<Rightarrow> 'z epoll_env_scheme \<Rightarrow> 'z epoll_env_scheme" where
  "unlink_node k o' s = upd_sock k (\<lambda>x. x \<lparr> epoll_node_list := remove1 o' (epoll_node_list x) \<rparr>) s"

definition delete_epoll_node_in_socket :: "int \<Rightarrow> nat \<Rightarrow> 'z epoll_env_scheme \<Rightarrow> int \<times> 'z epoll_env_scheme" where
  "delete_epoll_node_in_socket e k s =
     (case search_epoll_node_in_socket e k s of None \<Rightarrow> (- 1, s)
      | Some o' \<Rightarrow> (0, free_epoll_node_buf o'
          (upd_node o' (\<lambda>n. n \<lparr> node_epoll_idx := - 1, epoll_events := 0, ready_events := 0 \<rparr>) (unlink_node k o' s))))"

definition add_epoll_node_in_socket :: "addr \<Rightarrow> nat \<Rightarrow> 'z epoll_env_scheme \<Rightarrow> 'z epoll_env_scheme" where
  "add_epoll_node_in_socket o' k s = upd_sock k (\<lambda>x. x \<lparr> epoll_node_list := o' # epoll_node_list x \<rparr>) s"

definition get_event_info :: "'z epoll_env_scheme \<Rightarrow> addr option \<times> 'z epoll_env_scheme" where
  "get_event_info s =
     (let (ret, a, mp) = rte_mempool_get 0 (free_event_info_pool s) 0 in
      if ret \<noteq> 0 then (None, s) else (Some a, s \<lparr> free_event_info_pool := mp \<rparr>))"

definition put_event_info :: "addr \<Rightarrow> 'z epoll_env_scheme \<Rightarrow> 'z epoll_env_scheme" where
  "put_event_info a s = s \<lparr> free_event_info_pool := rte_mempool_put 0 (free_event_info_pool s) a \<rparr>"

text \<open>
  Queueing an event record on the shadow ring of an object, or giving it back when the ring is
  full: the common part of \<open>_add_epoll_event_to_shadow\<close> and of the reposting loop.
\<close>

definition enqueue_shadow :: "nat \<Rightarrow> addr \<Rightarrow> int \<Rightarrow> u32 \<Rightarrow> 'z epoll_env_scheme \<Rightarrow> bool \<times> 'z epoll_env_scheme" where
  "enqueue_shadow e a sock ev s =
     (let s1 = s \<lparr> event_infos := (event_infos s) (a := \<lparr> info_sockfd = sock, info_event = ev \<rparr>) \<rparr>;
          (rc, rg) = rte_ring_enqueue (shadow_connections (epoll_objs s1 e)) a;
          s2 = upd_epoll e (\<lambda>x. x \<lparr> shadow_connections := rg \<rparr>) s1
      in if rc = - ENOBUFS then (False, put_event_info a s2) else (True, s2))"

definition add_epoll_event_to_shadow :: "nat \<Rightarrow> nat \<Rightarrow> u32 \<Rightarrow> 'z epoll_env_scheme \<Rightarrow> int \<times> 'z epoll_env_scheme" where
  "add_epoll_event_to_shadow e k event s =
     (if event = 0 then (- 1, s)
      else case search_epoll_node_in_socket (ep_epoll_idx (epoll_objs s e)) k s of
        None \<Rightarrow> (- 1, s)
      | Some o' \<Rightarrow>
          if ready_events (enodes s o') AND event \<noteq> 0 then (0, s)
          else case get_event_info s of
            (None, s1) \<Rightarrow> (- 1, s1)
          | (Some a, s1) \<Rightarrow>
              (case enqueue_shadow e a (connection_idx (socks s1 k)) event s1 of
                 (False, s2) \<Rightarrow> (- 1, s2)
               | (True, s2) \<Rightarrow> (0, upd_node o' (\<lambda>n. n \<lparr> ready_events := ready_events n OR event \<rparr>) s2)))"

text \<open>\<open>local_cache\<close> and \<open>rx_ring\<close> are the same ring.\<close>

definition has_data :: "nat \<Rightarrow> 'z epoll_env_scheme \<Rightarrow> bool" where
  "has_data i s \<longleftrightarrow> rte_ring_count (rx_ring (descs s i)) \<noteq> 0 \<or> shadow (descs s i) \<noteq> None"

fun any_copy_has_data :: "nat \<Rightarrow> nat list \<Rightarrow> 'z epoll_env_scheme \<Rightarrow> bool c_res" where
  "any_copy_has_data i [] s = Inr False"
| "any_copy_has_data i (p # ps) s =
     cbind (copy_of s i (int p)) (\<lambda>copy.
     cbind (sock_idx copy) (\<lambda>j. if has_data j s then Inr True else any_copy_has_data i ps s))"

definition light_check_data :: "nat \<Rightarrow> 'z epoll_env_scheme \<Rightarrow> bool c_res" where
  "light_check_data i s =
     cbind (sock_of s i) (\<lambda>sk.
     if is_multicore sk \<noteq> 0 then any_copy_has_data i [0..<num_procs s] s else Inr (has_data i s))"

definition light_check_buffer :: "nat \<Rightarrow> 'z epoll_env_scheme \<Rightarrow> bool c_res" where
  "light_check_buffer i s = cbind (light_get_socket_tx_space i s) (\<lambda>n. Inr (n > 0))"

definition event_avaliable :: "u32 \<Rightarrow> nat \<Rightarrow> 'z epoll_env_scheme \<Rightarrow> bool c_res" where
  "event_avaliable ev i s =
     cbind (if ev AND LIGHT_EPOLLIN \<noteq> 0 then light_check_data i s else Inr False) (\<lambda>d.
     if d then Inr True
     else cbind (if ev AND LIGHT_EPOLLOUT \<noteq> 0 then light_check_buffer i s else Inr False) (\<lambda>b.
          Inr (b \<or> ev AND LIGHT_EPOLLERR \<noteq> 0 \<or> ev AND LIGHT_EPOLLHUP \<noteq> 0)))"

section \<open>Creating and closing\<close>

datatype ring_choice = ReadyRing | ShadowRing

definition pick_ring :: "ring_choice \<Rightarrow> light_epoll_t \<Rightarrow> addr rte_ring" where
  "pick_ring w x = (case w of ReadyRing \<Rightarrow> ready_connections x | ShadowRing \<Rightarrow> shadow_connections x)"

definition put_ring :: "ring_choice \<Rightarrow> addr rte_ring \<Rightarrow> light_epoll_t \<Rightarrow> light_epoll_t" where
  "put_ring w rg x = (case w of ReadyRing \<Rightarrow> x \<lparr> ready_connections := rg \<rparr> | ShadowRing \<Rightarrow> x \<lparr> shadow_connections := rg \<rparr>)"

partial_function (option) drain_events :: "ring_choice \<Rightarrow> nat \<Rightarrow> 'z epoll_env_scheme \<Rightarrow> 'z epoll_env_scheme option" where
  "drain_events w e s =
     (case rte_ring_dequeue (pick_ring w (epoll_objs s e)) 0 of (ret, a, rg) \<Rightarrow>
        if ret \<noteq> 0 then Some s else drain_events w e (put_event_info a (upd_epoll e (put_ring w rg) s)))"

definition reset_epoll_object :: "nat \<Rightarrow> 'z epoll_env_scheme \<Rightarrow> 'z epoll_env_scheme c_res" where
  "reset_epoll_object e s =
     cbind (loop_res (drain_events ReadyRing e s)) (\<lambda>s1.
     cbind (loop_res (drain_events ShadowRing e s1)) (\<lambda>s2.
     Inr (upd_epoll e (\<lambda>x. x \<lparr> is_sleeping := 0, is_active := 1 \<rparr>) s2)))"

definition epoll_cmd :: "light_command \<Rightarrow> cmd_args \<Rightarrow> light_cmd_t \<Rightarrow> light_cmd_t" where
  "epoll_cmd what args c = c \<lparr> cmd := what, ringset_idx := - 1, parent_idx := - 1, u := args \<rparr>"

fun close_fifos :: "nat \<Rightarrow> nat list \<Rightarrow> 'z epoll_env_scheme \<Rightarrow> 'z epoll_env_scheme c_res" where
  "close_fifos e [] s = Inr s"
| "close_fifos e (p # ps) s =
     cbind (aget (fifo_read_fds (epoll_objs s e)) (int p)) (\<lambda>fd. close_fifos e ps (real_close fd s))"

text \<open>
  One close command per stack process: without a buffer the loop is left at once, a full ring is
  only remembered.
\<close>

fun post_epoll_close :: "nat \<Rightarrow> nat list \<Rightarrow> bool \<Rightarrow> 'z epoll_env_scheme \<Rightarrow> int \<times> 'z epoll_env_scheme" where
  "post_epoll_close e [] error s = (if error then - 3 else 0, s)"
| "post_epoll_close e (p # ps) error s =
     (let x = epoll_objs s e in
      case post_command p (epoll_cmd LIGHT_EPOLL_CLOSE_COMMAND (epoll_close_args (ep_epoll_idx x) (ep_pid x))) s of
        (NoBuffer, s1) \<Rightarrow> (- 2, s1)
      | (RingFull, s1) \<Rightarrow> post_epoll_close e ps True s1
      | (Posted c, s1) \<Rightarrow> post_epoll_close e ps error s1)"

text \<open>The sockets of the object, along its tail queue.  The node is unlinked but stays allocated.\<close>

partial_function (option) detach_sockets ::
  "nat \<Rightarrow> nat \<Rightarrow> nat option \<Rightarrow> 'z epoll_env_scheme \<Rightarrow> 'z epoll_env_scheme c_res option" where
  "detach_sockets slot e iter s =
     (case iter of None \<Rightarrow> Some (Inr s)
      | Some i \<Rightarrow>
        (case socket (descs s i) of None \<Rightarrow> Some (Inl BadPointer)
         | Some k \<Rightarrow>
           let nxt = tqe_next (socket_lists s) i;
               s1 = (case search_epoll_node_in_socket (ep_epoll_idx (epoll_objs s e)) k s of
                       None \<Rightarrow> s | Some o' \<Rightarrow> unlink_node k o' s);
               s2 = upd_sock k (\<lambda>x. x \<lparr> send_timeout := no_timeout, receive_timeout := no_timeout \<rparr>) s1
           in case list_remove (int slot) i s2 of Inl f \<Rightarrow> Some (Inl f)
              | Inr s3 \<Rightarrow> detach_sockets slot e nxt s3))"

definition epoll_close :: "int \<Rightarrow> 'z epoll_env_scheme \<Rightarrow> (int \<times> 'z epoll_env_scheme) c_res" where
  "epoll_close sock s =
     cbind (epoll_slot sock) (\<lambda>slot.
     cbind (socket_epoll_index_to_light_fd (fdt s) sock LIGHT_EPOLL_INDEX) (\<lambda>fd.
     cbind (put_back_light_fd (fdt s) fd) (\<lambda>(ret, t).
     if ret \<noteq> 0 then Inl Exit
     else
       let s1 = s \<lparr> fdt := t \<rparr> in
       case epolls s1 slot of None \<Rightarrow> Inr (- 1, s1)
       | Some e \<Rightarrow>
         if is_active (epoll_objs s1 e) = 0 then Inr (- 1, s1)
         else cbind (close_fifos e [0..<num_procs s1] (real_close (kernel_epoll_fd (epoll_objs s1 e)) s1)) (\<lambda>s2.
              case post_epoll_close e [0..<num_procs s2] False s2 of (ret, s3) \<Rightarrow>
                if ret \<noteq> 0 then Inr (ret, s3)
                else cbind (loop_res (detach_sockets slot e (tqh_first (socket_lists s3) slot) s3)) (\<lambda>r.
                     cbind r (\<lambda>s4. Inr (0, s4 \<lparr> epolls := (epolls s4) (slot := None) \<rparr>)))))))"

text \<open>What the kernel answers while an object is created.\<close>

record epoll_kernel =
  k_epoll_create :: int
  k_mkfifo_ok :: "nat \<Rightarrow> bool"
  k_open :: "nat \<Rightarrow> int"
  k_ctl_add :: "nat \<Rightarrow> int"

fun open_fifos ::
  "epoll_kernel \<Rightarrow> nat \<Rightarrow> nat list \<Rightarrow> 'z epoll_env_scheme \<Rightarrow> (int \<times> 'z epoll_env_scheme) c_res" where
  "open_fifos kn e [] s = Inr (0, s)"
| "open_fifos kn e (p # ps) s =
     (let idx = ep_epoll_idx (epoll_objs s e) in
      if \<not> k_mkfifo_ok kn p then cbind (epoll_close idx s) (\<lambda>(_, s1). Inr (- 1, s1))
      else cbind (aset (fifo_read_fds (epoll_objs s e)) (int p) (k_open kn p)) (\<lambda>fds.
           let s1 = upd_epoll e (\<lambda>x. x \<lparr> fifo_read_fds := fds \<rparr>) s in
           if k_open kn p < 0 then cbind (epoll_close idx s1) (\<lambda>(_, s2). Inr (- 1, s2))
           else
             case post_command p (epoll_cmd LIGHT_EPOLL_CREATE_COMMAND
                    (epoll_create_args idx (ep_pid (epoll_objs s1 e)))) s1 of
               (NoBuffer, s2) \<Rightarrow> Inr (- 2, s2)
             | (RingFull, s2) \<Rightarrow>
                 cbind (close_fifos e [0..<num_procs s2] (real_close (kernel_epoll_fd (epoll_objs s2 e)) s2)) (\<lambda>s3.
                 cbind (epoll_close idx s3) (\<lambda>(_, s4). Inr (- 3, s4)))
             | (Posted c, s2) \<Rightarrow> open_fifos kn e ps s2))"

fun register_fifos ::
  "epoll_kernel \<Rightarrow> nat \<Rightarrow> nat list \<Rightarrow> 'z epoll_env_scheme \<Rightarrow> (int \<times> 'z epoll_env_scheme) c_res" where
  "register_fifos kn e [] s = Inr (0, s)"
| "register_fifos kn e (p # ps) s =
     (if k_ctl_add kn p < 0
      then cbind (aget (fifo_read_fds (epoll_objs s e)) (int p)) (\<lambda>fd.
           cbind (epoll_close (ep_epoll_idx (epoll_objs s e))
                   (real_close fd (real_close (kernel_epoll_fd (epoll_objs s e)) s))) (\<lambda>(_, s1). Inr (- 3, s1)))
      else register_fifos kn e ps s)"

definition light_epoll_create :: "epoll_kernel \<Rightarrow> int \<Rightarrow> 'z epoll_env_scheme \<Rightarrow> (int \<times> 'z epoll_env_scheme) c_res" where
  "light_epoll_create kn sz s =
     (if sz < 0 then Inr (- 1, s \<lparr> errno := EINVAL \<rparr>)
      else
        let (ret, e, rg) = rte_ring_dequeue (epoll_ring s) 0 in
        if ret \<noteq> 0 then Inr (- 1, s)
        else
          let s1 = s \<lparr> epoll_ring := rg \<rparr>; idx = ep_epoll_idx (epoll_objs s1 e) in
          cbind (epoll_slot idx) (\<lambda>slot.
          cbind (reset_epoll_object e (s1 \<lparr> epolls := (epolls s1) (slot := Some e) \<rparr>)) (\<lambda>s2.
          let s3 = upd_epoll e (\<lambda>x. x \<lparr> kernel_epoll_fd := k_epoll_create kn, ep_pid := pid s2 \<rparr>)
                     (upd_lists (TAILQ_INIT slot) s2) in
          if k_epoll_create kn < 0 then Inr (- 1, s3)
          else cbind (open_fifos kn e [0..<num_procs s3] s3) (\<lambda>(ret, s4).
               if ret \<noteq> 0 then Inr (ret, s4)
               else cbind (register_fifos kn e [0..<num_procs s4] s4) (\<lambda>(ret, s5).
                    if ret \<noteq> 0 then Inr (ret, s5)
                    else cbind (get_new_light_fd (fdt s5) (ep_epoll_idx (epoll_objs s5 e)) LIGHT_EPOLL_INDEX) (\<lambda>(fd, t).
                         Inr (fd, s5 \<lparr> fdt := t \<rparr>)))))))"

text \<open>Closing a descriptor of the application; \<open>sys\<close> is the result of the kernel's \<open>close\<close>.\<close>

definition light_close :: "int \<Rightarrow> int \<Rightarrow> 'z epoll_env_scheme \<Rightarrow> (int \<times> 'z epoll_env_scheme) c_res" where
  "light_close fd sys s =
     cbind (is_light_fd (fdt s) fd) (\<lambda>light.
     if light = 1
     then cbind (light_fd_to_socket_epoll_index (fdt s) fd) (\<lambda>(idx, fd_type).
          if fd_type = LIGHT_SOCKET_INDEX then light_close_index idx s else epoll_close idx s)
     else Inr (sys, s))"

section \<open>Registering\<close>

definition EEXIST :: int where "EEXIST = 17"

definition check_and_shadow :: "nat \<Rightarrow> nat \<Rightarrow> nat \<Rightarrow> u32 \<Rightarrow> 'z epoll_env_scheme \<Rightarrow> 'z epoll_env_scheme c_res" where
  "check_and_shadow e k i event s =
     cbind (if event AND LIGHT_EPOLLIN \<noteq> 0 then light_check_data i s else Inr False) (\<lambda>d.
     let s1 = (if d then snd (add_epoll_event_to_shadow e k LIGHT_EPOLLIN s) else s) in
     cbind (if event AND LIGHT_EPOLLOUT \<noteq> 0 then light_check_buffer i s1 else Inr False) (\<lambda>b.
     Inr (if b then snd (add_epoll_event_to_shadow e k LIGHT_EPOLLOUT s1) else s1)))"

definition epoll_ctl_add ::
  "nat \<Rightarrow> nat \<Rightarrow> nat \<Rightarrow> nat \<Rightarrow> light_epoll_event \<Rightarrow> 'z epoll_env_scheme \<Rightarrow> (int \<times> 'z epoll_env_scheme) c_res" where
  "epoll_ctl_add slot e i k ev s =
     (case search_epoll_node_in_socket (int slot) k s of
        Some o' \<Rightarrow> Inr (- 1, s \<lparr> errno := EEXIST \<rparr>)
      | None \<Rightarrow>
        let event = ev_events ev OR (LIGHT_EPOLLERR OR LIGHT_EPOLLHUP);
            (ret, o', mp) = rte_mempool_get 0 (free_epoll_node_pool s) 0 in
        if ret \<noteq> 0 then Inr (- 2, s)
        else
          let s1 = upd_node o' (\<lambda>n. n \<lparr> epoll_events := event, node_epoll_idx := int slot, ready_events := 0,
                                       ep_data := ev_data ev \<rparr>) (s \<lparr> free_epoll_node_pool := mp \<rparr>) in
          cbind (check_and_shadow e k i event (add_epoll_node_in_socket o' k s1)) (\<lambda>s2.
          cbind (TAILQ_INSERT_TAIL slot i (socket_lists s2)) (\<lambda>q.
          Inr (0, s2 \<lparr> socket_lists := q \<rparr>))))"

definition epoll_ctl_del :: "nat \<Rightarrow> nat \<Rightarrow> nat \<Rightarrow> 'z epoll_env_scheme \<Rightarrow> (int \<times> 'z epoll_env_scheme) c_res" where
  "epoll_ctl_del slot i k s =
     (case delete_epoll_node_in_socket (int slot) k s of (ret, s1) \<Rightarrow>
        if ret = - 1 then Inr (- 1, s1)
        else cbind (list_remove (int slot) i s1) (\<lambda>s2. Inr (0, s2)))"

definition epoll_ctl_mod ::
  "nat \<Rightarrow> nat \<Rightarrow> nat \<Rightarrow> nat \<Rightarrow> light_epoll_event \<Rightarrow> 'z epoll_env_scheme \<Rightarrow> (int \<times> 'z epoll_env_scheme) c_res" where
  "epoll_ctl_mod slot e i k ev s =
     (case search_epoll_node_in_socket (int slot) k s of
        None \<Rightarrow> Inr (- 1, s \<lparr> errno := EEXIST \<rparr>)
      | Some o' \<Rightarrow>
        let event = ev_events ev OR (LIGHT_EPOLLERR OR LIGHT_EPOLLHUP) in
        cbind (check_and_shadow e k i event
                (upd_node o' (\<lambda>n. n \<lparr> epoll_events := event, ep_data := ev_data ev \<rparr>) s)) (\<lambda>s1. Inr (0, s1)))"

text \<open>
  The socket that carries the node: for a multicore socket the copy of the process that serves the
  caller.
\<close>

definition ctl_target :: "nat \<Rightarrow> 'z epoll_env_scheme \<Rightarrow> (nat \<times> nat option) c_res" where
  "ctl_target i s =
     cbind (sock_of s i) (\<lambda>sk.
     if is_multicore sk \<noteq> 0
     then cbind (aget (multicore_socket_copies sk) (stack_proc_id s)) (\<lambda>copy.
          cbind (sock_idx copy) (\<lambda>j. Inr (j, socket (descs s j))))
     else Inr (i, socket (descs s i)))"

text \<open>\<open>ev\<close> is the event the caller's pointer refers to, if it is not NULL.\<close>

definition light_epoll_ctl_index ::
  "nat \<Rightarrow> int \<Rightarrow> nat \<Rightarrow> light_epoll_event option \<Rightarrow> 'z epoll_env_scheme \<Rightarrow> (int \<times> 'z epoll_env_scheme) c_res" where
  "light_epoll_ctl_index slot op fd ev s =
     cbind (ctl_target fd s) (\<lambda>(i, ptr).
     case (ptr, epolls s slot) of
       (Some k, Some e) \<Rightarrow>
         if op \<noteq> 2 \<and> ev = None \<or> is_active (epoll_objs s e) = 0 then Inr (- 1, s \<lparr> errno := EINVAL \<rparr>)
         else if op = 1 then epoll_ctl_add slot e i k (the ev) s
         else if op = 2 then epoll_ctl_del slot i k s
         else if op = 3 then epoll_ctl_mod slot e i k (the ev) s
         else Inr (0, s)
     | _ \<Rightarrow> Inr (- 1, s \<lparr> errno := EINVAL \<rparr>))"

definition light_epoll_ctl ::
  "int \<Rightarrow> int \<Rightarrow> int \<Rightarrow> light_epoll_event option \<Rightarrow> int \<Rightarrow> 'z epoll_env_scheme \<Rightarrow> (int \<times> 'z epoll_env_scheme) c_res" where
  "light_epoll_ctl epfd op fd ev sys s =
     cbind (light_fd_to_socket_epoll_index (fdt s) epfd) (\<lambda>(slot, _).
     cbind (is_light_fd (fdt s) fd) (\<lambda>light.
     if light = 1
     then cbind (light_fd_to_socket_epoll_index (fdt s) fd) (\<lambda>(idx, _).
          if slot < 0 then Inr (- 1, s \<lparr> errno := EINVAL \<rparr>)
          else if op < 1 \<or> op > 3 then Inr (- 1, s \<lparr> errno := EINVAL \<rparr>)
          else if idx < 0 \<or> idx \<ge> LIGHT_CONNECTION_POOL_SIZE then Inl Exit
          else cbind (epoll_slot slot) (\<lambda>sl. light_epoll_ctl_index sl op (nat idx) ev s))
     else if slot < 0 then Inr (- 1, s \<lparr> errno := EINVAL \<rparr>)
     else cbind (epoll_slot slot) (\<lambda>sl. case epolls s sl of None \<Rightarrow> Inl BadPointer | Some e \<Rightarrow> Inr (sys, s))))"

section \<open>Events from the stack\<close>

text \<open>
  The stack process: its number, the counter that chooses among several epoll objects of one
  socket, and the process that owns each socket.
\<close>

record stack_env = epoll_env +
  round_robin_counter :: nat
  my_proc_id :: nat
  apppid :: "nat \<Rightarrow> int"

definition pick_node :: "nat \<Rightarrow> 'z stack_env_scheme \<Rightarrow> addr option \<times> 'z stack_env_scheme" where
  "pick_node k s =
     (let ns = epoll_node_list (socks s k); n = length ns in
      if n = 0 then (None, s)
      else if n = 1 then (Some (hd ns), s)
      else (Some (ns ! (round_robin_counter s mod n)), s \<lparr> round_robin_counter := round_robin_counter s + 1 \<rparr>))"

text \<open>
  The function works in two steps that an application can interleave with: the event record is
  put on the ready ring, and then, under the lock of the object, a sleeping application is woken
  and the bit of the event is set in the node.
\<close>

datatype queue_step = NotQueued | Queued nat addr nat

definition queue_on :: "nat \<Rightarrow> u32 \<Rightarrow> 'z stack_env_scheme \<Rightarrow> (queue_step \<times> 'z stack_env_scheme) c_res" where
  "queue_on k event s =
     (case pick_node k s of
       (None, s1) \<Rightarrow> Inr (NotQueued, s1)
     | (Some o', s1) \<Rightarrow>
         cbind (epoll_slot (node_epoll_idx (enodes s1 o'))) (\<lambda>e.
         if epoll_events (enodes s1 o') AND event = 0 then Inr (NotQueued, s1)
         else case get_event_info s1 of
           (None, s2) \<Rightarrow> Inr (NotQueued, s2)
         | (Some a, s2) \<Rightarrow>
             (let s3 = s2 \<lparr> event_infos := (event_infos s2) (a := \<lparr> info_sockfd = int k, info_event = event \<rparr>) \<rparr>;
                  (rc, rg) = rte_ring_enqueue (ready_connections (epoll_objs s3 e)) a;
                  s4 = upd_epoll e (\<lambda>x. x \<lparr> ready_connections := rg \<rparr>) s3
              in if rc \<noteq> 0 then Inr (NotQueued, put_event_info a s4) else Inr (Queued k o' e, s4))))"

definition queue_event :: "int \<Rightarrow> u32 \<Rightarrow> 'z stack_env_scheme \<Rightarrow> (queue_step \<times> 'z stack_env_scheme) c_res" where
  "queue_event sockid event s =
     cbind (sock_idx sockid) (\<lambda>k0.
     cbind (if is_multicore (socks s k0) \<noteq> 0
            then cbind (aget (multicore_socket_copies (socks s k0)) (int (my_proc_id s))) sock_idx
            else Inr k0) (\<lambda>k. queue_on k event s))"

definition mark_event :: "nat \<Rightarrow> addr \<Rightarrow> nat \<Rightarrow> u32 \<Rightarrow> 'z stack_env_scheme \<Rightarrow> 'z stack_env_scheme c_res" where
  "mark_event k o' e event s =
     cbind (if is_sleeping (epoll_objs s e) \<noteq> 0 \<and> apppid s k \<noteq> 0
            then cbind (aget (fifo_write_fds (epoll_objs s e)) (int (my_proc_id s))) (\<lambda>fd.
                 Inr (s \<lparr> fifo_writes := fifo_writes s @ [fd] \<rparr>))
            else Inr s) (\<lambda>s1.
     Inr (upd_node o' (\<lambda>n. n \<lparr> ready_events := ready_events n OR event \<rparr>) s1))"

definition add_epoll_event_to_queue :: "int \<Rightarrow> u32 \<Rightarrow> 'z stack_env_scheme \<Rightarrow> (int \<times> 'z stack_env_scheme) c_res" where
  "add_epoll_event_to_queue sockid event s =
     cbind (queue_event sockid event s) (\<lambda>(r, s1).
     case r of NotQueued \<Rightarrow> Inr (- 1, s1)
     | Queued k o' e \<Rightarrow> cbind (mark_event k o' e event s1) (\<lambda>s2. Inr (0, s2)))"

definition light_mark_readable :: "int \<Rightarrow> 'z stack_env_scheme \<Rightarrow> 'z stack_env_scheme c_res" where
  "light_mark_readable idx s = cbind (add_epoll_event_to_queue idx LIGHT_EPOLLIN s) (\<lambda>(_, s1). Inr s1)"

definition light_mark_writable :: "int \<Rightarrow> 'z stack_env_scheme \<Rightarrow> (int \<times> 'z stack_env_scheme) c_res" where
  "light_mark_writable idx s = add_epoll_event_to_queue idx LIGHT_EPOLLOUT s"

definition light_mark_closed :: "int \<Rightarrow> int \<Rightarrow> 'z stack_env_scheme \<Rightarrow> 'z stack_env_scheme c_res" where
  "light_mark_closed idx num s =
     cbind (sock_idx idx) (\<lambda>k.
     cbind (add_epoll_event_to_queue idx LIGHT_EPOLLHUP (upd_sock k (\<lambda>x. x \<lparr> connect_close_signal := num \<rparr>) s)) (\<lambda>(_, s1).
     Inr s1))"

section \<open>Waiting\<close>

text \<open>
  One record taken from a ring: it is reported when the node still asks for the event, the bit is
  set and the event holds; the bit is cleared in any case.
\<close>

definition deliver_one ::
  "nat \<Rightarrow> addr \<Rightarrow> 'z epoll_env_scheme \<Rightarrow> ((nat \<times> light_epoll_event) list \<times> 'z epoll_env_scheme) c_res" where
  "deliver_one slot a s =
     (let sockid = info_sockfd (event_infos s a); ev = info_event (event_infos s a); s1 = put_event_info a s in
      if sockid \<ge> LIGHT_CONNECTION_POOL_SIZE then Inl Exit
      else cbind (sock_idx sockid) (\<lambda>i.
        case socket (descs s1 i) of None \<Rightarrow> Inr ([], s1)
        | Some k \<Rightarrow>
          (case search_epoll_node_in_socket (int slot) k s1 of None \<Rightarrow> Inr ([], s1)
           | Some o' \<Rightarrow>
             let n = enodes s1 o' in
             cbind (if epoll_events n AND ev \<noteq> 0 \<and> ready_events n AND ev \<noteq> 0 then event_avaliable ev i s1
                    else Inr False) (\<lambda>avail.
             Inr (if avail then [(i, \<lparr> ev_events = ev, ev_data = ep_data n \<rparr>)] else [],
                  upd_node o' (\<lambda>n. n \<lparr> ready_events := ready_events n AND NOT ev \<rparr>) s1)))))"

partial_function (option) take_events ::
  "ring_choice \<Rightarrow> nat \<Rightarrow> nat \<Rightarrow> nat \<Rightarrow> (nat \<times> light_epoll_event) list \<Rightarrow> 'z epoll_env_scheme
     \<Rightarrow> ((nat \<times> light_epoll_event) list \<times> 'z epoll_env_scheme) c_res option" where
  "take_events w slot e maxevents acc s =
     (if length acc \<ge> maxevents then Some (Inr (acc, s))
      else case rte_ring_dequeue (pick_ring w (epoll_objs s e)) 0 of (ret, a, rg) \<Rightarrow>
        if ret \<noteq> 0 then Some (Inr (acc, s))
        else case deliver_one slot a (upd_epoll e (put_ring w rg) s) of
          Inl f \<Rightarrow> Some (Inl f)
        | Inr (d, s1) \<Rightarrow> take_events w slot e maxevents (acc @ d) s1)"

text \<open>
  Level-triggered events are put back on the shadow ring; the loop is left when there is no record
  or no room.
\<close>

fun repost ::
  "nat \<Rightarrow> nat \<Rightarrow> (nat \<times> light_epoll_event) list \<Rightarrow> 'z epoll_env_scheme \<Rightarrow> 'z epoll_env_scheme c_res" where
  "repost slot e [] s = Inr s"
| "repost slot e ((i, ev) # ds) s =
     (case socket (descs s i) of None \<Rightarrow> Inl BadPointer
      | Some k \<Rightarrow>
        (case search_epoll_node_in_socket (int slot) k s of None \<Rightarrow> repost slot e ds s
         | Some o' \<Rightarrow>
           if ready_events (enodes s o') AND ev_events ev \<noteq> 0 \<or> epoll_events (enodes s o') AND LIGHT_EPOLLET \<noteq> 0 \<or>
              ev_events ev AND LIGHT_EPOLLHUP \<noteq> 0 \<or> ev_events ev AND LIGHT_EPOLLERR \<noteq> 0
           then repost slot e ds s
           else case get_event_info s of (None, s1) \<Rightarrow> Inr s1
             | (Some a, s1) \<Rightarrow>
                 (case enqueue_shadow e a (int i) (ev_events ev) s1 of
                    (False, s2) \<Rightarrow> Inr s2
                  | (True, s2) \<Rightarrow>
                      repost slot e ds (upd_node o' (\<lambda>n. n \<lparr> ready_events := ready_events n OR ev_events ev \<rparr>) s2))))"

text \<open>Events of kernel descriptors follow; those of the fifos are left out.\<close>

definition data_fd :: "light_epoll_data_t \<Rightarrow> int" where
  "data_fd d = sint (ucast d :: u32)"

fun add_kernel_events :: "nat \<Rightarrow> int list \<Rightarrow> light_epoll_event list \<Rightarrow> light_epoll_event list \<Rightarrow> light_epoll_event list" where
  "add_kernel_events maxevents fifos [] acc = acc"
| "add_kernel_events maxevents fifos (ev # evs) acc =
     (if length acc \<ge> maxevents then acc
      else add_kernel_events maxevents fifos evs (if data_fd (ev_data ev) \<in> set fifos then acc else acc @ [ev]))"

text \<open>
  One round: \<open>kwait\<close> is the kernel's \<open>epoll_wait\<close> with everything that happens in the system until it
  returns.  The object is marked as sleeping around a blocking call.
\<close>

definition sleep_round ::
  "(nat \<Rightarrow> 'z epoll_env_scheme \<Rightarrow> light_epoll_event list \<times> 'z epoll_env_scheme) \<Rightarrow> nat \<Rightarrow> nat \<Rightarrow> int \<Rightarrow> 'z epoll_env_scheme
     \<Rightarrow> light_epoll_event list \<times> 'z epoll_env_scheme" where
  "sleep_round kwait n e timeout s =
     (if rte_ring_count (ready_connections (epoll_objs s e)) = 0 \<and>
         rte_ring_count (shadow_connections (epoll_objs s e)) = 0 \<and> timeout \<noteq> 0
      then case kwait n (upd_epoll e (\<lambda>x. x \<lparr> is_sleeping := 1 \<rparr>) s) of
             (evs, s1) \<Rightarrow> (evs, upd_epoll e (\<lambda>x. x \<lparr> is_sleeping := 0 \<rparr>) s1)
      else kwait n s)"

definition wait_round ::
  "(nat \<Rightarrow> 'z epoll_env_scheme \<Rightarrow> light_epoll_event list \<times> 'z epoll_env_scheme) \<Rightarrow> nat \<Rightarrow> nat \<Rightarrow> nat \<Rightarrow> nat \<Rightarrow> int
     \<Rightarrow> 'z epoll_env_scheme \<Rightarrow> (light_epoll_event list \<times> 'z epoll_env_scheme) c_res" where
  "wait_round kwait n slot e maxevents timeout s =
     (case sleep_round kwait n e timeout s of (kevs, s1) \<Rightarrow>
        cbind (loop_res (take_events ShadowRing slot e maxevents [] s1)) (\<lambda>r.
        cbind r (\<lambda>(acc1, s2).
        cbind (loop_res (take_events ReadyRing slot e maxevents acc1 s2)) (\<lambda>r.
        cbind r (\<lambda>(acc2, s3).
        cbind (repost slot e acc2 s3) (\<lambda>s4.
        Inr (add_kernel_events maxevents (take (num_procs s4) (fifo_read_fds (epoll_objs s4 e))) kevs (map snd acc2), s4)))))))"

text \<open>The rounds are repeated until there is something to report.\<close>

partial_function (option) wait_rounds ::
  "(nat \<Rightarrow> 'z epoll_env_scheme \<Rightarrow> light_epoll_event list \<times> 'z epoll_env_scheme) \<Rightarrow> nat \<Rightarrow> nat \<Rightarrow> nat \<Rightarrow> nat \<Rightarrow> int
     \<Rightarrow> 'z epoll_env_scheme \<Rightarrow> (light_epoll_event list \<times> 'z epoll_env_scheme) c_res option" where
  "wait_rounds kwait n slot e maxevents timeout s =
     (case wait_round kwait n slot e maxevents timeout s of
        Inl f \<Rightarrow> Some (Inl f)
      | Inr (evs, s1) \<Rightarrow>
          if evs \<noteq> [] then Some (Inr (evs, s1)) else wait_rounds kwait (Suc n) slot e maxevents timeout s1)"

definition light_epoll_wait ::
  "(nat \<Rightarrow> 'z epoll_env_scheme \<Rightarrow> light_epoll_event list \<times> 'z epoll_env_scheme) \<Rightarrow> int \<Rightarrow> nat \<Rightarrow> int \<Rightarrow> 'z epoll_env_scheme
     \<Rightarrow> (int \<times> light_epoll_event list \<times> 'z epoll_env_scheme) c_res" where
  "light_epoll_wait kwait epfd maxevents timeout s =
     cbind (light_fd_to_socket_epoll_index (fdt s) epfd) (\<lambda>(idx, _).
     if idx < 0 then Inr (- 1, [], s \<lparr> errno := EINVAL \<rparr>)
     else cbind (epoll_slot idx) (\<lambda>slot.
       case epolls s slot of None \<Rightarrow> Inr (- 1, [], s \<lparr> errno := EINVAL \<rparr>)
       | Some e \<Rightarrow>
         if is_active (epoll_objs s e) = 0 then Inr (- 1, [], s \<lparr> errno := EINVAL \<rparr>)
         else cbind (loop_res (wait_rounds kwait 0 slot e maxevents timeout s)) (\<lambda>r.
              cbind r (\<lambda>(evs, s1). Inr (int (length evs), evs, s1)))))"

text \<open>The rings of an object and the pool of event records are well formed.\<close>

definition ev_ok :: "'z epoll_env_scheme \<Rightarrow> nat \<Rightarrow> bool" where
  "ev_ok s e \<longleftrightarrow> ring_ok (ready_connections (epoll_objs s e)) \<and> ring_ok (shadow_connections (epoll_objs s e)) \<and>
     pool_ok (free_event_info_pool s)"

text \<open>The socket \<open>k\<close> is registered with the object in slot \<open>e\<close> by the node \<open>o'\<close>, and with no other.\<close>

definition registered :: "'z epoll_env_scheme \<Rightarrow> nat \<Rightarrow> nat \<Rightarrow> addr \<Rightarrow> bool" where
  "registered s e k o' \<longleftrightarrow> k < 2048 \<and> e < 64 \<and> socket (descs s k) = Some k \<and> is_multicore (socks s k) = 0 \<and>
     epoll_node_list (socks s k) = [o'] \<and> node_epoll_idx (enodes s o') = int e"

text \<open>What queueing on the shadow ring leaves alone.\<close>

definition ctl_frame :: "'z epoll_env_scheme \<Rightarrow> 'z epoll_env_scheme \<Rightarrow> bool" where
  "ctl_frame s s' \<longleftrightarrow> descs s' = descs s \<and> socks s' = socks s \<and> socket_lists s' = socket_lists s \<and>
     free_epoll_node_pool s' = free_epoll_node_pool s \<and> num_procs s' = num_procs s \<and> tx_bufs_pool s' = tx_bufs_pool s \<and>
     (\<forall>o'. node_epoll_idx (enodes s' o') = node_epoll_idx (enodes s o') \<and> epoll_events (enodes s' o') = epoll_events (enodes s o') \<and>
        ep_data (enodes s' o') = ep_data (enodes s o'))"

text \<open>
  A stack process for concrete runs: socket 3 has data and is registered by node 40 with object 5 for
  input; object 5 is also open as descriptor 0.
\<close>

definition demo_epoll :: light_epoll_t where
  "demo_epoll = \<lparr> ready_connections = ring_of 2 0 [], shadow_connections = ring_of 2 0 [], ep_epoll_idx = 5, is_active = 1,
     is_sleeping = 0, kernel_epoll_fd = 60, fifo_write_fds = [61], fifo_read_fds = [62], ep_pid = 100 \<rparr>"

definition demo_stack :: stack_env where
  "demo_stack = epoll_env.extend (sock_env.extend ((demo_net [10] []) \<lparr> fdt := demo_tables \<lparr> true_to_light := [2053] \<rparr>,
       socks := (\<lambda>_. (demo_sock 0) \<lparr> epoll_node_list := [40] \<rparr>), free_epoll_node_pool := pool_of 2 0 [41],
       enodes := (\<lambda>_. \<lparr> node_epoll_idx = 5, epoll_events = LIGHT_EPOLLIN, ready_events = 0, ep_data = 77 \<rparr>) \<rparr>)
     \<lparr> epoll_objs = (\<lambda>_. demo_epoll), epolls = (\<lambda>e. if e = 5 then Some 5 else None), epoll_ring = ring_of 2 0 [],
       free_event_info_pool = pool_of 2 0 [50, 51], event_infos = (\<lambda>_. \<lparr> info_sockfd = 0, info_event = 0 \<rparr>),
       closed_fds = [], fifo_writes = [] \<rparr>)
     \<lparr> round_robin_counter = 0, my_proc_id = 0, apppid = (\<lambda>_. 100) \<rparr>"

section \<open>Lemmas\<close>

lemma search_registered [simp]: "registered s e k o' \<Longrightarrow> search_epoll_node_in_socket (int e) k s = Some o'"
  by (simp add: registered_def search_epoll_node_in_socket_def)

lemma get_event_info_some:
  assumes "pool_ok (free_event_info_pool s)" "pool_free (free_event_info_pool s) = a # as"
  obtains mp where "get_event_info s = (Some a, s \<lparr> free_event_info_pool := mp \<rparr>)" "pool_ok mp" "pool_free mp = as"
    "pool_cap mp = pool_cap (free_event_info_pool s)"
proof -
  obtain mp where "rte_mempool_get 0 (free_event_info_pool s) 0 = (0, a, mp)" "pool_ok mp" "pool_free mp = as"
    "pool_cap mp = pool_cap (free_event_info_pool s)" by (rule pool_take [OF assms])
  then show thesis using that [of mp] by (simp add: get_event_info_def)
qed

text \<open>The first step of the stack: the record is at the end of the ready ring.\<close>

lemma queue_event_ok:
  assumes reg: "registered s e k o'" and ev: "epoll_events (enodes s o') AND event \<noteq> 0" and ok: "ev_ok s e"
    and pool: "pool_free (free_event_info_pool s) = a # as"
    and room: "length (contents (ready_connections (epoll_objs s e))) < capacity (ready_connections (epoll_objs s e))"
  obtains mp rg where "queue_event (int k) event s = Inr (Queued k o' e,
       upd_epoll e (\<lambda>x. x \<lparr> ready_connections := rg \<rparr>)
         (s \<lparr> free_event_info_pool := mp, event_infos := (event_infos s) (a := \<lparr> info_sockfd = int k, info_event = event \<rparr>) \<rparr>))"
    "pool_ok mp" "pool_free mp = as" "pool_cap mp = pool_cap (free_event_info_pool s)" "ring_ok rg"
    "contents rg = contents (ready_connections (epoll_objs s e)) @ [a]"
proof -
  have po: "pool_ok (free_event_info_pool s)" using ok by (simp add: ev_ok_def)
  obtain mp where mp: "get_event_info s = (Some a, s \<lparr> free_event_info_pool := mp \<rparr>)" "pool_ok mp" "pool_free mp = as"
    "pool_cap mp = pool_cap (free_event_info_pool s)"
    by (rule get_event_info_some [OF po pool])
  have "ring_ok (ready_connections (epoll_objs s e))" using ok by (simp add: ev_ok_def)
  note rg = ring_give [OF this room, where x = a]
  have slot: "epoll_slot (int e) = Inr e" using reg by (simp add: registered_def epoll_slot_def LIGHT_EPOLL_POOL_SIZE_def)
  have "queue_event (int k) event s = Inr (Queued k o' e,
       upd_epoll e (\<lambda>x. x \<lparr> ready_connections := published (ready_connections (epoll_objs s e)) [a] 1 \<rparr>)
         (s \<lparr> free_event_info_pool := mp, event_infos := (event_infos s) (a := \<lparr> info_sockfd = int k, info_event = event \<rparr>) \<rparr>))"
    using reg ev mp(1) rg(1) slot by (simp add: queue_event_def queue_on_def pick_node_def registered_def Let_def)
  then show thesis using that mp rg by blast
qed

text \<open>Whether an event holds depends on the sockets and the transmit buffers only.\<close>

lemma event_avaliable_cong:
  fixes s s' :: "'z epoll_env_scheme"
  assumes "descs s' = descs s" "socks s' = socks s" "num_procs s' = num_procs s" "tx_bufs_pool s' = tx_bufs_pool s"
  shows "event_avaliable ev i s' = event_avaliable ev i s"
proof -
  have so: "sock_of s' j = sock_of s j" for j using assms by (simp add: sock_of_def split: option.split)
  have co: "copy_of s' j p = copy_of s j p" for j p using so by (simp add: copy_of_def)
  have hd: "has_data j s' = has_data j s" for j using assms by (simp add: has_data_def)
  have "any_copy_has_data i ps s' = any_copy_has_data i ps s" for ps
    by (induction ps) (simp_all add: co hd cong: if_cong)
  then have "light_check_data i s' = light_check_data i s"
    using assms(3) by (simp add: light_check_data_def so hd cong: if_cong)
  moreover have "light_check_buffer i s' = light_check_buffer i s"
    using assms by (simp add: light_check_buffer_def light_get_socket_tx_space_def light_socket_tx_space_def so cong: if_cong)
  ultimately show ?thesis by (simp add: event_avaliable_def cong: if_cong)
qed

lemma registered_cong:
  "descs s' = descs s \<Longrightarrow> socks s' = socks s \<Longrightarrow> node_epoll_idx (enodes s' o') = node_epoll_idx (enodes s o') \<Longrightarrow>
   registered s' e k o' = registered s e k o'"
  by (simp add: registered_def)

lemma put_event_info_simps [simp]:
  "descs (put_event_info a s) = descs s" "socks (put_event_info a s) = socks s" "enodes (put_event_info a s) = enodes s"
  "epoll_objs (put_event_info a s) = epoll_objs s" "num_procs (put_event_info a s) = num_procs s"
  "tx_bufs_pool (put_event_info a s) = tx_bufs_pool s" "event_infos (put_event_info a s) = event_infos s"
  by (simp_all add: put_event_info_def)

lemma upd_epoll_simps [simp]:
  "descs (upd_epoll e f s) = descs s" "socks (upd_epoll e f s) = socks s" "enodes (upd_epoll e f s) = enodes s"
  "num_procs (upd_epoll e f s) = num_procs s" "tx_bufs_pool (upd_epoll e f s) = tx_bufs_pool s"
  "event_infos (upd_epoll e f s) = event_infos s" "free_event_info_pool (upd_epoll e f s) = free_event_info_pool s"
  "epoll_objs (upd_epoll e f s) = (epoll_objs s) (e := f (epoll_objs s e))"
  by (simp_all add: upd_epoll_def)

lemma upd_node_simps [simp]:
  fixes s :: "'z epoll_env_scheme"
  shows "descs (upd_node o' f s) = descs s" "socks (upd_node o' f s) = socks s" "epoll_objs (upd_node o' f s) = epoll_objs s"
  "num_procs (upd_node o' f s) = num_procs s" "tx_bufs_pool (upd_node o' f s) = tx_bufs_pool s"
  "free_event_info_pool (upd_node o' f s) = free_event_info_pool s" "event_infos (upd_node o' f s) = event_infos s"
  "enodes (upd_node o' f s) = (enodes s) (o' := f (enodes s o'))"
  by (simp_all add: upd_node_def)

text \<open>What becomes of a record that the application takes from a ring.\<close>

lemma deliver_one_reg:
  fixes s :: "'z epoll_env_scheme"
  assumes "registered s e k o'" "event_infos s a = \<lparr> info_sockfd = int k, info_event = event \<rparr>"
    and "event_avaliable event k s = Inr avail"
  shows "deliver_one e a s =
    Inr (if epoll_events (enodes s o') AND event \<noteq> 0 \<and> ready_events (enodes s o') AND event \<noteq> 0 \<and> avail
         then [(k, \<lparr> ev_events = event, ev_data = ep_data (enodes s o') \<rparr>)] else [],
         upd_node o' (\<lambda>n. n \<lparr> ready_events := ready_events n AND NOT event \<rparr>) (put_event_info a s))"
proof -
  have k: "k < 2048" "socket (descs s k) = Some k" using assms(1) by (simp_all add: registered_def)
  have reg: "search_epoll_node_in_socket (int e) k (put_event_info a s) = Some o'"
    using assms(1) registered_cong [of "put_event_info a s" s o' e k] by simp
  have av: "event_avaliable event k (put_event_info a s) = Inr avail"
    using assms(3) event_avaliable_cong [of "put_event_info a s" s event k] by simp
  show ?thesis using k assms(2) reg av by (simp add: deliver_one_def Let_def LIGHT_CONNECTION_POOL_SIZE_def)
qed

text \<open>Taking the only record of the ready ring.\<close>

lemma take_ready_one:
  fixes s :: "'z epoll_env_scheme"
  assumes "ring_ok (ready_connections (epoll_objs s e))" "contents (ready_connections (epoll_objs s e)) = [a]" "length acc < m"
    and "deliver_one e a (upd_epoll e (put_ring ReadyRing (consumed (ready_connections (epoll_objs s e)) 1)) s) = Inr (d, s1)"
    and "epoll_objs s1 e = put_ring ReadyRing (consumed (ready_connections (epoll_objs s e)) 1) (epoll_objs s e)"
  shows "take_events ReadyRing e e m acc s = Some (Inr (acc @ d, s1))"
proof -
  let ?r = "ready_connections (epoll_objs s e)"
  have c: "ring_ok (consumed ?r 1)" "contents (consumed ?r 1) = []" "rte_ring_dequeue ?r 0 = (0, a, consumed ?r 1)"
    using ring_take [OF assms(1,2)] by auto
  have "take_events ReadyRing e e m (acc @ d) s1 = Some (Inr (acc @ d, s1))"
    using c(1,2) assms(5) by (subst take_events.simps) (simp add: pick_ring_def put_ring_def rte_ring_dequeue_eq)
  then show ?thesis using c(3) assms(3,4) by (subst take_events.simps) (simp add: pick_ring_def)
qed

lemma bit_set_again: "((x AND NOT ev) OR ev) AND ev = (ev :: u32)" "(x OR ev) AND ev = (ev :: u32)"
  "(x AND NOT ev) AND ev = (0 :: u32)"
  by (rule bit_word_eqI; auto simp: bit_simps)+

lemma mark_event_awake:
  "is_sleeping (epoll_objs s e) = 0 \<Longrightarrow>
   mark_event k o' e event s = Inr (upd_node o' (\<lambda>n. n \<lparr> ready_events := ready_events n OR event \<rparr>) s)"
  by (simp add: mark_event_def)

text \<open>The state after the first step of the stack, with an empty ready ring before it.\<close>

lemma event_queued:
  fixes s :: "'z stack_env_scheme"
  assumes reg: "registered s e k o'" and ev: "epoll_events (enodes s o') AND event \<noteq> 0" and ok: "ev_ok s e"
    and pool: "pool_free (free_event_info_pool s) = a # as"
    and ring: "contents (ready_connections (epoll_objs s e)) = []" "0 < capacity (ready_connections (epoll_objs s e))"
  obtains s1 rg where "queue_event (int k) event s = Inr (Queued k o' e, s1)" "registered s1 e k o'" "enodes s1 = enodes s"
    "event_avaliable event k s1 = event_avaliable event k s" "event_infos s1 a = \<lparr> info_sockfd = int k, info_event = event \<rparr>"
    "epoll_objs s1 e = (epoll_objs s e) \<lparr> ready_connections := rg \<rparr>" "ring_ok rg" "contents rg = [a]"
    "pool_ok (free_event_info_pool s1)" "pool_free (free_event_info_pool s1) = as"
    "pool_cap (free_event_info_pool s1) = pool_cap (free_event_info_pool s)"
proof -
  obtain mp rg where q: "queue_event (int k) event s = Inr (Queued k o' e,
       upd_epoll e (\<lambda>x. x \<lparr> ready_connections := rg \<rparr>)
         (s \<lparr> free_event_info_pool := mp, event_infos := (event_infos s) (a := \<lparr> info_sockfd = int k, info_event = event \<rparr>) \<rparr>))"
    "pool_ok mp" "pool_free mp = as" "pool_cap mp = pool_cap (free_event_info_pool s)" "ring_ok rg"
    "contents rg = contents (ready_connections (epoll_objs s e)) @ [a]"
    by (rule queue_event_ok [OF reg ev ok pool]) (use ring in simp_all)
  define s1 where "s1 = upd_epoll e (\<lambda>x. x \<lparr> ready_connections := rg \<rparr>)
         (s \<lparr> free_event_info_pool := mp, event_infos := (event_infos s) (a := \<lparr> info_sockfd = int k, info_event = event \<rparr>) \<rparr>)"
  have "registered s1 e k o'" "event_avaliable event k s1 = event_avaliable event k s"
    using reg registered_cong [of s1 s o' e k] event_avaliable_cong [of s1 s event k] by (simp_all add: s1_def)
  then show thesis using that [of s1 rg] q ring by (simp add: s1_def)
qed

text \<open>The application takes the only record of the ready ring.\<close>

lemma take_ready_reg:
  fixes s :: "'z epoll_env_scheme"
  assumes reg: "registered s e k o'" and info: "event_infos s a = \<lparr> info_sockfd = int k, info_event = event \<rparr>"
    and ring: "ring_ok (ready_connections (epoll_objs s e))" "contents (ready_connections (epoll_objs s e)) = [a]"
    and av: "event_avaliable event k s = Inr avail" and m: "0 < m"
  obtains s2 where "take_events ReadyRing e e m [] s = Some (Inr
      (if epoll_events (enodes s o') AND event \<noteq> 0 \<and> ready_events (enodes s o') AND event \<noteq> 0 \<and> avail
       then [(k, \<lparr> ev_events = event, ev_data = ep_data (enodes s o') \<rparr>)] else [], s2))"
    "registered s2 e k o'" "enodes s2 = (enodes s) (o' := (enodes s o') \<lparr> ready_events := ready_events (enodes s o') AND NOT event \<rparr>)"
    "epoll_objs s2 e = (epoll_objs s e) \<lparr> ready_connections := consumed (ready_connections (epoll_objs s e)) 1 \<rparr>"
    "free_event_info_pool s2 = rte_mempool_put 0 (free_event_info_pool s) a"
proof -
  define t where "t = upd_epoll e (put_ring ReadyRing (consumed (ready_connections (epoll_objs s e)) 1)) s"
  have t: "registered t e k o'" "event_avaliable event k t = Inr avail" "event_infos t a = event_infos s a"
    "enodes t = enodes s" "free_event_info_pool t = free_event_info_pool s"
    "epoll_objs t e = (epoll_objs s e) \<lparr> ready_connections := consumed (ready_connections (epoll_objs s e)) 1 \<rparr>"
    using reg av registered_cong [of t s o' e k] event_avaliable_cong [of t s event k]
    by (simp_all add: t_def put_ring_def)
  define s2 where "s2 = upd_node o' (\<lambda>n. n \<lparr> ready_events := ready_events n AND NOT event \<rparr>) (put_event_info a t)"
  have d: "deliver_one e a t = Inr (if epoll_events (enodes s o') AND event \<noteq> 0 \<and> ready_events (enodes s o') AND event \<noteq> 0 \<and> avail
       then [(k, \<lparr> ev_events = event, ev_data = ep_data (enodes s o') \<rparr>)] else [], s2)"
    using deliver_one_reg [OF t(1) _ t(2), of a] t(3,4) info by (simp add: s2_def)
  have "epoll_objs s2 e = put_ring ReadyRing (consumed (ready_connections (epoll_objs s e)) 1) (epoll_objs s e)"
    using t(6) by (simp add: s2_def put_ring_def)
  from take_ready_one [OF ring _ d [unfolded t_def] this, where m = m and acc = "[]"] m
  have "take_events ReadyRing e e m [] s = Some (Inr
      (if epoll_events (enodes s o') AND event \<noteq> 0 \<and> ready_events (enodes s o') AND event \<noteq> 0 \<and> avail
       then [(k, \<lparr> ev_events = event, ev_data = ep_data (enodes s o') \<rparr>)] else [], s2))" by simp
  moreover have "registered s2 e k o'" using t(1) registered_cong [of s2 t o' e k] by (simp add: s2_def)
  ultimately show thesis using that [of s2] t by (simp add: s2_def put_event_info_def)
qed

text \<open>C38. An event can be lost when the application polls between the two steps of the stack: the record is
  already on the ready ring while its bit is not yet set, so the application discards it; the
  stack then sets the bit, the event is on no ring any more, and because of the bit the
  application does not queue it again either.\<close>

theorem epoll_event_lost_between_steps:
  fixes s :: "'z stack_env_scheme"
  assumes reg: "registered s e k o'" and ev: "epoll_events (enodes s o') AND event \<noteq> 0" and ok: "ev_ok s e"
    and pool: "pool_free (free_event_info_pool s) = a # as"
    and ring: "contents (ready_connections (epoll_objs s e)) = []" "0 < capacity (ready_connections (epoll_objs s e))"
    and bit: "ready_events (enodes s o') AND event = 0" and av: "event_avaliable event k s = Inr avail" and m: "0 < m"
    and obj: "is_sleeping (epoll_objs s e) = 0" "ep_epoll_idx (epoll_objs s e) = int e"
  shows "\<exists>s1 s2 s3. queue_event (int k) event s = Inr (Queued k o' e, s1) \<and>
     take_events ReadyRing e e m [] s1 = Some (Inr ([], s2)) \<and> mark_event k o' e event s2 = Inr s3 \<and>
     contents (ready_connections (epoll_objs s3 e)) = [] \<and>
     shadow_connections (epoll_objs s3 e) = shadow_connections (epoll_objs s e) \<and>
     ready_events (enodes s3 o') AND event = event \<and> add_epoll_event_to_shadow e k event s3 = (0, s3)"
proof -
  obtain s1 rg where s1: "queue_event (int k) event s = Inr (Queued k o' e, s1)" "registered s1 e k o'" "enodes s1 = enodes s"
    "event_avaliable event k s1 = event_avaliable event k s" "event_infos s1 a = \<lparr> info_sockfd = int k, info_event = event \<rparr>"
    "epoll_objs s1 e = (epoll_objs s e) \<lparr> ready_connections := rg \<rparr>" "ring_ok rg" "contents rg = [a]"
    by (rule event_queued [OF reg ev ok pool ring])
  obtain s2 where s2: "take_events ReadyRing e e m [] s1 = Some (Inr ([], s2))" "registered s2 e k o'"
    "enodes s2 = (enodes s1) (o' := (enodes s1 o') \<lparr> ready_events := ready_events (enodes s1 o') AND NOT event \<rparr>)"
    "epoll_objs s2 e = (epoll_objs s1 e) \<lparr> ready_connections := consumed rg 1 \<rparr>"
    using take_ready_reg [OF s1(2,5), where avail = avail and m = m] s1 av bit m by auto
  define s3 where "s3 = upd_node o' (\<lambda>n. n \<lparr> ready_events := ready_events n OR event \<rparr>) s2"
  have mark: "mark_event k o' e event s2 = Inr s3"
    unfolding s3_def by (rule mark_event_awake) (use s1(6) s2(4) obj in simp)
  have s3: "registered s3 e k o'" "ready_events (enodes s3 o') AND event = event"
    "epoll_objs s3 e = (epoll_objs s e) \<lparr> ready_connections := consumed rg 1 \<rparr>"
    using s1 s2 registered_cong [of s3 s2 o' e k] bit_set_again(1) by (simp_all add: s3_def)
  have "event \<noteq> 0" using ev by auto
  then have "add_epoll_event_to_shadow e k event s3 = (0, s3)"
    using s3 obj(2) by (simp add: add_epoll_event_to_shadow_def)
  then show ?thesis
    using s1(1) s2(1) mark s3 ring_take(3) [OF s1(7,8)] by (intro exI [of _ s1] exI [of _ s2] exI [of _ s3]) simp
qed

text \<open>Reposting one level-triggered event.\<close>

lemma repost_level:
  fixes s :: "'z epoll_env_scheme"
  assumes reg: "registered s e k o'" and pool: "pool_ok (free_event_info_pool s)" "pool_free (free_event_info_pool s) = b # bs"
    and ring: "ring_ok (shadow_connections (epoll_objs s e))"
      "length (contents (shadow_connections (epoll_objs s e))) < capacity (shadow_connections (epoll_objs s e))"
    and bits: "ready_events (enodes s o') AND ev_events ev = 0" "epoll_events (enodes s o') AND LIGHT_EPOLLET = 0"
      "ev_events ev AND LIGHT_EPOLLHUP = 0" "ev_events ev AND LIGHT_EPOLLERR = 0"
  shows "\<exists>s'. repost e e [(k, ev)] s = Inr s' \<and>
     contents (shadow_connections (epoll_objs s' e)) = contents (shadow_connections (epoll_objs s e)) @ [b] \<and>
     event_infos s' b = \<lparr> info_sockfd = int k, info_event = ev_events ev \<rparr> \<and>
     ready_events (enodes s' o') = ready_events (enodes s o') OR ev_events ev"
proof -
  obtain mp where mp: "get_event_info s = (Some b, s \<lparr> free_event_info_pool := mp \<rparr>)"
    using get_event_info_some [OF pool] by metis
  have k: "socket (descs s k) = Some k" using reg by (simp add: registered_def)
  show ?thesis
    using mp k reg bits ring_give [OF ring, where x = b] by (simp add: enqueue_shadow_def Let_def)
qed


lemma ctl_frame_refl [simp]: "ctl_frame s s"
  by (simp add: ctl_frame_def)

lemma ctl_frame_trans: "ctl_frame s t \<Longrightarrow> ctl_frame t r \<Longrightarrow> ctl_frame s r"
  by (simp add: ctl_frame_def)

lemma enqueue_shadow_frame: "ctl_frame s (snd (enqueue_shadow e a i ev s))"
  by (simp add: ctl_frame_def enqueue_shadow_def Let_def upd_epoll_def put_event_info_def split: prod.split)

lemma get_event_info_frame: "ctl_frame s (snd (get_event_info s))"
  by (simp add: ctl_frame_def get_event_info_def Let_def split: prod.split)

lemma add_shadow_frame: "ctl_frame s (snd (add_epoll_event_to_shadow e k ev s))"
proof (cases "search_epoll_node_in_socket (ep_epoll_idx (epoll_objs s e)) k s")
  case (Some o')
  obtain r s1 where g: "get_event_info s = (r, s1)" by fastforce
  have s1: "ctl_frame s s1" using get_event_info_frame [of s] g by simp
  show ?thesis
  proof (cases r)
    case None
    then show ?thesis using Some g s1 by (simp add: add_epoll_event_to_shadow_def)
  next
    case (Some a)
    obtain b s2 where q: "enqueue_shadow e a (connection_idx (socks s1 k)) ev s1 = (b, s2)" by fastforce
    have s2: "ctl_frame s s2" using ctl_frame_trans [OF s1] enqueue_shadow_frame [of s1 e a _ ev] q by (metis snd_conv)
    then have "ctl_frame s (upd_node o' (\<lambda>n. n \<lparr> ready_events := ready_events n OR ev \<rparr>) s2)"
      by (simp add: ctl_frame_def upd_node_def)
    then show ?thesis using Some \<open>search_epoll_node_in_socket _ _ _ = _\<close> g q s2
      by (cases b) (simp_all add: add_epoll_event_to_shadow_def)
  qed
qed (simp add: add_epoll_event_to_shadow_def)

lemma check_and_shadow_frame:
  assumes "socket (descs s i) = Some k" "is_multicore (socks s k) = 0"
  shows "\<exists>s'. check_and_shadow e k i event s = Inr s' \<and> ctl_frame s s'"
proof -
  define s1 where "s1 = (if event AND LIGHT_EPOLLIN \<noteq> 0 \<and> has_data i s then snd (add_epoll_event_to_shadow e k LIGHT_EPOLLIN s) else s)"
  have s1: "ctl_frame s s1" using add_shadow_frame [of s e k LIGHT_EPOLLIN] by (simp add: s1_def)
  have c1: "(if event AND LIGHT_EPOLLIN \<noteq> 0 then light_check_data i s else Inr False) =
      Inr (event AND LIGHT_EPOLLIN \<noteq> 0 \<and> has_data i s)"
    using assms by (simp add: light_check_data_def sock_of_def)
  obtain b where "light_check_buffer i s1 = Inr b"
    using assms(1) s1 by (auto simp: light_check_buffer_def light_get_socket_tx_space_def sock_of_def ctl_frame_def Let_def)
  then have c2: "(if event AND LIGHT_EPOLLOUT \<noteq> 0 then light_check_buffer i s1 else Inr False) =
      Inr (event AND LIGHT_EPOLLOUT \<noteq> 0 \<and> b)" by simp
  have "check_and_shadow e k i event s =
      Inr (if event AND LIGHT_EPOLLOUT \<noteq> 0 \<and> b then snd (add_epoll_event_to_shadow e k LIGHT_EPOLLOUT s1) else s1)"
    unfolding check_and_shadow_def c1 cbind_simps Let_def s1_def [symmetric] c2 ..
  then show ?thesis using ctl_frame_trans [OF s1 add_shadow_frame [of s1 e k LIGHT_EPOLLOUT]] s1 by simp
qed

text \<open>C39. Removing a registration undoes adding it: \<open>EPOLL_CTL_ADD\<close> puts a node with the caller's events and
  data at the head of the socket's list and the descriptor at the end of the object's queue, a
  second \<open>ADD\<close> is refused, and \<open>EPOLL_CTL_DEL\<close> takes both out again and frees the node.\<close>

theorem epoll_ctl_add_del:
  fixes s :: "'z epoll_env_scheme"
  assumes sk: "socket (descs s i) = Some k" "is_multicore (socks s k) = 0" and slot: "slot < 64"
    and new: "search_epoll_node_in_socket (int slot) k s = None"
    and pool: "pool_ok (free_epoll_node_pool s)" "pool_free (free_epoll_node_pool s) = o' # os"
    and lists: "tq_list (socket_lists s) slot ds" "i \<notin> set ds"
    and nodes: "o' \<notin> set (epoll_node_list (socks s k))"
  shows "\<exists>s1 s2. epoll_ctl_add slot e i k ev s = Inr (0, s1) \<and> search_epoll_node_in_socket (int slot) k s1 = Some o' \<and>
     epoll_node_list (socks s1 k) = o' # epoll_node_list (socks s k) \<and> ep_data (enodes s1 o') = ev_data ev \<and>
     epoll_events (enodes s1 o') = ev_events ev OR (LIGHT_EPOLLERR OR LIGHT_EPOLLHUP) \<and>
     tq_list (socket_lists s1) slot (ds @ [i]) \<and>
     epoll_ctl_add slot e i k ev s1 = Inr (- 1, s1 \<lparr> errno := EEXIST \<rparr>) \<and>
     epoll_ctl_del slot i k s1 = Inr (0, s2) \<and> epoll_node_list (socks s2 k) = epoll_node_list (socks s k) \<and>
     search_epoll_node_in_socket (int slot) k s2 = None \<and> tq_list (socket_lists s2) slot ds \<and>
     pool_free (free_epoll_node_pool s2) = os @ [o']"
proof -
  obtain mp where mp: "rte_mempool_get 0 (free_epoll_node_pool s) 0 = (0, o', mp)" "pool_ok mp" "pool_free mp = os"
    "pool_cap mp = pool_cap (free_epoll_node_pool s)" by (rule pool_take [OF pool])
  define event where "event = ev_events ev OR (LIGHT_EPOLLERR OR LIGHT_EPOLLHUP)"
  define t where "t = add_epoll_node_in_socket o' k (upd_node o' (\<lambda>n. n \<lparr> epoll_events := event, node_epoll_idx := int slot,
      ready_events := 0, ep_data := ev_data ev \<rparr>) (s \<lparr> free_epoll_node_pool := mp \<rparr>))"
  have t: "socket (descs t i) = Some k" "is_multicore (socks t k) = 0" "socket_lists t = socket_lists s"
    "free_epoll_node_pool t = mp" "epoll_node_list (socks t k) = o' # epoll_node_list (socks s k)"
    "ep_data (enodes t o') = ev_data ev" "epoll_events (enodes t o') = event" "node_epoll_idx (enodes t o') = int slot"
    "\<forall>p. p \<noteq> o' \<longrightarrow> enodes t p = enodes s p"
    using sk by (simp_all add: t_def add_epoll_node_in_socket_def upd_sock_def upd_node_def)
  obtain t1 where t1: "check_and_shadow e k i event t = Inr t1" "ctl_frame t t1" using check_and_shadow_frame [OF t(1,2)] by blast
  obtain q where q: "TAILQ_INSERT_TAIL slot i (socket_lists s) = Inr q" "tq_list q slot (ds @ [i])"
    using TAILQ_INSERT_TAIL_list [OF lists] by blast
  define s1 where "s1 = t1 \<lparr> socket_lists := q \<rparr>"
  have add: "epoll_ctl_add slot e i k ev s = Inr (0, s1)"
    using new mp(1) t1 q(1) t(3) by (simp add: epoll_ctl_add_def event_def [symmetric] t_def [symmetric] s1_def ctl_frame_def)
  have s1: "socks s1 = socks t" "free_epoll_node_pool s1 = mp" "socket_lists s1 = q"
    "ep_data (enodes s1 o') = ev_data ev" "epoll_events (enodes s1 o') = event"
    "\<forall>p. node_epoll_idx (enodes s1 p) = node_epoll_idx (enodes t p)"
    using t1(2) t by (simp_all add: s1_def ctl_frame_def)
  have found: "search_epoll_node_in_socket (int slot) k s1 = Some o'"
    using s1(1,6) t(5,8) by (simp add: search_epoll_node_in_socket_def)
  obtain q2 where q2: "TAILQ_REMOVE slot i q = Inr q2" "tq_list q2 slot ds"
    using TAILQ_REMOVE_list [of q slot ds i "[]"] q(2) by auto
  define s2 where "s2 = (free_epoll_node_buf o' (upd_node o' (\<lambda>n. n \<lparr> node_epoll_idx := - 1, epoll_events := 0, ready_events := 0 \<rparr>)
      (unlink_node k o' s1))) \<lparr> socket_lists := q2 \<rparr>"
  have sl: "epoll_slot (int slot) = Inr slot" using slot by (simp add: epoll_slot_def LIGHT_EPOLL_POOL_SIZE_def)
  have del: "epoll_ctl_del slot i k s1 = Inr (0, s2)"
    using found q2(1) s1(3) sl
    by (simp add: epoll_ctl_del_def delete_epoll_node_in_socket_def list_remove_def s2_def free_epoll_node_buf_def upd_node_def
        unlink_node_def upd_sock_def)
  have s2: "epoll_node_list (socks s2 k) = epoll_node_list (socks s k)" "socket_lists s2 = q2"
    "free_epoll_node_pool s2 = rte_mempool_put 0 mp o'"
    "\<forall>p \<in> set (epoll_node_list (socks s k)). node_epoll_idx (enodes s2 p) = node_epoll_idx (enodes s p)"
    using s1 t(5,9) nodes by (auto simp: s2_def free_epoll_node_buf_def upd_node_def unlink_node_def upd_sock_def)
  have "search_epoll_node_in_socket (int slot) k s2 = None"
    using new s2(1,4) by (simp add: search_epoll_node_in_socket_def find_None_iff)
  moreover have "length os < pool_cap mp" using mpool.bound [OF pool(1)] pool(2) mp(4) by simp
  then have "pool_free (free_epoll_node_pool s2) = os @ [o']" using pool_give(2) [OF mp(2)] mp(3) s2(3) by simp
  moreover have "epoll_ctl_add slot e i k ev s1 = Inr (- 1, s1 \<lparr> errno := EEXIST \<rparr>)"
    using found by (simp add: epoll_ctl_add_def)
  ultimately show ?thesis
    using add found del s1 s2(1,2) t(5) q(2) q2(2) by (intro exI [of _ s1] exI [of _ s2]) (simp add: event_def)
qed

text \<open>C40. A wait never times out: when no event is queued and the kernel reports none, \<open>light_epoll_wait\<close> starts
  over each time the kernel call comes back, with a time limit as well as with the timeout zero,
  and does not return.\<close>

theorem light_epoll_wait_ignores_timeout:
  fixes s :: "'z epoll_env_scheme"
  assumes fd: "light_fd_to_socket_epoll_index (fdt s) epfd = Inr (int slot, ty)" "slot < 64"
    and obj: "epolls s slot = Some e" "is_active (epoll_objs s e) \<noteq> 0" "is_sleeping (epoll_objs s e) = 0" "ev_ok s e"
    and none: "contents (ready_connections (epoll_objs s e)) = []" "contents (shadow_connections (epoll_objs s e)) = []"
    and kernel: "\<And>n t. kwait n t = ([], t)"
  shows "light_epoll_wait kwait epfd m timeout s = Inl NoReturn"
proof -
  have wake: "x \<lparr> is_sleeping := 0 \<rparr> = x" if "is_sleeping x = 0" for x :: light_epoll_t using that by (cases x) simp
  have "upd_epoll e (\<lambda>x. x \<lparr> is_sleeping := 0 \<rparr>) (upd_epoll e (\<lambda>x. x \<lparr> is_sleeping := 1 \<rparr>) s) = s"
    using wake [OF obj(3)] by (simp add: upd_epoll_def)
  then have sl: "sleep_round kwait n e timeout s = ([], s)" for n by (simp add: sleep_round_def kernel)
  have take: "take_events w slot e m [] s = Some (Inr ([], s))" for w
    using obj(4) none by (subst take_events.simps) (cases w; simp add: pick_ring_def rte_ring_dequeue_eq ev_ok_def)
  have round: "wait_round kwait n slot e m timeout s = Inr ([], s)" for n
    by (simp add: wait_round_def sl take)
  have "wait_rounds kwait 0 slot e m timeout s = None"
  proof (rule ccontr)
    assume "wait_rounds kwait 0 slot e m timeout s \<noteq> None"
    then obtain r where "wait_rounds kwait 0 slot e m timeout s = Some r" by blast
    then have "(kwait = kwait \<and> slot = slot \<and> e = e \<and> m = m \<and> timeout = timeout \<and> s = s) \<longrightarrow> False"
      by (rule wait_rounds.raw_induct [where P = "\<lambda>kw n sl e' m' ti t r.
            (kw = kwait \<and> sl = slot \<and> e' = e \<and> m' = m \<and> ti = timeout \<and> t = s) \<longrightarrow> False", rotated])
        (auto simp: round, blast)
    then show False by simp
  qed
  then show ?thesis
    using fd obj by (simp add: light_epoll_wait_def epoll_slot_def LIGHT_EPOLL_POOL_SIZE_def loop_res_def)
qed

lemma demo_stack_simps [simp]:
  "descs demo_stack i = demo_desc [10]" "socks demo_stack k = (demo_sock 0) \<lparr> epoll_node_list := [40] \<rparr>"
  "enodes demo_stack p = \<lparr> node_epoll_idx = 5, epoll_events = LIGHT_EPOLLIN, ready_events = 0, ep_data = 77 \<rparr>"
  "epoll_objs demo_stack e = demo_epoll" "free_event_info_pool demo_stack = pool_of 2 0 [50, 51]"
  "free_epoll_node_pool demo_stack = pool_of 2 0 [41]" "epolls demo_stack e = (if e = 5 then Some 5 else None)"
  "fdt demo_stack = demo_tables \<lparr> true_to_light := [2053] \<rparr>"
  "socket_lists demo_stack = \<lparr> tqh_first = (\<lambda>_. None), tqh_last = TqHead, tqe_next = (\<lambda>_. None), tqe_prev = (\<lambda>_. TqNull) \<rparr>"
  by (simp_all add: demo_stack_def sock_env.defs epoll_env.defs demo_net_def app_env.defs demo_app_def demo_env_def cmd_env.defs)

lemma demo_epoll_simps [simp]:
  "ready_connections demo_epoll = ring_of 2 0 []" "shadow_connections demo_epoll = ring_of 2 0 []"
  "ep_epoll_idx demo_epoll = 5" "is_active demo_epoll = 1" "is_sleeping demo_epoll = 0"
  by (simp_all add: demo_epoll_def)

lemma demo_stack_ok:
  "registered demo_stack 5 3 40" "ev_ok demo_stack 5" "contents (ring_of 2 (0 :: addr) []) = []" "capacity (ring_of 2 (0 :: addr) []) = 3"
  "pool_free (pool_of 2 (0 :: addr) [50, 51]) = [50, 51]" "pool_free (pool_of 2 (0 :: addr) [41]) = [41]" "pool_ok (pool_of 2 (0 :: addr) [41])"
  using ring_of_ok [of 2 "[]" "0 :: addr"] pool_of_ok [of 2 "[50, 51]" "0 :: addr"] pool_of_ok [of 2 "[41]" "0 :: addr"]
  by (simp_all add: registered_def ev_ok_def)

lemma demo_input: "event_avaliable LIGHT_EPOLLIN 3 demo_stack = Inr True"
proof -
  have "wf_ring (ring_of 3 (0 :: addr) [10])" "contents (ring_of 3 (0 :: addr) [10]) = [10]"
    using ring_of_ok [of 3 "[10]" "0 :: addr"] by (simp_all add: ring_ok_def)
  then have "rte_ring_count (ring_of 3 (0 :: addr) [10]) \<noteq> 0"
    using rte_ring_count_eq [of "ring_of 3 (0 :: addr) [10]"] by force
  then show ?thesis
    by (simp add: event_avaliable_def light_check_data_def sock_of_def has_data_def LIGHT_EPOLLIN_def)
qed

theorem epoll_event_lost_between_steps_witness:
  "\<exists>s1 s2 s3. queue_event 3 LIGHT_EPOLLIN demo_stack = Inr (Queued 3 40 5, s1) \<and>
     take_events ReadyRing 5 5 8 [] s1 = Some (Inr ([], s2)) \<and> mark_event 3 40 5 LIGHT_EPOLLIN s2 = Inr s3 \<and>
     contents (ready_connections (epoll_objs s3 5)) = []"
  using epoll_event_lost_between_steps [OF demo_stack_ok(1) _ demo_stack_ok(2), of LIGHT_EPOLLIN 50 "[51]" True 8] demo_stack_ok demo_input
  by (auto simp: LIGHT_EPOLLIN_def)


theorem epoll_ctl_add_del_witness:
  "\<exists>s1 s2. epoll_ctl_add 6 6 3 3 \<lparr> ev_events = LIGHT_EPOLLIN, ev_data = 9 \<rparr> demo_stack = Inr (0, s1) \<and>
     epoll_ctl_del 6 3 3 s1 = Inr (0, s2) \<and> epoll_node_list (socks s2 3) = [40]"
  using epoll_ctl_add_del [of demo_stack 3 3 6 41 "[]" "[]" 6 "\<lparr> ev_events = LIGHT_EPOLLIN, ev_data = 9 \<rparr>"] demo_stack_ok
  by (auto simp: search_epoll_node_in_socket_def tq_list_def)

theorem light_epoll_wait_ignores_timeout_witness:
  "light_epoll_wait (\<lambda>n t. ([], t)) 0 8 1000 demo_stack = Inl NoReturn"
  by (rule light_epoll_wait_ignores_timeout [where slot = 5 and e = 5 and ty = LIGHT_EPOLL_INDEX])
    (use demo_stack_ok in \<open>simp_all add: light_fd_to_socket_epoll_index_def LIGHT_CONNECTION_POOL_SIZE_def\<close>)

end
