(* ===== verification/App_Glue.thy ===== *)
theory App_Glue
  imports Epoll
begin

text \<open>
  The stack process between the shared rings and the ported network stack: the queues of ready
  sockets of \<open>porting/app_glue.c\<close>, the callbacks of \<open>user_callbacks.h\<close> that move data and connections
  between a socket of the network stack and the rings of its application, and the ring
  operations of \<open>light_server_side.h\<close> they use.  The network stack itself is an argument: a
  record of the functions these files call.  Statistics counters are left out.
\<close>

section \<open>State\<close>

definition SOCK_STREAM :: int where "SOCK_STREAM = 1"
definition SOCK_DGRAM :: int where "SOCK_DGRAM = 2"
definition SOCK_RAW :: int where "SOCK_RAW = 3"
definition TCP_ESTABLISHED :: int where "TCP_ESTABLISHED = 1"
definition TCP_CLOSE_WAIT :: int where "TCP_CLOSE_WAIT = 8"
definition TCP_CLOSE :: int where "TCP_CLOSE = 7"
definition TCP_LISTEN :: int where "TCP_LISTEN = 10"
definition EINPROGRESS :: int where "EINPROGRESS = 115"

text \<open>What a callback pointer of a \<open>struct sock\<close> points to: the stack's own function or the one of the glue.\<close>

datatype handler = sock_def | sk_stream | app_glue

text \<open>
  The queues of sockets, each a tail queue with its own entry and its own \<open>..._queue_present\<close> flag in the
  socket: readable, writable, with connections to accept, closed, and waiting for buffers.
\<close>

datatype ready_queue = ReadQ | WriteQ | AcceptQ | ClosedQ | NotifyQ

text \<open>
  A \<open>struct socket\<close> together with its \<open>struct sock\<close>, which \<open>has_sk\<close> says is there; \<open>sk_user_data\<close> is the
  index of the satellite data the pointer refers to.
\<close>

record ksocket =
  sock_type :: int
  has_sk :: bool
  sk_state :: int
  sk_user_data :: "nat option"
  sk_refcnt :: int
  sk_data_ready :: handler
  sk_write_space :: handler
  sk_state_change :: handler
  sk_error_report :: handler
  use_write_queue :: bool
  sock_nospace :: bool
  queue_present :: "ready_queue \<Rightarrow> bool"

text \<open>
  \<open>socket_satelite_data\<close>; its rings are those the descriptor of the same index looks up by name, and
  its \<open>apppid\<close> is the field of that name of the stack state.
\<close>

record socket_satelite_data_t =
  sat_socket :: "nat option"
  sat_ringset_idx :: int
  sat_parent_idx :: int

record glue_env = stack_env +
  satelites :: "nat \<Rightarrow> socket_satelite_data_t"
  ksocks :: "nat \<Rightarrow> ksocket"
  ready_lists :: "ready_queue \<Rightarrow> tailq"
  read_sockets_queue_len :: u64
  write_sockets_queue_len :: u64

text \<open>
  The functions of the network stack that are called.  \<open>kernel_accept\<close> gives the new socket with the
  address and port of its peer; \<open>kernel_recvmsg\<close> gives nothing when its result is not positive, and
  otherwise the buffer chain and the address of the sender.
\<close>

record 's net_stack =
  sock_create_kern :: "int \<Rightarrow> int \<Rightarrow> 's \<Rightarrow> nat option \<times> 's"
  sock_setsockopt :: "nat \<Rightarrow> int \<Rightarrow> int \<Rightarrow> int \<Rightarrow> u8 list \<Rightarrow> 's \<Rightarrow> 's"
  kernel_bind :: "nat \<Rightarrow> u32 \<Rightarrow> u16 \<Rightarrow> 's \<Rightarrow> int \<times> 's"
  kernel_connect :: "nat \<Rightarrow> u32 \<Rightarrow> u16 \<Rightarrow> 's \<Rightarrow> int \<times> 's"
  kernel_listen :: "nat \<Rightarrow> u32 \<Rightarrow> 's \<Rightarrow> int \<times> 's"
  kernel_accept :: "nat \<Rightarrow> 's \<Rightarrow> (nat \<times> u32 \<times> u16) option \<times> 's"
  kernel_close :: "nat \<Rightarrow> 's \<Rightarrow> 's"
  kernel_sendpage :: "nat \<Rightarrow> int \<Rightarrow> 's \<Rightarrow> int \<times> 's"
  kernel_recvmsg :: "nat \<Rightarrow> 's \<Rightarrow> (addr option \<times> u8 list) option \<times> 's"
  udp_sendmsg :: "nat \<Rightarrow> bool \<Rightarrow> addr \<Rightarrow> 's \<Rightarrow> int \<times> 's"
  inet_shutdown :: "nat \<Rightarrow> int \<Rightarrow> 's \<Rightarrow> 's"
  inet_getname :: "nat \<Rightarrow> 's \<Rightarrow> u32 \<times> u16"
  inet_num :: "nat \<Rightarrow> 's \<Rightarrow> nat"
  inet_lookup_listener :: "nat \<Rightarrow> 's \<Rightarrow> nat option"
  sk_stream_wspace :: "nat \<Rightarrow> 's \<Rightarrow> int"
  sk_stream_is_writeable :: "nat \<Rightarrow> 's \<Rightarrow> bool"
  sk_free :: "nat \<Rightarrow> 's \<Rightarrow> 's"

definition upd_ksock :: "nat \<Rightarrow> (ksocket \<Rightarrow> ksocket) \<Rightarrow> 'z glue_env_scheme \<Rightarrow> 'z glue_env_scheme" where
  "upd_ksock q f s = s \<lparr> ksocks := (ksocks s) (q := f (ksocks s q)) \<rparr>"

definition upd_sat :: "nat \<Rightarrow> (socket_satelite_data_t \<Rightarrow> socket_satelite_data_t) \<Rightarrow> 'z glue_env_scheme \<Rightarrow> 'z glue_env_scheme" where
  "upd_sat k f s = s \<lparr> satelites := (satelites s) (k := f (satelites s k)) \<rparr>"

text \<open>Using \<open>sock->sk\<close> while it is NULL is a fault.\<close>

definition need_sk :: "nat \<Rightarrow> 'z glue_env_scheme \<Rightarrow> 'z glue_env_scheme c_res" where
  "need_sk q s = (if has_sk (ksocks s q) then Inr s else Inl BadPointer)"

definition sock_hold :: "nat \<Rightarrow> 'z glue_env_scheme \<Rightarrow> 'z glue_env_scheme" where
  "sock_hold q = upd_ksock q (\<lambda>x. x \<lparr> sk_refcnt := sk_refcnt x + 1 \<rparr>)"

definition sock_put :: "'z glue_env_scheme net_stack \<Rightarrow> nat \<Rightarrow> 'z glue_env_scheme \<Rightarrow> 'z glue_env_scheme c_res" where
  "sock_put K q s =
     cbind (need_sk q s) (\<lambda>s.
     let s1 = upd_ksock q (\<lambda>x. x \<lparr> sk_refcnt := sk_refcnt x - 1 \<rparr>) s
     in Inr (if sk_refcnt (ksocks s1 q) = 0 then sk_free K q s1 else s1))"

text \<open>Atomic 32-bit arithmetic on the transmit space of a socket.\<close>

definition wrap32 :: "int \<Rightarrow> int" where
  "wrap32 n = (n + 2 ^ 31) mod 2 ^ 32 - 2 ^ 31"

definition user_increment_socket_tx_space :: "nat \<Rightarrow> int \<Rightarrow> 'z app_env_scheme \<Rightarrow> 'z app_env_scheme" where
  "user_increment_socket_tx_space k n = upd_sock k (\<lambda>x. x \<lparr> tx_space := wrap32 (tx_space x + n) \<rparr>)"

definition user_set_socket_tx_space :: "nat \<Rightarrow> int \<Rightarrow> 'z app_env_scheme \<Rightarrow> 'z app_env_scheme" where
  "user_set_socket_tx_space k n = upd_sock k (\<lambda>x. x \<lparr> tx_space := n \<rparr>)"

section \<open>Queues of ready sockets\<close>

text \<open>Each queue has the single head 0; the flag of the socket changes together with the queue.\<close>

definition upd_ready :: "ready_queue \<Rightarrow> (tailq \<Rightarrow> tailq) \<Rightarrow> 'z glue_env_scheme \<Rightarrow> 'z glue_env_scheme" where
  "upd_ready w f s = s \<lparr> ready_lists := (ready_lists s) (w := f (ready_lists s w)) \<rparr>"

definition app_glue_init :: "'z glue_env_scheme \<Rightarrow> 'z glue_env_scheme" where
  "app_glue_init s =
     upd_ready ClosedQ (TAILQ_INIT 0) (upd_ready AcceptQ (TAILQ_INIT 0)
       (upd_ready WriteQ (TAILQ_INIT 0) (upd_ready ReadQ (TAILQ_INIT 0) s)))"

definition set_present :: "ready_queue \<Rightarrow> nat \<Rightarrow> bool \<Rightarrow> 'z glue_env_scheme \<Rightarrow> 'z glue_env_scheme" where
  "set_present w q b = upd_ksock q (\<lambda>x. x \<lparr> queue_present := (queue_present x) (w := b) \<rparr>)"

definition queue_insert :: "ready_queue \<Rightarrow> nat \<Rightarrow> 'z glue_env_scheme \<Rightarrow> 'z glue_env_scheme c_res" where
  "queue_insert w q s =
     cbind (TAILQ_INSERT_TAIL 0 q (ready_lists s w)) (\<lambda>l. Inr (upd_ready w (\<lambda>_. l) (set_present w q True s)))"

definition queue_remove :: "ready_queue \<Rightarrow> nat \<Rightarrow> 'z glue_env_scheme \<Rightarrow> 'z glue_env_scheme c_res" where
  "queue_remove w q s =
     cbind (TAILQ_REMOVE 0 q (ready_lists s w)) (\<lambda>l. Inr (upd_ready w (\<lambda>_. l) (set_present w q False s)))"

text \<open>
  The callbacks of the network stack.  A socket is named by its \<open>struct socket\<close>; a \<open>struct sock\<close> without
  one is the argument \<open>None\<close>; \<open>app_glue_sock_wakeup\<close> is modelled for a \<open>struct sock\<close> with its socket.
\<close>

definition app_glue_sock_readable :: "nat option \<Rightarrow> 'z glue_env_scheme \<Rightarrow> 'z glue_env_scheme c_res" where
  "app_glue_sock_readable sk s =
     (case sk of None \<Rightarrow> Inr s
      | Some q \<Rightarrow>
        let x = ksocks s q in
        if sk_state x \<noteq> TCP_ESTABLISHED \<and> sk_state x \<noteq> TCP_CLOSE_WAIT \<and> sock_type x = SOCK_STREAM then Inr s
        else if queue_present x ReadQ then (if read_sockets_queue_len s = 0 then Inl Exit else Inr s)
        else cbind (queue_insert ReadQ q (sock_hold q s)) (\<lambda>s1.
             Inr (s1 \<lparr> read_sockets_queue_len := read_sockets_queue_len s1 + 1 \<rparr>)))"

definition app_glue_sock_write_space ::
  "'z glue_env_scheme net_stack \<Rightarrow> nat option \<Rightarrow> 'z glue_env_scheme \<Rightarrow> 'z glue_env_scheme c_res" where
  "app_glue_sock_write_space K sk s =
     (case sk of None \<Rightarrow> Inr s
      | Some q \<Rightarrow>
        let x = ksocks s q in
        if sk_state x \<noteq> TCP_ESTABLISHED \<and> sock_type x = SOCK_STREAM then Inr s
        else if \<not> sk_stream_is_writeable K q s then Inr s
        else let s1 = upd_ksock q (\<lambda>x. x \<lparr> sock_nospace := False \<rparr>) s in
             if queue_present x WriteQ then Inr s1
             else cbind (queue_insert WriteQ q (sock_hold q s1)) (\<lambda>s2.
                  Inr (s2 \<lparr> write_sockets_queue_len := write_sockets_queue_len s2 + 1 \<rparr>)))"

definition app_glue_sock_error_report :: "nat option \<Rightarrow> 'z glue_env_scheme \<Rightarrow> 'z glue_env_scheme c_res" where
  "app_glue_sock_error_report sk s =
     (case sk of None \<Rightarrow> Inr s
      | Some q \<Rightarrow>
        if queue_present (ksocks s q) ClosedQ then Inr s
        else queue_insert ClosedQ q (sock_hold q s))"

definition set_glue_callbacks :: "nat \<Rightarrow> 'z glue_env_scheme \<Rightarrow> 'z glue_env_scheme" where
  "set_glue_callbacks q = upd_ksock q (\<lambda>x. x \<lparr> use_write_queue := False, sk_data_ready := app_glue,
     sk_write_space := app_glue, sk_error_report := app_glue \<rparr>)"

text \<open>A listener that is already queued ends the function; the other ways set the callbacks.\<close>

definition app_glue_sock_wakeup ::
  "'z glue_env_scheme net_stack \<Rightarrow> nat \<Rightarrow> 'z glue_env_scheme \<Rightarrow> 'z glue_env_scheme c_res" where
  "app_glue_sock_wakeup K q s =
     (let x = ksocks s q; finish = (\<lambda>s. Inr (set_glue_callbacks q s)) in
      case (inet_lookup_listener K q s, sk_state x = TCP_ESTABLISHED) of
        (Some l, True) \<Rightarrow>
          if queue_present (ksocks s l) AcceptQ then Inr s
          else cbind (queue_insert AcceptQ l (sock_hold l s)) finish
      | _ \<Rightarrow>
          if sk_state x = TCP_ESTABLISHED \<and> sock_type x = SOCK_STREAM then
            (case sk_user_data x of None \<Rightarrow> finish s
             | Some k \<Rightarrow> cbind (sock_idx (sat_ringset_idx (satelites s k))) (\<lambda>i.
                 finish (upd_sock i (\<lambda>y. y \<lparr> connect_close_signal := 2 \<rparr>) s)))
          else if sk_state x = TCP_CLOSE_WAIT \<or> sk_state x = TCP_CLOSE then
            if queue_present x ClosedQ then Inr s
            else cbind (queue_insert ClosedQ q (sock_hold q s)) finish
          else cbind (app_glue_sock_write_space K (Some q) s) finish)"

section \<open>Sockets of the network stack\<close>

text \<open>The timeouts \<open>{-1, 0}\<close> in memory, as the two option calls pass them.\<close>

definition notimeout_bytes :: "u8 list" where
  "notimeout_bytes = replicate 8 255 @ replicate 8 0"

definition app_glue_create_socket ::
  "'z glue_env_scheme net_stack \<Rightarrow> int \<Rightarrow> int \<Rightarrow> 'z glue_env_scheme \<Rightarrow> (nat option \<times> 'z glue_env_scheme) c_res" where
  "app_glue_create_socket K fam ty s =
     (case sock_create_kern K fam ty s of
        (None, s1) \<Rightarrow> Inr (None, s1)
      | (Some q, s1) \<Rightarrow>
          let s2 = sock_setsockopt K q SOL_SOCKET SO_SNDTIMEO 16 notimeout_bytes
                     (sock_setsockopt K q SOL_SOCKET SO_RCVTIMEO 16 notimeout_bytes s1) in
          if ty \<noteq> SOCK_STREAM \<and> has_sk (ksocks s2 q)
          then cbind (app_glue_sock_write_space K (Some q) (upd_ksock q (\<lambda>x. x \<lparr> use_write_queue := False,
                 sk_data_ready := app_glue, sk_write_space := app_glue \<rparr>) s2)) (\<lambda>s3. Inr (Some q, s3))
          else Inr (Some q, s2))"

definition app_glue_v4_bind ::
  "'z glue_env_scheme net_stack \<Rightarrow> nat \<Rightarrow> u32 \<Rightarrow> u16 \<Rightarrow> 'z glue_env_scheme \<Rightarrow> int \<times> 'z glue_env_scheme" where
  "app_glue_v4_bind K q ip port s = kernel_bind K q ip port s"

text \<open>Binding to random ports until one is free; \<open>ports n\<close> is the port drawn in round \<open>n\<close>.\<close>

partial_function (option) bind_random ::
  "'z glue_env_scheme net_stack \<Rightarrow> (nat \<Rightarrow> u16) \<Rightarrow> nat \<Rightarrow> nat \<Rightarrow> 'z glue_env_scheme \<Rightarrow> 'z glue_env_scheme option" where
  "bind_random K ports n q s =
     (if inet_num K q s \<noteq> 0 then Some s
      else case kernel_bind K q 0 (ports n) s of (rc, s1) \<Rightarrow>
        if rc \<noteq> 0 then bind_random K ports (Suc n) q s1 else Some s1)"

definition note_connect :: "nat \<Rightarrow> int \<Rightarrow> 'z glue_env_scheme \<Rightarrow> 'z glue_env_scheme c_res" where
  "note_connect q rv s =
     (case sk_user_data (ksocks s q) of None \<Rightarrow> Inl BadPointer
      | Some k \<Rightarrow> cbind (sock_idx (sat_ringset_idx (satelites s k))) (\<lambda>i.
          Inr (upd_sock i (\<lambda>y. y \<lparr> connect_close_signal := (if rv = - EINPROGRESS then 1 else if rv = 0 then 2 else 4) \<rparr>) s)))"

definition app_glue_v4_connect ::
  "'z glue_env_scheme net_stack \<Rightarrow> (nat \<Rightarrow> u16) \<Rightarrow> nat \<Rightarrow> u32 \<Rightarrow> u16 \<Rightarrow> 'z glue_env_scheme \<Rightarrow> (int \<times> 'z glue_env_scheme) c_res" where
  "app_glue_v4_connect K ports q ip port s =
     (if \<not> has_sk (ksocks s q) then Inr (- 1, s)
      else cbind (loop_res (bind_random K ports 0 q s)) (\<lambda>s1.
           let s2 = (if has_sk (ksocks s1 q) then upd_ksock q (\<lambda>x. x \<lparr> sk_state_change := app_glue \<rparr>) s1 else s1) in
           case kernel_connect K q ip port s2 of (rv, s3) \<Rightarrow>
             cbind (need_sk q s3) (\<lambda>s3. cbind (note_connect q rv s3) (\<lambda>s4. Inr (rv, s4)))))"

definition app_glue_v4_listen ::
  "'z glue_env_scheme net_stack \<Rightarrow> nat \<Rightarrow> u32 \<Rightarrow> 'z glue_env_scheme \<Rightarrow> (int \<times> 'z glue_env_scheme) c_res" where
  "app_glue_v4_listen K q backlog s =
     (if \<not> has_sk (ksocks s q) then Inl Exit
      else case kernel_listen K q backlog (upd_ksock q (\<lambda>x. x \<lparr> sk_state_change := app_glue \<rparr>) s) of
             (rc, s1) \<Rightarrow> Inr (if rc \<noteq> 0 then - 1 else 0, s1))"

definition app_glue_set_user_data :: "nat \<Rightarrow> nat option \<Rightarrow> 'z glue_env_scheme \<Rightarrow> 'z glue_env_scheme c_res" where
  "app_glue_set_user_data q d s =
     cbind (need_sk q s) (\<lambda>s. Inr (upd_ksock q (\<lambda>x. x \<lparr> sk_user_data := d \<rparr>) s))"

definition get_user_data :: "nat \<Rightarrow> 'z glue_env_scheme \<Rightarrow> nat option" where
  "get_user_data q s = (if has_sk (ksocks s q) then sk_user_data (ksocks s q) else None)"

text \<open>Connections that wait on a listener are closed with it.\<close>

partial_function (option) close_pending ::
  "'z glue_env_scheme net_stack \<Rightarrow> nat \<Rightarrow> 'z glue_env_scheme \<Rightarrow> 'z glue_env_scheme option" where
  "close_pending K q s =
     (case kernel_accept K q s of (None, s1) \<Rightarrow> Some s1
      | (Some (n, _, _), s1) \<Rightarrow> close_pending K q (kernel_close K n s1))"

definition leave_read :: "nat \<Rightarrow> 'z glue_env_scheme \<Rightarrow> 'z glue_env_scheme c_res" where
  "leave_read q s =
     (if \<not> queue_present (ksocks s q) ReadQ then Inr s
      else cbind (queue_remove ReadQ q s) (\<lambda>s1.
           Inr (s1 \<lparr> read_sockets_queue_len := read_sockets_queue_len s1 - 1 \<rparr>)))"

definition leave_write ::
  "'z glue_env_scheme net_stack \<Rightarrow> nat \<Rightarrow> 'z glue_env_scheme \<Rightarrow> 'z glue_env_scheme c_res" where
  "leave_write K q s =
     (if \<not> queue_present (ksocks s q) WriteQ then Inr s
      else cbind (queue_remove WriteQ q s) (\<lambda>s1. cbind (sock_put K q s1) (\<lambda>s2.
           Inr (s2 \<lparr> write_sockets_queue_len := write_sockets_queue_len s2 - 1 \<rparr>))))"

definition leave_accept ::
  "'z glue_env_scheme net_stack \<Rightarrow> nat \<Rightarrow> 'z glue_env_scheme \<Rightarrow> 'z glue_env_scheme c_res" where
  "leave_accept K q s =
     (if \<not> queue_present (ksocks s q) AcceptQ then Inr s
      else cbind (loop_res (close_pending K q s)) (\<lambda>s1. cbind (queue_remove AcceptQ q s1) (sock_put K q)))"

definition leave_closed :: "nat \<Rightarrow> 'z glue_env_scheme \<Rightarrow> 'z glue_env_scheme c_res" where
  "leave_closed q s =
     (if \<not> queue_present (ksocks s q) ClosedQ then Inr s
      else queue_remove ClosedQ q s)"

definition reset_callbacks :: "nat \<Rightarrow> 'z glue_env_scheme \<Rightarrow> 'z glue_env_scheme" where
  "reset_callbacks q s =
     (if has_sk (ksocks s q)
      then upd_ksock q (\<lambda>x. x \<lparr> sk_user_data := None,
             sk_write_space := (if sock_type x = SOCK_STREAM then sk_stream else sock_def),
             sk_state_change := sock_def, sk_data_ready := sock_def, sk_error_report := sock_def \<rparr>) s
      else s)"

definition app_glue_close_socket ::
  "'z glue_env_scheme net_stack \<Rightarrow> nat \<Rightarrow> 'z glue_env_scheme \<Rightarrow> 'z glue_env_scheme c_res" where
  "app_glue_close_socket K q s =
     cbind (leave_read q s) (\<lambda>s1. cbind (leave_write K q s1) (\<lambda>s2. cbind (leave_accept K q s2) (\<lambda>s3.
     cbind (leave_closed q s3) (\<lambda>s4. Inr (kernel_close K q (reset_callbacks q s4))))))"

section \<open>Rings of the application\<close>

definition rte_ring_sp_enqueue :: "'a rte_ring \<Rightarrow> 'a \<Rightarrow> int \<times> 'a rte_ring" where
  "rte_ring_sp_enqueue r x = sp_do_enqueue r [x] 1 RTE_RING_QUEUE_FIXED"

definition rte_ring_sc_dequeue :: "'a rte_ring \<Rightarrow> 'a \<Rightarrow> int \<times> 'a \<times> 'a rte_ring" where
  "rte_ring_sc_dequeue r p =
     (case sc_do_dequeue r [p] 1 RTE_RING_QUEUE_FIXED of (ret, tab, r1) \<Rightarrow> (ret, hd tab, r1))"

definition light_get_free_command_buf :: "'z glue_env_scheme \<Rightarrow> addr option \<times> 'z glue_env_scheme" where
  "light_get_free_command_buf s = light_get_free_command_buf_by_proc_id (my_proc_id s) s"

definition light_free_command_buf :: "addr \<Rightarrow> 'z glue_env_scheme \<Rightarrow> 'z glue_env_scheme" where
  "light_free_command_buf c s = light_free_command_buf_by_proc_id c (my_proc_id s) s"

text \<open>Announcing an accepted connection on the receive ring of the listener.\<close>

definition light_post_accepted :: "addr \<Rightarrow> nat \<Rightarrow> 'z glue_env_scheme \<Rightarrow> 'z glue_env_scheme c_res" where
  "light_post_accepted c k s =
     (case rte_ring_sp_enqueue (rx_ring (descs s k)) c of (rc, rg) \<Rightarrow>
        if rc = - ENOBUFS then Inr (light_free_command_buf c s)
        else light_mark_readable (sat_ringset_idx (satelites s k)) (upd_desc k (\<lambda>d. d \<lparr> rx_ring := rg \<rparr>) s))"

definition light_dequeue_tx_buf :: "nat \<Rightarrow> 'z glue_env_scheme \<Rightarrow> addr option \<times> 'z glue_env_scheme" where
  "light_dequeue_tx_buf k s =
     (case rte_ring_sc_dequeue (tx_ring (descs s k)) 0 of (ret, m, rg) \<Rightarrow>
        if ret \<noteq> 0 then (None, s) else (Some m, upd_desc k (\<lambda>d. d \<lparr> tx_ring := rg \<rparr>) s))"

definition light_dequeue_tx_buf_burst :: "nat \<Rightarrow> u32 \<Rightarrow> 'z glue_env_scheme \<Rightarrow> addr list \<times> 'z glue_env_scheme" where
  "light_dequeue_tx_buf_burst k n s =
     (case sc_do_dequeue (tx_ring (descs s k)) (replicate (unat n) 0) n RTE_RING_QUEUE_VARIABLE of (ret, tab, rg) \<Rightarrow>
        (take (nat ret) tab, upd_desc k (\<lambda>d. d \<lparr> tx_ring := rg \<rparr>) s))"

definition light_tx_buf_count :: "nat \<Rightarrow> 'z glue_env_scheme \<Rightarrow> (u32 \<times> 'z glue_env_scheme) c_res" where
  "light_tx_buf_count k s =
     cbind (sock_idx (sat_ringset_idx (satelites s k))) (\<lambda>i.
     Inr (rte_ring_count (tx_ring (descs s k)), upd_sock i (\<lambda>x. x \<lparr> write_done_from_app := 0 \<rparr>) s))"

definition light_rx_buf_free_count :: "nat \<Rightarrow> 'z glue_env_scheme \<Rightarrow> int" where
  "light_rx_buf_free_count k s = sint (rte_ring_free_count (rx_ring (descs s k)))"

definition light_submit_rx_buf :: "addr \<Rightarrow> nat \<Rightarrow> 'z glue_env_scheme \<Rightarrow> (int \<times> 'z glue_env_scheme) c_res" where
  "light_submit_rx_buf m k s =
     (case rte_ring_sp_enqueue (rx_ring (descs s k)) m of (rc, rg) \<Rightarrow>
        if rc = 0
        then cbind (light_mark_readable (sat_ringset_idx (satelites s k)) (upd_desc k (\<lambda>d. d \<lparr> rx_ring := rg \<rparr>) s))
               (\<lambda>s1. Inr (rc, s1))
        else Inr (rc, s))"

definition light_free_socket :: "nat \<Rightarrow> 'z glue_env_scheme \<Rightarrow> 'z glue_env_scheme" where
  "light_free_socket i s = put_connection i s"

section \<open>Callbacks towards the application\<close>

text \<open>
  Accepting while the receive ring of the listener has room; without a command buffer the new
  connection is accepted and forgotten, and the count of free entries stays.
\<close>

partial_function (option) accept_loop ::
  "'z glue_env_scheme net_stack \<Rightarrow> nat \<Rightarrow> int \<Rightarrow> 'z glue_env_scheme \<Rightarrow> (int \<times> 'z glue_env_scheme) c_res option" where
  "accept_loop K q ringfree s =
     (if ringfree \<le> 0 then Some (Inr (if ringfree = 0 then - 2 else 0, s))
      else case kernel_accept K q s of
        (None, s1) \<Rightarrow> Some (Inr (0, s1))
      | (Some (n, ip, port), s1) \<Rightarrow>
          (case light_get_free_command_buf s1 of
             (None, s2) \<Rightarrow> accept_loop K q ringfree (set_glue_callbacks n s2)
           | (Some c, s2) \<Rightarrow>
               (case get_user_data q s2 of None \<Rightarrow> Some (Inl BadPointer)
                | Some k \<Rightarrow>
                  (case cbind (app_glue_set_user_data n None (write_cmd c (\<lambda>x. x \<lparr> cmd := LIGHT_SOCKET_ACCEPTED_COMMAND,
                            u := accepted_socket n ip port \<rparr>) s2)) (light_post_accepted c k) of
                     Inl e \<Rightarrow> Some (Inl e)
                   | Inr s3 \<Rightarrow> accept_loop K q (ringfree - 1) (set_glue_callbacks n s3)))))"

definition user_on_accept ::
  "'z glue_env_scheme net_stack \<Rightarrow> nat \<Rightarrow> 'z glue_env_scheme \<Rightarrow> (int \<times> 'z glue_env_scheme) c_res" where
  "user_on_accept K q s =
     (case get_user_data q s of None \<Rightarrow> Inr (- 1, s)
      | Some k \<Rightarrow> cbind (loop_res (accept_loop K q (light_rx_buf_free_count k s) s)) (\<lambda>r. r))"

text \<open>Sending: pages while the stream has room, or one datagram per buffer of the ring.\<close>

partial_function (option) send_pages ::
  "'z glue_env_scheme net_stack \<Rightarrow> nat \<Rightarrow> 'z glue_env_scheme \<Rightarrow> 'z glue_env_scheme option" where
  "send_pages K q s =
     (if sk_stream_wspace K q s > 0
      then case kernel_sendpage K q (sk_stream_wspace K q s) s of (i, s1) \<Rightarrow>
             if i \<le> 0 then Some s1 else send_pages K q s1
      else Some s)"

fun free_all :: "addr list \<Rightarrow> 'z app_env_scheme \<Rightarrow> 'z app_env_scheme c_res" where
  "free_all [] s = Inr s"
| "free_all (m # ms) s = cbind (loop_res (rte_pktmbuf_free (Some m) s)) (free_all ms)"

fun send_dgrams ::
  "'z glue_env_scheme net_stack \<Rightarrow> nat \<Rightarrow> bool \<Rightarrow> addr list \<Rightarrow> 'z glue_env_scheme \<Rightarrow> (bool \<times> 'z glue_env_scheme) c_res" where
  "send_dgrams K q named [] s = Inr (False, s)"
| "send_dgrams K q named (m # ms) s =
     (case udp_sendmsg K q named m s of (rc, s1) \<Rightarrow>
        if rc > 0 then send_dgrams K q named ms s1
        else cbind (free_all (m # ms) s1) (\<lambda>s2. Inr (True, s2)))"

partial_function (option) dgram_loop ::
  "'z glue_env_scheme net_stack \<Rightarrow> nat \<Rightarrow> nat \<Rightarrow> 'z glue_env_scheme \<Rightarrow> (bool \<times> 'z glue_env_scheme) c_res option" where
  "dgram_loop K q k s =
     (case light_tx_buf_count k s of Inl e \<Rightarrow> Some (Inl e)
      | Inr (n, s1) \<Rightarrow>
        if n = 0 then Some (Inr (False, s1))
        else case light_dequeue_tx_buf_burst k n s1 of (ms, s2) \<Rightarrow>
          (case send_dgrams K q (sk_state (ksocks s2 q) \<noteq> TCP_ESTABLISHED) ms s2 of Inl e \<Rightarrow> Some (Inl e)
           | Inr (exhausted, s3) \<Rightarrow>
             if ms \<noteq> [] \<and> \<not> exhausted then dgram_loop K q k s3 else Some (Inr (exhausted, s3))))"

definition user_on_transmission_opportunity ::
  "'z glue_env_scheme net_stack \<Rightarrow> nat \<Rightarrow> 'z glue_env_scheme \<Rightarrow> 'z glue_env_scheme c_res" where
  "user_on_transmission_opportunity K q s =
     (case get_user_data q s of None \<Rightarrow> Inr s
      | Some k \<Rightarrow>
        let x = ksocks s q in
        if sk_state x = TCP_LISTEN then Inl Exit
        else if sock_type x = SOCK_STREAM then
          cbind (light_tx_buf_count k s) (\<lambda>(n, s1). if n = 0 then Inr s1 else loop_res (send_pages K q s1))
        else if sock_type x = SOCK_DGRAM \<or> sock_type x = SOCK_RAW then
          cbind (loop_res (dgram_loop K q k s)) (\<lambda>r. cbind r (\<lambda>(exhausted, s1).
            if exhausted then Inr s1
            else cbind (light_mark_writable (sat_ringset_idx (satelites s1 k)) s1) (\<lambda>(_, s2). Inr s2)))
        else Inr s)"

text \<open>The address of the sender is stored in front of the data.\<close>

definition store_before :: "addr \<Rightarrow> u8 list \<Rightarrow> 'z app_env_scheme \<Rightarrow> 'z app_env_scheme c_res" where
  "store_before a d s =
     (let off = data_off (mbufs s a); n = length d in
      if n \<le> off \<and> off \<le> length (buf (mbufs s a))
      then Inr (upd_mbuf a (\<lambda>m. m \<lparr> buf := take (off - n) (buf m) @ d @ drop off (buf m) \<rparr>) s)
      else Inl OutOfBounds)"

text \<open>
  Receiving.  The statement that counts the free entries down is the body of the test for a missing
  buffer, so the count only changes in front of the access through the NULL pointer.
\<close>

partial_function (option) recv_loop ::
  "'z glue_env_scheme net_stack \<Rightarrow> nat \<Rightarrow> nat \<Rightarrow> int \<Rightarrow> 'z glue_env_scheme \<Rightarrow> 'z glue_env_scheme c_res option" where
  "recv_loop K q k ring_free s =
     (if ring_free \<le> 0 then Some (Inr s)
      else case kernel_recvmsg K q s of
        (None, s1) \<Rightarrow> Some (Inr s1)
      | (Some (None, _), s1) \<Rightarrow> Some (Inl BadPointer)
      | (Some (Some m, peer), s1) \<Rightarrow>
          (case (if sock_type (ksocks s1 q) = SOCK_DGRAM \<or> sock_type (ksocks s1 q) = SOCK_RAW
                 then store_before m peer s1 else Inr s1) of
             Inl e \<Rightarrow> Some (Inl e)
           | Inr s2 \<Rightarrow>
             (case light_submit_rx_buf m k s2 of Inl e \<Rightarrow> Some (Inl e)
              | Inr (rc, s3) \<Rightarrow>
                if rc \<noteq> 0
                then Some (loop_res (rte_pktmbuf_free (Some m) s3))
                else recv_loop K q k ring_free s3)))"

definition user_data_available_cbk ::
  "'z glue_env_scheme net_stack \<Rightarrow> nat \<Rightarrow> 'z glue_env_scheme \<Rightarrow> 'z glue_env_scheme c_res" where
  "user_data_available_cbk K q s =
     (case get_user_data q s of None \<Rightarrow> Inr s
      | Some k \<Rightarrow>
        if sk_state (ksocks s q) = TCP_LISTEN then Inl Exit
        else cbind (loop_res (recv_loop K q k (light_rx_buf_free_count k s) s)) (\<lambda>r. r))"

definition user_on_closure :: "nat \<Rightarrow> int \<Rightarrow> 'z glue_env_scheme \<Rightarrow> 'z glue_env_scheme c_res" where
  "user_on_closure q num s =
     (case get_user_data q s of None \<Rightarrow> Inr s
      | Some k \<Rightarrow> light_mark_closed (sat_ringset_idx (satelites s k)) num s)"

definition user_on_socket_fatal :: "nat \<Rightarrow> 'z glue_env_scheme \<Rightarrow> 'z glue_env_scheme c_res" where
  "user_on_socket_fatal q s =
     cbind (need_sk q s) (\<lambda>s. user_on_closure q (if sk_state (ksocks s q) = TCP_CLOSE_WAIT then 3 else 4) s)"

partial_function (option) flush_tx_ring :: "nat \<Rightarrow> 'z glue_env_scheme \<Rightarrow> 'z glue_env_scheme option" where
  "flush_tx_ring k s =
     (case light_dequeue_tx_buf k s of (None, s1) \<Rightarrow> Some s1
      | (Some m, s1) \<Rightarrow>
        (case rte_pktmbuf_free (Some m) s1 of None \<Rightarrow> None | Some s2 \<Rightarrow> flush_tx_ring k s2))"

definition user_flush_tx :: "nat \<Rightarrow> 'z glue_env_scheme \<Rightarrow> 'z glue_env_scheme c_res" where
  "user_flush_tx q s =
     (case get_user_data q s of None \<Rightarrow> Inr s | Some k \<Rightarrow> loop_res (flush_tx_ring k s))"

text \<open>The loop over the receive ring is the one of \<open>light_flush_rx\<close>.\<close>

definition user_flush_rx :: "nat \<Rightarrow> 'z glue_env_scheme \<Rightarrow> 'z glue_env_scheme c_res" where
  "user_flush_rx q s =
     (case get_user_data q s of None \<Rightarrow> Inr s | Some k \<Rightarrow> loop_res (flush_cache k s))"

definition user_flush_rx_tx :: "nat \<Rightarrow> 'z glue_env_scheme \<Rightarrow> 'z glue_env_scheme c_res" where
  "user_flush_rx_tx q s = cbind (user_flush_rx q s) (user_flush_tx q)"

definition user_transmitted_callback ::
  "addr \<Rightarrow> nat option \<Rightarrow> 'z glue_env_scheme \<Rightarrow> 'z glue_env_scheme c_res" where
  "user_transmitted_callback m sock s =
     cbind (case sock of None \<Rightarrow> Inr s
            | Some q \<Rightarrow> (case get_user_data q s of None \<Rightarrow> Inr s
                | Some k \<Rightarrow> cbind (sock_idx (sat_ringset_idx (satelites s k))) (\<lambda>i.
                    Inr (user_increment_socket_tx_space i (int (data_len (mbufs s m))) s)))) (\<lambda>s1.
     Inr (free_mbuf m s1))"

section \<open>Serving the queues\<close>

abbreviation first_ready :: "ready_queue \<Rightarrow> 'z glue_env_scheme \<Rightarrow> nat option" where
  "first_ready w s \<equiv> tqh_first (ready_lists s w) 0"

definition serve_closed ::
  "'z glue_env_scheme net_stack \<Rightarrow> nat \<Rightarrow> 'z glue_env_scheme \<Rightarrow> 'z glue_env_scheme c_res" where
  "serve_closed K q s =
     cbind (user_on_socket_fatal q s) (\<lambda>s1. cbind (queue_remove ClosedQ q s1) (\<lambda>s2.
     cbind (sock_put K q s2) (\<lambda>s3. Inr (kernel_close K q s3))))"

partial_function (option) closed_loop ::
  "'z glue_env_scheme net_stack \<Rightarrow> 'z glue_env_scheme \<Rightarrow> 'z glue_env_scheme c_res option" where
  "closed_loop K s =
     (case first_ready ClosedQ s of None \<Rightarrow> Some (Inr s)
      | Some q \<Rightarrow> (case serve_closed K q s of Inl e \<Rightarrow> Some (Inl e) | Inr s1 \<Rightarrow> closed_loop K s1))"

text \<open>A listener stays queued while connections are left that did not fit into its ring.\<close>

definition serve_listener ::
  "'z glue_env_scheme net_stack \<Rightarrow> nat \<Rightarrow> 'z glue_env_scheme \<Rightarrow> 'z glue_env_scheme c_res" where
  "serve_listener K q s =
     cbind (user_on_accept K q s) (\<lambda>(ret, s1).
     if ret = - 2 then Inr s1 else cbind (queue_remove AcceptQ q s1) (sock_put K q))"

partial_function (option) listener_loop ::
  "'z glue_env_scheme net_stack \<Rightarrow> nat option \<Rightarrow> 'z glue_env_scheme \<Rightarrow> 'z glue_env_scheme c_res option" where
  "listener_loop K sock s =
     (case sock of None \<Rightarrow> Some (Inr s)
      | Some q \<Rightarrow>
        let nxt = tqe_next (ready_lists s AcceptQ) q in
        (case serve_listener K q s of Inl e \<Rightarrow> Some (Inl e) | Inr s1 \<Rightarrow> listener_loop K nxt s1))"

definition serve_reader ::
  "'z glue_env_scheme net_stack \<Rightarrow> nat \<Rightarrow> 'z glue_env_scheme \<Rightarrow> 'z glue_env_scheme c_res" where
  "serve_reader K q s =
     cbind (queue_remove ReadQ q s) (\<lambda>s1. cbind (user_data_available_cbk K q s1) (\<lambda>s2. cbind (sock_put K q s2) (\<lambda>s3.
     Inr (s3 \<lparr> read_sockets_queue_len := read_sockets_queue_len s3 - 1 \<rparr>))))"

definition serve_writer ::
  "'z glue_env_scheme net_stack \<Rightarrow> nat \<Rightarrow> 'z glue_env_scheme \<Rightarrow> 'z glue_env_scheme c_res" where
  "serve_writer K q s =
     cbind (queue_remove WriteQ q s) (\<lambda>s1. cbind (user_on_transmission_opportunity K q s1) (\<lambda>s2.
     cbind (sock_put K q (upd_ksock q (\<lambda>x. x \<lparr> sock_nospace := True \<rparr>) s2)) (\<lambda>s3.
     Inr (s3 \<lparr> write_sockets_queue_len := write_sockets_queue_len s3 - 1 \<rparr>))))"

text \<open>At most as many sockets as were queued in the beginning.\<close>

fun serve_upto ::
  "(nat \<Rightarrow> 'z glue_env_scheme \<Rightarrow> 'z glue_env_scheme c_res) \<Rightarrow> ready_queue \<Rightarrow> nat \<Rightarrow> 'z glue_env_scheme
     \<Rightarrow> 'z glue_env_scheme c_res" where
  "serve_upto f w 0 s = Inr s"
| "serve_upto f w (Suc n) s =
     (case first_ready w s of None \<Rightarrow> Inr s | Some q \<Rightarrow> cbind (f q s) (serve_upto f w n))"

definition process_rx_ready_sockets ::
  "'z glue_env_scheme net_stack \<Rightarrow> 'z glue_env_scheme \<Rightarrow> 'z glue_env_scheme c_res" where
  "process_rx_ready_sockets K s =
     cbind (loop_res (closed_loop K s)) (\<lambda>r. cbind r (\<lambda>s1.
     cbind (loop_res (listener_loop K (first_ready AcceptQ s1) s1)) (\<lambda>r. cbind r (\<lambda>s2.
     serve_upto (serve_reader K) ReadQ (unat (read_sockets_queue_len s2)) s2))))"

definition process_tx_ready_sockets ::
  "'z glue_env_scheme net_stack \<Rightarrow> 'z glue_env_scheme \<Rightarrow> 'z glue_env_scheme c_res" where
  "process_tx_ready_sockets K s = serve_upto (serve_writer K) WriteQ (unat (write_sockets_queue_len s)) s"

text \<open>
  One turn of the network stack: \<open>poll\<close> stands for polling the drivers and \<open>timers\<close> for the timers that
  have expired.
\<close>

definition app_glue_periodic ::
  "'z glue_env_scheme net_stack \<Rightarrow> ('z glue_env_scheme \<Rightarrow> 'z glue_env_scheme) \<Rightarrow> ('z glue_env_scheme \<Rightarrow> 'z glue_env_scheme)
     \<Rightarrow> 'z glue_env_scheme \<Rightarrow> 'z glue_env_scheme c_res" where
  "app_glue_periodic K poll timers s =
     cbind (process_tx_ready_sockets K (timers (poll s))) (process_rx_ready_sockets K)"

text \<open>
  The lists \<open>Q\<close> behind the queues: each queue links exactly the sockets whose flag is set, and the two
  counters give the lengths of their queues.
\<close>

definition ready_ok :: "'z glue_env_scheme \<Rightarrow> (ready_queue \<Rightarrow> nat list) \<Rightarrow> bool" where
  "ready_ok s Q \<longleftrightarrow>
     (\<forall>w. tq_list (ready_lists s w) 0 (Q w) \<and> (\<forall>q. queue_present (ksocks s q) w \<longleftrightarrow> q \<in> set (Q w))) \<and>
     read_sockets_queue_len s = of_nat (length (Q ReadQ)) \<and> write_sockets_queue_len s = of_nat (length (Q WriteQ))"

text \<open>Two states with the same queues.\<close>

definition same_queues :: "'z glue_env_scheme \<Rightarrow> 'z glue_env_scheme \<Rightarrow> bool" where
  "same_queues s t \<longleftrightarrow>
     ready_lists t = ready_lists s \<and> (\<forall>q. queue_present (ksocks t q) = queue_present (ksocks s q)) \<and>
     read_sockets_queue_len t = read_sockets_queue_len s \<and> write_sockets_queue_len t = write_sockets_queue_len s"

text \<open>Pointers to sockets are 64-bit addresses other than NULL.\<close>

definition sock_ptr :: "nat \<Rightarrow> bool" where
  "sock_ptr q \<longleftrightarrow> 0 < q \<and> q < 2 ^ 64"

text \<open>
  What the queues rely on of the network stack: closing, freeing and accepting leave them alone, and
  the lookup of a listener gives a socket.
\<close>

definition net_keeps_queues :: "'z glue_env_scheme net_stack \<Rightarrow> bool" where
  "net_keeps_queues K \<longleftrightarrow>
     (\<forall>q s. same_queues s (kernel_close K q s) \<and> same_queues s (sk_free K q s) \<and>
            same_queues s (snd (kernel_accept K q s)) \<and> (\<forall>l. inet_lookup_listener K q s = Some l \<longrightarrow> sock_ptr l))"

text \<open>
  The states the glue reaches: from its initialisation with no socket queued, by callbacks of the
  network stack and by closing sockets.
\<close>

inductive glue_reach :: "'z glue_env_scheme net_stack \<Rightarrow> 'z glue_env_scheme \<Rightarrow> bool" for K where
  init: "\<forall>q w. \<not> queue_present (ksocks s q) w \<Longrightarrow> read_sockets_queue_len s = 0 \<Longrightarrow> write_sockets_queue_len s = 0
     \<Longrightarrow> glue_reach K (app_glue_init (upd_ready NotifyQ (TAILQ_INIT 0) s))"
| readable: "glue_reach K s \<Longrightarrow> sock_ptr q \<Longrightarrow> app_glue_sock_readable (Some q) s = Inr s' \<Longrightarrow> glue_reach K s'"
| write_space: "glue_reach K s \<Longrightarrow> sock_ptr q \<Longrightarrow> app_glue_sock_write_space K (Some q) s = Inr s' \<Longrightarrow> glue_reach K s'"
| error_report: "glue_reach K s \<Longrightarrow> sock_ptr q \<Longrightarrow> app_glue_sock_error_report (Some q) s = Inr s' \<Longrightarrow> glue_reach K s'"
| wakeup: "glue_reach K s \<Longrightarrow> sock_ptr q \<Longrightarrow> app_glue_sock_wakeup K q s = Inr s' \<Longrightarrow> glue_reach K s'"
| closing: "glue_reach K s \<Longrightarrow> sock_ptr q \<Longrightarrow> app_glue_close_socket K q s = Inr s' \<Longrightarrow> glue_reach K s'"

text \<open>Counter of a queue after its length has changed.\<close>

definition recount :: "ready_queue \<Rightarrow> u64 \<Rightarrow> 'z glue_env_scheme \<Rightarrow> 'z glue_env_scheme" where
  "recount w d s =
     (case w of ReadQ \<Rightarrow> s \<lparr> read_sockets_queue_len := read_sockets_queue_len s + d \<rparr>
      | WriteQ \<Rightarrow> s \<lparr> write_sockets_queue_len := write_sockets_queue_len s + d \<rparr> | _ \<Rightarrow> s)"

text \<open>The invariant: some lists of socket pointers are behind the queues.\<close>

definition queues_inv :: "'z glue_env_scheme \<Rightarrow> bool" where
  "queues_inv s \<longleftrightarrow> (\<exists>Q. ready_ok s Q \<and> (\<forall>w. \<forall>q \<in> set (Q w). sock_ptr q))"

text \<open>A network stack that never does anything, and a stack process with one idle stream socket 7, for concrete runs.\<close>

definition idle_net :: "'s net_stack" where
  "idle_net = \<lparr> sock_create_kern = (\<lambda>_ _ s. (None, s)), sock_setsockopt = (\<lambda>_ _ _ _ _ s. s),
     kernel_bind = (\<lambda>_ _ _ s. (0, s)), kernel_connect = (\<lambda>_ _ _ s. (0, s)), kernel_listen = (\<lambda>_ _ s. (0, s)),
     kernel_accept = (\<lambda>_ s. (None, s)), kernel_close = (\<lambda>_ s. s), kernel_sendpage = (\<lambda>_ _ s. (0, s)),
     kernel_recvmsg = (\<lambda>_ s. (None, s)), udp_sendmsg = (\<lambda>_ _ _ s. (0, s)), inet_shutdown = (\<lambda>_ _ s. s),
     inet_getname = (\<lambda>_ _. (0, 0)), inet_num = (\<lambda>_ _. 1), inet_lookup_listener = (\<lambda>_ _. None),
     sk_stream_wspace = (\<lambda>_ _. 1000), sk_stream_is_writeable = (\<lambda>_ _. True), sk_free = (\<lambda>_ s. s) \<rparr>"

definition demo_ksock :: ksocket where
  "demo_ksock = \<lparr> sock_type = SOCK_STREAM, has_sk = True, sk_state = TCP_ESTABLISHED, sk_user_data = Some 3,
     sk_refcnt = 1, sk_data_ready = app_glue, sk_write_space = app_glue, sk_state_change = app_glue,
     sk_error_report = app_glue, use_write_queue = False, sock_nospace = False, queue_present = (\<lambda>_. False) \<rparr>"

definition demo_glue :: "'z \<Rightarrow> 'z glue_env_scheme" where
  "demo_glue z = stack_env.extend demo_stack
     \<lparr> satelites = (\<lambda>_. \<lparr> sat_socket = Some 7, sat_ringset_idx = 3, sat_parent_idx = - 1 \<rparr>),
       ksocks = (\<lambda>_. demo_ksock),
       ready_lists = (\<lambda>_. \<lparr> tqh_first = (\<lambda>_. None), tqh_last = TqHead, tqe_next = (\<lambda>_. None), tqe_prev = (\<lambda>_. TqNull) \<rparr>),
       read_sockets_queue_len = 0, write_sockets_queue_len = 0, \<dots> = z \<rparr>"

text \<open>Announcing an event changes the records of the epoll objects only.\<close>

definition ev_frame :: "'z stack_env_scheme \<Rightarrow> 'z stack_env_scheme \<Rightarrow> bool" where
  "ev_frame s t \<longleftrightarrow> (\<exists>rr mp ei eo fw en. t = s \<lparr> enodes := en, epoll_objs := eo, free_event_info_pool := mp,
     event_infos := ei, fifo_writes := fw, round_robin_counter := rr \<rparr>)"

text \<open>
  An event for socket \<open>k\<close> can be announced without a fault: the socket is in range and not shared by
  several stack processes, and every epoll object it is registered with exists and has the fifo of
  this process.
\<close>

definition mark_safe :: "'z stack_env_scheme \<Rightarrow> nat \<Rightarrow> bool" where
  "mark_safe s k \<longleftrightarrow> k < 2048 \<and> is_multicore (socks s k) = 0 \<and>
     (\<forall>o' \<in> set (epoll_node_list (socks s k)).
        0 \<le> node_epoll_idx (enodes s o') \<and> node_epoll_idx (enodes s o') < LIGHT_EPOLL_POOL_SIZE \<and>
        my_proc_id s < length (fifo_write_fds (epoll_objs s (nat (node_epoll_idx (enodes s o'))))))"

text \<open>
  What receiving relies on of the network stack: the chains \<open>pend\<close> that wait at socket \<open>q\<close>, a part of the
  state of the network stack, are handed over one by one, oldest first, and nothing else changes.
\<close>

definition net_delivers :: "'z glue_env_scheme net_stack \<Rightarrow> nat \<Rightarrow> ('z \<Rightarrow> addr list) \<Rightarrow> bool" where
  "net_delivers K q pend \<longleftrightarrow>
     (\<forall>s. case pend (glue_env.more s) of
            [] \<Rightarrow> kernel_recvmsg K q s = (None, s)
          | m # ms \<Rightarrow> \<exists>z. pend z = ms \<and> kernel_recvmsg K q s = (Some (Some m, []), glue_env.more_update (\<lambda>_. z) s))"

text \<open>The receive ring of descriptor \<open>k\<close> and the network stack have changed, apart from the events.\<close>

definition rx_moved :: "nat \<Rightarrow> addr rte_ring \<Rightarrow> 'z \<Rightarrow> 'z glue_env_scheme \<Rightarrow> 'z glue_env_scheme \<Rightarrow> bool" where
  "rx_moved k rg z s t \<longleftrightarrow> ev_frame (glue_env.more_update (\<lambda>_. z) (upd_desc k (\<lambda>d. d \<lparr> rx_ring := rg \<rparr>) s)) t"

text \<open>A stream socket \<open>q\<close> of the network stack that serves descriptor \<open>k\<close>.\<close>

definition serves :: "'z glue_env_scheme \<Rightarrow> nat \<Rightarrow> nat \<Rightarrow> bool" where
  "serves s q k \<longleftrightarrow> get_user_data q s = Some k \<and> sk_state (ksocks s q) \<noteq> TCP_LISTEN \<and>
     sock_type (ksocks s q) = SOCK_STREAM \<and> sat_ringset_idx (satelites s k) = int k \<and> mark_safe s k"

text \<open>Chains \<open>cs\<close> that arrive for a descriptor: live buffers that are not in use there yet.\<close>

definition arriving :: "'z app_env_scheme \<Rightarrow> nat \<Rightarrow> addr list \<Rightarrow> addr list list \<Rightarrow> addr list list \<Rightarrow> bool" where
  "arriving s k sh rcs cs \<longleftrightarrow> (\<forall>c \<in> set cs. c \<noteq> [] \<and> chain (mbufs s) (Some (hd c)) c) \<and>
     distinct (shadow_addrs (descs s k) sh @ concat rcs @ concat cs) \<and> (\<forall>a \<in> set (concat cs). live_seg (mbufs s a))"

text \<open>A network stack whose state is the list of chains that wait at every socket.\<close>

definition pending_net :: "addr list glue_env_scheme net_stack" where
  "pending_net = idle_net \<lparr> kernel_recvmsg := (\<lambda>_ s. case glue_env.more s of [] \<Rightarrow> (None, s)
     | m # ms \<Rightarrow> (Some (Some m, []), glue_env.more_update (\<lambda>_. ms) s)) \<rparr>"

text \<open>The calls for an application that serves the queues itself; each hands out the user data of the first socket.\<close>

definition app_glue_get_next_closed :: "'z glue_env_scheme \<Rightarrow> (nat option \<times> 'z glue_env_scheme) c_res" where
  "app_glue_get_next_closed s =
     (case first_ready ClosedQ s of None \<Rightarrow> Inr (None, s)
      | Some q \<Rightarrow> cbind (queue_remove ClosedQ q s) (\<lambda>s1.
          if has_sk (ksocks s1 q) then Inr (sk_user_data (ksocks s1 q), s1) else Inl NoValue))"

definition app_glue_get_next_writer ::
  "'z glue_env_scheme net_stack \<Rightarrow> 'z glue_env_scheme \<Rightarrow> (nat option \<times> 'z glue_env_scheme) c_res" where
  "app_glue_get_next_writer K s =
     (case first_ready WriteQ s of None \<Rightarrow> Inr (None, s)
      | Some q \<Rightarrow> cbind (queue_remove WriteQ q s) (\<lambda>s1. cbind (sock_put K q s1) (\<lambda>s2.
          Inr (if has_sk (ksocks s2 q) then sk_user_data (ksocks s2 q) else None, s2))))"

definition app_glue_get_next_reader :: "'z glue_env_scheme \<Rightarrow> (nat option \<times> 'z glue_env_scheme) c_res" where
  "app_glue_get_next_reader s =
     (case first_ready ReadQ s of None \<Rightarrow> Inr (None, s)
      | Some q \<Rightarrow> cbind (queue_remove ReadQ q s) (\<lambda>s1.
          Inr (if has_sk (ksocks s1 q) then sk_user_data (ksocks s1 q) else None, s1)))"

definition app_glue_get_next_listener ::
  "'z glue_env_scheme net_stack \<Rightarrow> 'z glue_env_scheme \<Rightarrow> (nat option \<times> 'z glue_env_scheme) c_res" where
  "app_glue_get_next_listener K s =
     (case first_ready AcceptQ s of None \<Rightarrow> Inr (None, s)
      | Some q \<Rightarrow> cbind (queue_remove AcceptQ q s) (\<lambda>s1.
          if has_sk (ksocks s1 q)
          then cbind (sock_put K q s1) (\<lambda>s2. cbind (need_sk q s2) (\<lambda>s2. Inr (sk_user_data (ksocks s2 q), s2)))
          else Inr (None, s1)))"

text \<open>
  The callback through which the network stack takes data to send: packets are taken from the transmit
  ring and linked to a chain while at least a packet's worth of \<open>copy\<close> is left.  The third argument
  holds the first and the last buffer of the chain so far.
\<close>

partial_function (option) link_packets ::
  "nat \<Rightarrow> int \<Rightarrow> (addr \<times> addr) option \<Rightarrow> 'z glue_env_scheme \<Rightarrow> (addr option \<times> int \<times> 'z glue_env_scheme) c_res option" where
  "link_packets k copy acc s =
     (if copy < 1448 then Some (Inr (map_option fst acc, copy, s))
      else case light_tx_buf_count k s of Inl e \<Rightarrow> Some (Inl e)
      | Inr (_, s1) \<Rightarrow>
        (case light_dequeue_tx_buf k s1 of
           (None, s2) \<Rightarrow> Some (Inr (map_option fst acc, copy, s2))
         | (Some m, s2) \<Rightarrow>
           (let copy1 = copy - int (data_len (mbufs s2 m)) in
            case acc of None \<Rightarrow> link_packets k copy1 (Some (m, m)) s2
            | Some (f, p) \<Rightarrow> link_packets k copy1 (Some (f, m)) (upd_mbuf p (\<lambda>b. b \<lparr> next_seg := Some m \<rparr>) s2))))"

definition user_get_buffer ::
  "nat option \<Rightarrow> int \<Rightarrow> 'z glue_env_scheme \<Rightarrow> (addr option \<times> int \<times> 'z glue_env_scheme) c_res" where
  "user_get_buffer sk copy s =
     (case sk of None \<Rightarrow> Inr (None, copy, s)
      | Some q \<Rightarrow>
        if copy < 1448 then Inr (None, copy, s)
        else (case sk_user_data (ksocks s q) of None \<Rightarrow> Inl BadPointer
              | Some k \<Rightarrow> cbind (loop_res (link_packets k copy None s)) (\<lambda>r. r)))"

text \<open>How many of the packets of lengths \<open>lens\<close> are taken for \<open>copy\<close> bytes.\<close>

fun taken_for :: "int \<Rightarrow> nat list \<Rightarrow> nat" where
  "taken_for copy [] = 0"
| "taken_for copy (l # ls) = (if copy < 1448 then 0 else Suc (taken_for (copy - int l) ls))"

text \<open>The chain linked so far.\<close>

definition linked :: "(addr \<Rightarrow> rte_mbuf) \<Rightarrow> (addr \<times> addr) option \<Rightarrow> addr list \<Rightarrow> bool" where
  "linked h acc pre \<longleftrightarrow> chain h (map_option fst acc) pre \<and> (\<forall>f p. acc = Some (f, p) \<longrightarrow> pre \<noteq> [] \<and> last pre = p)"

section \<open>Lemmas\<close>

lemma upd_ksock_simps [simp]:
  "ready_lists (upd_ksock q f s) = ready_lists s"
  "ksocks (upd_ksock q f s) = (ksocks s) (q := f (ksocks s q))"
  "read_sockets_queue_len (upd_ksock q f s) = read_sockets_queue_len s"
  "write_sockets_queue_len (upd_ksock q f s) = write_sockets_queue_len s"
  "satelites (upd_ksock q f s) = satelites s"
  by (simp_all add: upd_ksock_def)

lemma upd_ready_simps [simp]:
  "ready_lists (upd_ready w f s) = (ready_lists s) (w := f (ready_lists s w))"
  "ksocks (upd_ready w f s) = ksocks s"
  "read_sockets_queue_len (upd_ready w f s) = read_sockets_queue_len s"
  "write_sockets_queue_len (upd_ready w f s) = write_sockets_queue_len s"
  "satelites (upd_ready w f s) = satelites s"
  by (simp_all add: upd_ready_def)

lemma same_queues_refl [simp]: "same_queues s s"
  by (simp add: same_queues_def)

lemma same_queues_trans: "same_queues s t \<Longrightarrow> same_queues t r \<Longrightarrow> same_queues s r"
  by (simp add: same_queues_def)

lemma same_queues_ksock [simp]:
  "(\<And>x. queue_present (f x) = queue_present x) \<Longrightarrow> same_queues s (upd_ksock q f s)"
  by (simp add: same_queues_def)

lemma same_queues_socks [simp]: "same_queues s (upd_sock i f s)"
  by (simp add: same_queues_def upd_sock_def)

lemma ready_ok_same: "same_queues s t \<Longrightarrow> ready_ok t Q = ready_ok s Q"
  by (simp add: same_queues_def ready_ok_def)

lemma same_queues_hold [simp]: "same_queues s (sock_hold q s)"
  by (simp add: sock_hold_def)

lemma same_queues_callbacks [simp]: "same_queues s (set_glue_callbacks q s)"
  by (simp add: set_glue_callbacks_def)

lemma queue_insert_ok:
  fixes s :: "'z glue_env_scheme"
  assumes ok: "ready_ok s Q" and q: "q \<notin> set (Q w)"
  obtains s1 where "queue_insert w q s = Inr s1" "ready_ok (recount w 1 s1) (Q (w := Q w @ [q]))"
proof -
  have l: "tq_list (ready_lists s w) 0 (Q w)" using ok by (simp add: ready_ok_def)
  obtain l' where l': "TAILQ_INSERT_TAIL 0 q (ready_lists s w) = Inr l'" "tq_list l' 0 (Q w @ [q])"
    using TAILQ_INSERT_TAIL_list [OF l q] by blast
  have "ready_ok (recount w 1 (upd_ready w (\<lambda>_. l') (set_present w q True s))) (Q (w := Q w @ [q]))"
    using ok l'(2) by (cases w) (auto simp: ready_ok_def set_present_def recount_def)
  then show thesis using that l'(1) by (simp add: queue_insert_def)
qed

lemma queue_remove_ok:
  fixes s :: "'z glue_env_scheme"
  assumes ok: "ready_ok s Q" and q: "q \<in> set (Q w)"
  obtains s1 where "queue_remove w q s = Inr s1" "ready_ok (recount w (- 1) s1) (Q (w := remove1 q (Q w)))"
proof -
  obtain as bs where sp: "Q w = as @ q # bs" "q \<notin> set as" using q by (meson split_list_first)
  have l: "tq_list (ready_lists s w) 0 (as @ q # bs)" using ok sp(1) by (metis ready_ok_def)
  then have d: "distinct (as @ q # bs)" by (simp add: tq_list_def)
  obtain l' where l': "TAILQ_REMOVE 0 q (ready_lists s w) = Inr l'" "tq_list l' 0 (as @ bs)"
    using TAILQ_REMOVE_list [OF l] by blast
  have r: "remove1 q (Q w) = as @ bs" using sp d by (simp add: remove1_append)
  have "ready_ok (recount w (- 1) (upd_ready w (\<lambda>_. l') (set_present w q False s))) (Q (w := as @ bs))"
    using ok l'(2) sp d by (cases w) (auto simp: ready_ok_def set_present_def recount_def)
  then show thesis using that l'(1) r by (simp add: queue_remove_def)
qed

lemma queue_length_bound:
  assumes "ready_ok s Q" "\<forall>q \<in> set (Q w). sock_ptr q"
  shows "length (Q w) < 2 ^ 64"
proof -
  have "distinct (Q w)" using assms(1) by (simp add: ready_ok_def tq_list_def)
  then have "length (Q w) = card (set (Q w))" by (simp add: distinct_card)
  also have "\<dots> \<le> card {0 <..< (2 :: nat) ^ 64}"
    by (rule card_mono) (use assms(2) in \<open>auto simp: sock_ptr_def\<close>)
  also have "\<dots> < 2 ^ 64" by simp
  finally show ?thesis .
qed

lemma queues_inv_same: "same_queues s t \<Longrightarrow> queues_inv t = queues_inv s"
  by (simp add: queues_inv_def ready_ok_same)

lemma queue_insert_inv:
  fixes s :: "'z glue_env_scheme"
  assumes inv: "queues_inv s" and q: "\<not> queue_present (ksocks s q) w" "sock_ptr q"
  obtains s1 where "queue_insert w q s = Inr s1" "queues_inv (recount w 1 s1)"
proof -
  obtain Q where Q: "ready_ok s Q" "\<forall>w. \<forall>q \<in> set (Q w). sock_ptr q" using inv by (auto simp: queues_inv_def)
  have "q \<notin> set (Q w)" using Q(1) q(1) by (simp add: ready_ok_def)
  from queue_insert_ok [OF Q(1) this] obtain s1 where
    s1: "queue_insert w q s = Inr s1" "ready_ok (recount w 1 s1) (Q (w := Q w @ [q]))" .
  moreover have "queues_inv (recount w 1 s1)"
    unfolding queues_inv_def by (rule exI [of _ "Q (w := Q w @ [q])"]) (use s1 Q q in auto)
  ultimately show thesis using that by blast
qed

lemma queue_remove_inv:
  fixes s :: "'z glue_env_scheme"
  assumes inv: "queues_inv s" and q: "queue_present (ksocks s q) w"
  obtains s1 where "queue_remove w q s = Inr s1" "queues_inv (recount w (- 1) s1)"
proof -
  obtain Q where Q: "ready_ok s Q" "\<forall>w. \<forall>q \<in> set (Q w). sock_ptr q" using inv by (auto simp: queues_inv_def)
  have "q \<in> set (Q w)" using Q(1) q(1) by (simp add: ready_ok_def)
  from queue_remove_ok [OF Q(1) this] obtain s1 where
    s1: "queue_remove w q s = Inr s1" "ready_ok (recount w (- 1) s1) (Q (w := remove1 q (Q w)))" .
  moreover have "queues_inv (recount w (- 1) s1)"
    unfolding queues_inv_def
    by (rule exI [of _ "Q (w := remove1 q (Q w))"]) (use s1 Q q in \<open>auto dest: notin_set_remove1 in_set_remove1 set_remove1_subset [THEN subsetD]\<close>)
  ultimately show thesis using that by blast
qed

lemma hold_fields [simp]:
  "queue_present (ksocks (sock_hold q s) p) = queue_present (ksocks s p)"
  "queues_inv (sock_hold q s) = queues_inv s"
  by (simp_all add: sock_hold_def queues_inv_same)

lemma readable_inv:
  fixes s :: "'z glue_env_scheme"
  assumes inv: "queues_inv s" and q: "sock_ptr q"
  shows "\<exists>s'. app_glue_sock_readable (Some q) s = Inr s' \<and> queues_inv s'"
proof (cases "queue_present (ksocks s q) ReadQ")
  case True
  obtain Q where Q: "ready_ok s Q" "\<forall>w. \<forall>q \<in> set (Q w). sock_ptr q" using inv by (auto simp: queues_inv_def)
  have "length (Q ReadQ) < 2 ^ 64" using Q(2) by (intro queue_length_bound [OF Q(1)]) simp
  moreover have "q \<in> set (Q ReadQ)" using Q(1) True by (simp add: ready_ok_def)
  then have "length (Q ReadQ) \<noteq> 0" by auto
  ultimately have "unat (of_nat (length (Q ReadQ)) :: u64) \<noteq> 0" by (simp add: unat_of_nat)
  then have "read_sockets_queue_len s \<noteq> 0" using Q(1) by (auto simp: ready_ok_def)
  then show ?thesis using True inv by (auto simp: app_glue_sock_readable_def Let_def)
next
  case False
  then have p: "\<not> queue_present (ksocks (sock_hold q s) q) ReadQ" "queues_inv (sock_hold q s)" using inv by simp_all
  obtain s1 where "queue_insert ReadQ q (sock_hold q s) = Inr s1" "queues_inv (recount ReadQ 1 s1)"
    by (rule queue_insert_inv [OF p(2,1) q])
  then show ?thesis using False inv by (auto simp: app_glue_sock_readable_def Let_def recount_def)
qed

lemma write_space_inv:
  fixes s :: "'z glue_env_scheme"
  assumes inv: "queues_inv s" and q: "sock_ptr q"
  shows "\<exists>s'. app_glue_sock_write_space K (Some q) s = Inr s' \<and> queues_inv s'"
proof -
  let ?s = "upd_ksock q (\<lambda>x. x \<lparr> sock_nospace := False \<rparr>) s"
  have s: "queues_inv ?s" using inv by (simp add: queues_inv_same [OF same_queues_ksock])
  have "\<exists>s1. queue_insert WriteQ q (sock_hold q ?s) = Inr s1 \<and> queues_inv (recount WriteQ 1 s1)"
    if "\<not> queue_present (ksocks s q) WriteQ"
    by (rule queue_insert_inv [of "sock_hold q ?s" q WriteQ]) (use that s q in auto)
  then show ?thesis using inv s by (auto simp: app_glue_sock_write_space_def Let_def recount_def)
qed

lemma error_report_inv:
  fixes s :: "'z glue_env_scheme"
  assumes inv: "queues_inv s" and q: "sock_ptr q"
  shows "\<exists>s'. app_glue_sock_error_report (Some q) s = Inr s' \<and> queues_inv s'"
proof (cases "queue_present (ksocks s q) ClosedQ")
  case False
  obtain s1 where "queue_insert ClosedQ q (sock_hold q s) = Inr s1" "queues_inv (recount ClosedQ 1 s1)"
    by (rule queue_insert_inv [of "sock_hold q s" q ClosedQ]) (use False inv q in auto)
  then show ?thesis using False by (simp add: app_glue_sock_error_report_def recount_def)
qed (use inv in \<open>simp add: app_glue_sock_error_report_def\<close>)

lemma queues_inv_recount: "same_queues s t \<Longrightarrow> queues_inv (recount w d t) = queues_inv (recount w d s)"
  by (intro queues_inv_same) (cases w, auto simp: recount_def same_queues_def)

lemma set_callbacks_inv [simp]: "queues_inv (set_glue_callbacks q s) = queues_inv s"
  by (rule queues_inv_same) simp

lemma upd_sock_inv [simp]: "queues_inv (upd_sock i f s) = queues_inv s"
  by (rule queues_inv_same) simp

lemma hold_insert_inv:
  fixes s :: "'z glue_env_scheme"
  assumes "queues_inv s" "\<not> queue_present (ksocks s q) w" "sock_ptr q" "w \<noteq> ReadQ" "w \<noteq> WriteQ"
    and "queue_insert w q (sock_hold q s) = Inr s1"
  shows "queues_inv s1"
proof -
  obtain t where "queue_insert w q (sock_hold q s) = Inr t" "queues_inv (recount w 1 t)"
    by (rule queue_insert_inv [of "sock_hold q s" q w]) (use assms in auto)
  then show ?thesis using assms(4-6) by (cases w) (simp_all add: recount_def)
qed

lemma wakeup_inv:
  fixes s :: "'z glue_env_scheme"
  assumes K: "net_keeps_queues K" and inv: "queues_inv s" and q: "sock_ptr q"
    and run: "app_glue_sock_wakeup K q s = Inr s'"
  shows "queues_inv s'"
proof -
  have l: "inet_lookup_listener K q s = Some l \<Longrightarrow> sock_ptr l" for l
    using K by (auto simp: net_keeps_queues_def)
  have w: "app_glue_sock_write_space K (Some q) s = Inr t \<Longrightarrow> queues_inv t" for t
    using write_space_inv [OF inv q, of K] by auto
  show ?thesis
    using run inv q l w
    by (auto simp: app_glue_sock_wakeup_def Let_def cbind_Inr_iff split: option.splits if_splits bool.splits
        intro: hold_insert_inv)
qed

lemma sock_put_same:
  assumes K: "net_keeps_queues K" and run: "sock_put K q s = Inr t"
  shows "same_queues s t"
proof -
  let ?s = "upd_ksock q (\<lambda>x. x \<lparr> sk_refcnt := sk_refcnt x - 1 \<rparr>) s"
  have "same_queues s ?s" "same_queues ?s (sk_free K q ?s)" using K by (simp_all add: net_keeps_queues_def)
  then show ?thesis
    using run same_queues_trans [of s ?s] by (auto simp: sock_put_def need_sk_def Let_def split: if_splits)
qed

lemma close_pending_same:
  assumes K: "net_keeps_queues K" and run: "close_pending K q s = Some t"
  shows "same_queues s t"
proof (rule close_pending.raw_induct [where P = "\<lambda>K q s t. net_keeps_queues K \<longrightarrow> same_queues s t", THEN mp, OF _ run K])
  fix f :: "'a glue_env_scheme net_stack \<Rightarrow> nat \<Rightarrow> 'a glue_env_scheme \<Rightarrow> 'a glue_env_scheme option" and K q s t
  assume IH: "\<And>K q s t. f K q s = Some t \<Longrightarrow> net_keeps_queues K \<longrightarrow> same_queues s t"
    and run: "(case kernel_accept K q s of (None, s1) \<Rightarrow> Some s1
      | (Some (n, _, _), s1) \<Rightarrow> f K q (kernel_close K n s1)) = Some t"
  show "net_keeps_queues K \<longrightarrow> same_queues s t"
  proof
    assume K: "net_keeps_queues K"
    have acc: "same_queues s (snd (kernel_accept K q s))" "same_queues r (kernel_close K n r)" for n r
      using K by (auto simp: net_keeps_queues_def)
    show "same_queues s t"
      using run acc(1) acc(2) IH K
      by (auto split: prod.splits option.splits intro: same_queues_trans) (metis same_queues_trans)+
  qed
qed

lemma leave_read_inv: "queues_inv s \<Longrightarrow> leave_read q s = Inr t \<Longrightarrow> queues_inv t"
  by (cases "queue_present (ksocks s q) ReadQ")
    (auto simp: leave_read_def recount_def cbind_Inr_iff elim!: queue_remove_inv [of s q ReadQ])

lemma leave_write_inv:
  assumes "net_keeps_queues K" "queues_inv s" "leave_write K q s = Inr t"
  shows "queues_inv t"
proof (cases "queue_present (ksocks s q) WriteQ")
  case True
  obtain s1 where s1: "queue_remove WriteQ q s = Inr s1" "queues_inv (recount WriteQ (- 1) s1)"
    by (rule queue_remove_inv [OF assms(2) True])
  obtain s2 where s2: "sock_put K q s1 = Inr s2" "t = recount WriteQ (- 1) s2"
    using assms(3) True s1 by (auto simp: leave_write_def cbind_Inr_iff recount_def)
  then show ?thesis using queues_inv_recount [OF sock_put_same [OF assms(1) s2(1)]] s1 by simp
qed (use assms in \<open>simp add: leave_write_def\<close>)

lemma leave_accept_inv:
  assumes K: "net_keeps_queues K" and inv: "queues_inv s" and run: "leave_accept K q s = Inr t"
  shows "queues_inv t"
proof (cases "queue_present (ksocks s q) AcceptQ")
  case True
  obtain s1 where s1: "close_pending K q s = Some s1" "cbind (queue_remove AcceptQ q s1) (sock_put K q) = Inr t"
    using run True by (cases "close_pending K q s") (auto simp: leave_accept_def loop_res_def)
  have same: "same_queues s s1" by (rule close_pending_same [OF K s1(1)])
  have p: "queues_inv s1" "queue_present (ksocks s1 q) AcceptQ"
    using inv True same queues_inv_same [OF same] by (auto simp: same_queues_def)
  obtain s2 where s2: "queue_remove AcceptQ q s1 = Inr s2" "queues_inv (recount AcceptQ (- 1) s2)"
    by (rule queue_remove_inv [OF p])
  then show ?thesis
    using s1(2) queues_inv_same [OF sock_put_same [OF K, of q s2 t]] by (simp add: recount_def)
qed (use run inv in \<open>simp add: leave_accept_def\<close>)

lemma leave_closed_inv: "queues_inv s \<Longrightarrow> leave_closed q s = Inr t \<Longrightarrow> queues_inv t"
  by (cases "queue_present (ksocks s q) ClosedQ")
    (auto simp: leave_closed_def recount_def elim!: queue_remove_inv [of s q ClosedQ])

lemma reset_callbacks_same [simp]: "same_queues s (reset_callbacks q s)"
  by (simp add: reset_callbacks_def)

lemma close_socket_inv:
  assumes K: "net_keeps_queues K" and inv: "queues_inv s" and run: "app_glue_close_socket K q s = Inr t"
  shows "queues_inv t"
proof -
  obtain s1 s2 s3 s4 where st: "leave_read q s = Inr s1" "leave_write K q s1 = Inr s2" "leave_accept K q s2 = Inr s3"
    "leave_closed q s3 = Inr s4" "t = kernel_close K q (reset_callbacks q s4)"
    using run by (auto simp: app_glue_close_socket_def cbind_Inr_iff)
  have "queues_inv s4"
    using st inv leave_read_inv leave_write_inv [OF K] leave_accept_inv [OF K] leave_closed_inv by metis
  moreover have "same_queues s4 t"
    using K st(5) same_queues_trans [of s4 "reset_callbacks q s4" t] by (simp add: net_keeps_queues_def)
  ultimately show ?thesis by (simp add: queues_inv_same)
qed

lemma glue_init_inv:
  fixes s :: "'z glue_env_scheme"
  assumes "\<forall>q w. \<not> queue_present (ksocks s q) w" "read_sockets_queue_len s = 0" "write_sockets_queue_len s = 0"
  shows "queues_inv (app_glue_init (upd_ready NotifyQ (TAILQ_INIT 0) s))"
proof -
  have "tq_list (ready_lists (app_glue_init (upd_ready NotifyQ (TAILQ_INIT 0) s)) w) 0 []" for w
    by (cases w) (simp_all add: app_glue_init_def tq_init_list)
  then have "ready_ok (app_glue_init (upd_ready NotifyQ (TAILQ_INIT 0) s)) (\<lambda>_. [])"
    using assms by (simp add: ready_ok_def app_glue_init_def)
  then show ?thesis by (auto simp: queues_inv_def intro!: exI [of _ "\<lambda>_. []"])
qed

text \<open>C14. The queues of ready sockets stay well formed: in every state that the callbacks of the network
  stack and the closing of sockets can reach, each queue is a correctly linked list of exactly the
  sockets whose flag is set and the counters are the lengths, so that the consistency check of
  \<open>app_glue_sock_readable\<close> never ends the process.\<close>

theorem glue_queues_wellformed:
  assumes reach: "glue_reach K s" and K: "net_keeps_queues K"
  shows "(\<exists>Q. ready_ok s Q) \<and> (\<forall>q. sock_ptr q \<longrightarrow> (\<exists>s'. app_glue_sock_readable (Some q) s = Inr s'))"
proof -
  from reach have "queues_inv s"
  proof induction
    case (init s)
    then show ?case by (rule glue_init_inv)
  next
    case (readable s q s')
    then show ?case using readable_inv [of s q] by auto
  next
    case (write_space s q s')
    then show ?case using write_space_inv [of s q K] by auto
  next
    case (error_report s q s')
    then show ?case using error_report_inv [of s q] by auto
  qed (use K wakeup_inv close_socket_inv in blast)+
  then show ?thesis using readable_inv [of s] unfolding queues_inv_def by blast
qed

lemma demo_glue_simps [simp]:
  "ksocks (demo_glue z) q = demo_ksock" "read_sockets_queue_len (demo_glue z) = 0" "write_sockets_queue_len (demo_glue z) = 0"
  "queue_present demo_ksock w = False" "sock_type demo_ksock = SOCK_STREAM" "sk_state demo_ksock = TCP_ESTABLISHED"
  "has_sk demo_ksock" "sk_user_data demo_ksock = Some 3"
  by (simp_all add: demo_glue_def demo_ksock_def stack_env.defs)

theorem glue_queues_wellformed_witness:
  "\<exists>s s' :: glue_env. app_glue_sock_readable (Some 7) s = Inr s' \<and> (\<exists>Q. ready_ok s' Q)"
proof -
  let ?s = "app_glue_init (upd_ready NotifyQ (TAILQ_INIT 0) (demo_glue ()))"
  have K: "net_keeps_queues (idle_net :: glue_env net_stack)" by (simp add: net_keeps_queues_def idle_net_def)
  have r: "glue_reach idle_net ?s" by (rule glue_reach.init) simp_all
  have q: "sock_ptr 7" by (simp add: sock_ptr_def)
  obtain s' where s': "app_glue_sock_readable (Some 7) ?s = Inr s'"
    using glue_queues_wellformed [OF r K] q by blast
  have "\<exists>Q. ready_ok s' Q" using glue_queues_wellformed [OF glue_reach.readable [OF r q s'] K] by blast
  then show ?thesis using s' by blast
qed

lemma ev_frame_fields:
  assumes "ev_frame s t"
  shows "descs t = descs s" "mbufs t = mbufs s" "released t = released s" "socks t = socks s" "my_proc_id t = my_proc_id s"
    "free_command_pools t = free_command_pools s" "command_rings t = command_rings s" "cmd_mem t = cmd_mem s"
    "ret_mem t = ret_mem s" "stack_env.more t = stack_env.more s"
  using assms by (auto simp: ev_frame_def)

lemma ev_frame_trans: "ev_frame s t \<Longrightarrow> ev_frame t r \<Longrightarrow> ev_frame s r"
  unfolding ev_frame_def by force

lemma ev_frame_refl [simp]: "ev_frame s s"
  unfolding ev_frame_def
  by (rule exI [of _ "round_robin_counter s"], rule exI [of _ "free_event_info_pool s"], rule exI [of _ "event_infos s"],
      rule exI [of _ "epoll_objs s"], rule exI [of _ "fifo_writes s"], rule exI [of _ "enodes s"]) simp

lemma ev_frame_upds [simp]:
  "ev_frame s (s \<lparr> round_robin_counter := n \<rparr>)" "ev_frame s (s \<lparr> free_event_info_pool := mp \<rparr>)"
  "ev_frame s (s \<lparr> event_infos := ei \<rparr>)" "ev_frame s (upd_epoll e f s)" "ev_frame s (upd_node o' g s)"
  "ev_frame s (s \<lparr> fifo_writes := fw \<rparr>)" "ev_frame s (put_event_info a s)"
proof -
  have upd: "ev_frame s (s \<lparr> enodes := en, epoll_objs := eo, free_event_info_pool := mp, event_infos := ei,
      fifo_writes := fw, round_robin_counter := rr \<rparr>)" for en eo mp ei fw rr
    unfolding ev_frame_def by blast
  show "ev_frame s (s \<lparr> round_robin_counter := n \<rparr>)"
    using upd [of n "fifo_writes s" "event_infos s" "free_event_info_pool s" "epoll_objs s" "enodes s"] by simp
  show "ev_frame s (s \<lparr> free_event_info_pool := mp \<rparr>)" for mp
    using upd [of "round_robin_counter s" "fifo_writes s" "event_infos s" mp "epoll_objs s" "enodes s"] by simp
  then show "ev_frame s (put_event_info a s)" by (simp add: put_event_info_def)
  show "ev_frame s (s \<lparr> event_infos := ei \<rparr>)"
    using upd [of "round_robin_counter s" "fifo_writes s" ei "free_event_info_pool s" "epoll_objs s" "enodes s"] by simp
  show "ev_frame s (upd_epoll e f s)" unfolding upd_epoll_def
    using upd [of "round_robin_counter s" "fifo_writes s" "event_infos s" "free_event_info_pool s" _ "enodes s"] by simp
  show "ev_frame s (upd_node o' g s)" unfolding upd_node_def
    using upd [of "round_robin_counter s" "fifo_writes s" "event_infos s" "free_event_info_pool s" "epoll_objs s" _] by simp
  show "ev_frame s (s \<lparr> fifo_writes := fw \<rparr>)"
    using upd [of "round_robin_counter s" fw "event_infos s" "free_event_info_pool s" "epoll_objs s" "enodes s"] by simp
qed

lemma pick_node_frame:
  assumes "pick_node k s = (r, t)"
  shows "ev_frame s t \<and> enodes t = enodes s \<and> epoll_objs t = epoll_objs s \<and>
    (\<forall>o'. r = Some o' \<longrightarrow> o' \<in> set (epoll_node_list (socks s k)))"
  using assms by (auto simp: pick_node_def Let_def split: if_splits)

lemma mark_safe_upds [simp]:
  "mark_safe (s \<lparr> free_event_info_pool := mp \<rparr>) k = mark_safe s k" "mark_safe (s \<lparr> event_infos := ei \<rparr>) k = mark_safe s k"
  "mark_safe (s \<lparr> fifo_writes := fw \<rparr>) k = mark_safe s k" "mark_safe (put_event_info a s) k = mark_safe s k"
  "(\<And>x. fifo_write_fds (f x) = fifo_write_fds x) \<Longrightarrow> mark_safe (upd_epoll e f s) k = mark_safe s k"
  "(\<And>x. node_epoll_idx (g x) = node_epoll_idx x) \<Longrightarrow> mark_safe (upd_node o' g s) k = mark_safe s k"
  by (auto simp: mark_safe_def put_event_info_def upd_epoll_def upd_node_def)

lemma queue_event_safe:
  assumes safe: "mark_safe s k"
  obtains r t where "queue_event (int k) ev s = Inr (r, t)" "ev_frame s t" "mark_safe t k"
    "\<And>k1 o' e. r = Queued k1 o' e \<Longrightarrow> my_proc_id t < length (fifo_write_fds (epoll_objs t e))"
proof -
  have k: "sock_idx (int k) = Inr k" "is_multicore (socks s k) = 0" using safe by (auto simp: mark_safe_def)
  obtain p s1 where p: "pick_node k s = (p, s1)" by (cases "pick_node k s")
  note f = pick_node_frame [OF p]
  have safe1: "mark_safe s1 k" using safe f ev_frame_fields [of s s1] by (simp add: mark_safe_def)
  show thesis
  proof (cases p)
    case None
    then show thesis using that [of NotQueued s1] p k f safe1 by (simp add: queue_event_def queue_on_def)
  next
    case (Some o')
    define e where "e = nat (node_epoll_idx (enodes s1 o'))"
    have e: "epoll_slot (node_epoll_idx (enodes s1 o')) = Inr e" "my_proc_id s1 < length (fifo_write_fds (epoll_objs s1 e))"
      using safe f Some ev_frame_fields [of s s1] by (auto simp: mark_safe_def epoll_slot_def e_def)
    obtain g s2 where g: "get_event_info s1 = (g, s2)" by (cases "get_event_info s1")
    have s2: "ev_frame s1 s2" "mark_safe s2 k" "my_proc_id s2 = my_proc_id s1" "epoll_objs s2 = epoll_objs s1"
      using g safe1 by (auto simp: get_event_info_def split: prod.splits if_splits)
    show thesis
    proof (cases "epoll_events (enodes s1 o') AND ev = 0 \<or> g = None")
      case True
      then show thesis
        using that [of NotQueued s1] that [of NotQueued s2] p k f Some e g s2 safe1 ev_frame_trans [of s s1 s2]
        by (cases "epoll_events (enodes s1 o') AND ev = 0") (auto simp: queue_event_def queue_on_def)
    next
      case False
      then obtain a where a: "g = Some a" by auto
      define s3 where "s3 = s2 \<lparr> event_infos := (event_infos s2) (a := \<lparr> info_sockfd = int k, info_event = ev \<rparr>) \<rparr>"
      obtain rc rg where rg: "rte_ring_enqueue (ready_connections (epoll_objs s3 e)) a = (rc, rg)" by (rule prod.exhaust)
      define s4 where "s4 = upd_epoll e (\<lambda>x. x \<lparr> ready_connections := rg \<rparr>) s3"
      have s4: "ev_frame s s4" "mark_safe s4 k" "my_proc_id s4 < length (fifo_write_fds (epoll_objs s4 e))"
      proof -
        have "ev_frame s2 s3" "ev_frame s3 s4" by (simp_all add: s3_def s4_def)
        then show "ev_frame s s4" using f s2(1) by (meson ev_frame_trans)
        show "mark_safe s4 k" using s2(2) by (simp add: s4_def s3_def)
        show "my_proc_id s4 < length (fifo_write_fds (epoll_objs s4 e))"
          using e(2) s2(3,4) by (simp add: s4_def s3_def upd_epoll_def)
      qed
      have "queue_event (int k) ev s = Inr (if rc \<noteq> 0 then (NotQueued, put_event_info a s4) else (Queued k o' e, s4))"
        using p k Some e False g a rg by (simp add: queue_event_def queue_on_def s3_def s4_def Let_def)
      then show thesis
        using that [of NotQueued "put_event_info a s4"] that [of "Queued k o' e" s4] s4 ev_frame_trans [of s s4]
        by (cases "rc = 0") auto
    qed
  qed
qed

lemma mark_event_safe:
  assumes "my_proc_id s < length (fifo_write_fds (epoll_objs s e))" "mark_safe s k"
  obtains t where "mark_event k' o' e ev s = Inr t" "ev_frame s t" "mark_safe t k"
proof -
  have "ev_frame s (upd_node o' f s)" "ev_frame s (upd_node o' f (s \<lparr> fifo_writes := fw \<rparr>))" for f fw
    by (simp_all add: ev_frame_trans [of s "s \<lparr> fifo_writes := fw \<rparr>"])
  then show thesis
    using assms that by (cases "is_sleeping (epoll_objs s e) \<noteq> 0 \<and> apppid s k' \<noteq> 0") (auto simp: mark_event_def)
qed

lemma mark_readable_safe:
  assumes "mark_safe s k"
  obtains t where "light_mark_readable (int k) s = Inr t" "ev_frame s t" "mark_safe t k"
proof -
  obtain r s1 where s1: "queue_event (int k) LIGHT_EPOLLIN s = Inr (r, s1)" "ev_frame s s1" "mark_safe s1 k"
    "\<And>k1 o' e. r = Queued k1 o' e \<Longrightarrow> my_proc_id s1 < length (fifo_write_fds (epoll_objs s1 e))"
    by (rule queue_event_safe [OF assms]) auto
  show thesis
  proof (cases r)
    case NotQueued
    then show thesis using that [of s1] s1 by (simp add: light_mark_readable_def add_epoll_event_to_queue_def)
  next
    case (Queued k1 o' e)
    obtain t where "mark_event k1 o' e LIGHT_EPOLLIN s1 = Inr t" "ev_frame s1 t" "mark_safe t k"
      by (rule mark_event_safe [OF s1(4) [OF Queued] s1(3)])
    then show thesis
      using that [of t] s1 Queued ev_frame_trans [of s s1 t] by (simp add: light_mark_readable_def add_epoll_event_to_queue_def)
  qed
qed

lemma rx_moved_refl [simp]: "rx_moved k (rx_ring (descs s k)) (glue_env.more s) s s"
  by (simp add: rx_moved_def upd_desc_def)

lemma rx_moved_trans: "rx_moved k rg z s t \<Longrightarrow> rx_moved k rg' z' t r \<Longrightarrow> rx_moved k rg' z' s r"
  unfolding rx_moved_def ev_frame_def upd_desc_def by force

lemma rx_moved_fields:
  assumes "rx_moved k rg z s t"
  shows "descs t = (descs s) (k := (descs s k) \<lparr> rx_ring := rg \<rparr>)" "mbufs t = mbufs s" "released t = released s"
    "socks t = socks s" "ksocks t = ksocks s" "satelites t = satelites s" "glue_env.more t = z"
  using assms by (auto simp: rx_moved_def ev_frame_def upd_desc_def)

lemma sp_enqueue_eq:
  "ring_ok r \<Longrightarrow> rte_ring_sp_enqueue r x = (if 0 < room r then (0, published r [x] 1) else (- ENOBUFS, r))"
  using sp_do_enqueue_fixed [of r "[x]" 1] ring_ok_watermark [of r] ring_ok_count [of r]
  by (auto simp: rte_ring_sp_enqueue_def room_def)

lemma mark_safe_moved [simp]:
  "mark_safe (upd_desc k f s) j = mark_safe s j"
  "mark_safe (glue_env.more_update g s) j = mark_safe s j"
  by (simp_all add: mark_safe_def upd_desc_def)

text \<open>One chain: it is put on the ring while there is room.\<close>

lemma submit_rx_room:
  assumes ok: "ring_ok (rx_ring (descs s k))" and room: "0 < room (rx_ring (descs s k))"
    and safe: "mark_safe s k" and idx: "sat_ringset_idx (satelites s k) = int k"
  obtains t where "light_submit_rx_buf m k s = Inr (0, t)" "mark_safe t k"
    "rx_moved k (published (rx_ring (descs s k)) [m] 1) (glue_env.more s) s t"
proof -
  let ?s = "upd_desc k (\<lambda>d. d \<lparr> rx_ring := published (rx_ring (descs s k)) [m] 1 \<rparr>) s"
  have "mark_safe ?s k" using safe by simp
  then obtain t where "light_mark_readable (int k) ?s = Inr t" "ev_frame ?s t" "mark_safe t k"
    by (rule mark_readable_safe)
  then show thesis
    using that [of t] ok room idx by (simp add: light_submit_rx_buf_def sp_enqueue_eq rx_moved_def upd_desc_def)
qed

lemma submit_rx_full:
  "ring_ok (rx_ring (descs s k)) \<Longrightarrow> room (rx_ring (descs s k)) = 0 \<Longrightarrow> light_submit_rx_buf m k s = Inr (- ENOBUFS, s)"
  by (simp add: light_submit_rx_buf_def sp_enqueue_eq)

text \<open>
  The loop with the chains \<open>ms\<close> waiting: as many as fit are put on the ring; the next one, if there is
  one, is freed.
\<close>

lemma recv_loop_spec:
  fixes s :: "'z glue_env_scheme"
  assumes K: "net_delivers K q pend" and n: "0 < n"
    and "pend (glue_env.more s) = ms" "ring_ok (rx_ring (descs s k))" "mark_safe s k"
      "sat_ringset_idx (satelites s k) = int k" "sock_type (ksocks s q) = SOCK_STREAM"
  shows "\<exists>rg z t. rx_moved k rg z s t \<and> ring_ok rg \<and> capacity rg = capacity (rx_ring (descs s k)) \<and>
    contents rg = contents (rx_ring (descs s k)) @ take (room (rx_ring (descs s k))) ms \<and>
    pend z = drop (Suc (room (rx_ring (descs s k)))) ms \<and>
    recv_loop K q k n s = Some (if length ms \<le> room (rx_ring (descs s k)) then Inr t
       else loop_res (rte_pktmbuf_free (Some (ms ! room (rx_ring (descs s k)))) t))"
  using assms(3-)
proof (induction ms arbitrary: s)
  case Nil
  have "kernel_recvmsg K q s = (None, s)" using K Nil by (simp add: net_delivers_def split: list.splits)
  then show ?case
    using n Nil by (intro exI [of _ "rx_ring (descs s k)"] exI [of _ "glue_env.more s"] exI [of _ s]) (simp add: recv_loop.simps)
next
  case (Cons m ms)
  let ?r = "rx_ring (descs s k)"
  obtain z where z: "pend z = ms" "kernel_recvmsg K q s = (Some (Some m, []), glue_env.more_update (\<lambda>_. z) s)"
    using K [unfolded net_delivers_def, THEN spec, of s] Cons.prems(1) by auto
  let ?s = "glue_env.more_update (\<lambda>_. z) s"
  have s: "descs ?s = descs s" "ksocks ?s = ksocks s" "satelites ?s = satelites s" "glue_env.more ?s = z" by simp_all
  have mv: "rx_moved k ?r z s ?s" by (simp add: rx_moved_def upd_desc_def)
  show ?case
  proof (cases "room ?r = 0")
    case True
    have "recv_loop K q k n s = Some (loop_res (rte_pktmbuf_free (Some m) ?s))"
      using n z Cons.prems True s by (subst recv_loop.simps) (simp add: submit_rx_full SOCK_STREAM_def SOCK_DGRAM_def SOCK_RAW_def)
    then show ?thesis
      using True Cons.prems mv z by (intro exI [of _ ?r] exI [of _ z] exI [of _ ?s]) simp
  next
    case False
    obtain t where t: "light_submit_rx_buf m k ?s = Inr (0, t)" "mark_safe t k" "rx_moved k (published ?r [m] 1) z ?s t"
      by (rule submit_rx_room [of ?s k m]) (use Cons.prems False s in auto)
    have mt: "rx_moved k (published ?r [m] 1) z s t" by (rule rx_moved_trans [OF mv t(3)])
    note ft = rx_moved_fields [OF mt]
    have r: "ring_ok (published ?r [m] 1)" "contents (published ?r [m] 1) = contents ?r @ [m]"
      "capacity (published ?r [m] 1) = capacity ?r"
      using Cons.prems False by (simp_all add: ring_ok_published contents_published_room published_fields)
    have rt: "rx_ring (descs t k) = published ?r [m] 1" using ft by simp
    have "room (published ?r [m] 1) = room ?r - 1" using r by (simp add: room_def)
    moreover obtain rg z1 t1 where IH: "rx_moved k rg z1 t t1" "ring_ok rg" "capacity rg = capacity (rx_ring (descs t k))"
      "contents rg = contents (rx_ring (descs t k)) @ take (room (rx_ring (descs t k))) ms"
      "pend z1 = drop (Suc (room (rx_ring (descs t k)))) ms"
      "recv_loop K q k n t = Some (if length ms \<le> room (rx_ring (descs t k)) then Inr t1
         else loop_res (rte_pktmbuf_free (Some (ms ! room (rx_ring (descs t k)))) t1))"
      using Cons.IH [of t] ft t z r Cons.prems by auto
    moreover have "recv_loop K q k n s = recv_loop K q k n t"
      using n z Cons.prems t s by (subst recv_loop.simps) (simp add: SOCK_STREAM_def SOCK_DGRAM_def SOCK_RAW_def)
    moreover have "rx_moved k rg z1 s t1" by (rule rx_moved_trans [OF mt IH(1)])
    ultimately show ?thesis
      using False r rt by (intro exI [of _ rg] exI [of _ z1] exI [of _ t1]) (cases "room ?r", auto)
  qed
qed

lemma rx_free_count: "ring_ok (rx_ring (descs s k)) \<Longrightarrow> light_rx_buf_free_count k s = int (room (rx_ring (descs s k)))"
  using ring_small(2) [of "rx_ring (descs s k)"] rte_ring_free_count_eq [of "rx_ring (descs s k)"]
  by (simp add: light_rx_buf_free_count_def sint_of_small)

lemma cbk_spec:
  fixes s :: "'z glue_env_scheme"
  assumes K: "net_delivers K q pend" and sv: "serves s q k" and ok: "ring_ok (rx_ring (descs s k))"
    and ms: "pend (glue_env.more s) = ms" and fits: "ms = [] \<or> 0 < room (rx_ring (descs s k))"
  obtains rg z t where "rx_moved k rg z s t" "ring_ok rg"
    "contents rg = contents (rx_ring (descs s k)) @ take (room (rx_ring (descs s k))) ms"
    "pend z = drop (Suc (room (rx_ring (descs s k)))) ms"
    "user_data_available_cbk K q s = (if length ms \<le> room (rx_ring (descs s k)) then Inr t
       else loop_res (rte_pktmbuf_free (Some (ms ! room (rx_ring (descs s k)))) t))"
proof (cases "room (rx_ring (descs s k)) = 0")
  case True
  then have "user_data_available_cbk K q s = Inr s"
    using sv rx_free_count [OF ok] by (simp add: user_data_available_cbk_def serves_def recv_loop.simps)
  then show thesis using that [of "rx_ring (descs s k)" "glue_env.more s" s] True fits ok ms by simp
next
  case False
  have "0 < light_rx_buf_free_count k s" using False rx_free_count [OF ok] by simp
  from recv_loop_spec [OF K this ms ok] sv obtain rg z t where r: "rx_moved k rg z s t" "ring_ok rg"
    "contents rg = contents (rx_ring (descs s k)) @ take (room (rx_ring (descs s k))) ms"
    "pend z = drop (Suc (room (rx_ring (descs s k)))) ms"
    "recv_loop K q k (light_rx_buf_free_count k s) s = Some (if length ms \<le> room (rx_ring (descs s k)) then Inr t
       else loop_res (rte_pktmbuf_free (Some (ms ! room (rx_ring (descs s k)))) t))"
    by (auto simp: serves_def)
  then show thesis using that [OF r(1-4)] sv by (simp add: user_data_available_cbk_def serves_def)
qed

lemma rx_extended:
  assumes "rx_moved k rg z s t" "ring_ok rg" "contents rg = contents (rx_ring (descs s k)) @ map hd cs"
    and "rx_ok s k sh rcs" "arriving s k sh rcs cs"
  shows "rx_ok t k sh (rcs @ cs)" "rx_stream t k sh (rcs @ cs) = rx_stream s k sh rcs @ chain_bytes (mbufs s) (concat cs)"
proof -
  note f = rx_moved_fields [OF assms(1)]
  have d: "descs t k = (descs s k) \<lparr> rx_ring := rg \<rparr>" using f by simp
  have sh: "shadow_ok (mbufs s) ((descs s k) \<lparr> rx_ring := rg \<rparr>) sh = shadow_ok (mbufs s) (descs s k) sh"
    "shadow_addrs ((descs s k) \<lparr> rx_ring := rg \<rparr>) sh = shadow_addrs (descs s k) sh"
    "shadow_bytes (mbufs s) ((descs s k) \<lparr> rx_ring := rg \<rparr>) sh = shadow_bytes (mbufs s) (descs s k) sh"
    by (simp_all add: shadow_ok_def shadow_addrs_def shadow_bytes_def split: option.split)
  show "rx_ok t k sh (rcs @ cs)"
    using assms(2-5) f(2) d sh by (auto simp: rx_ok_def arriving_def)
  show "rx_stream t k sh (rcs @ cs) = rx_stream s k sh rcs @ chain_bytes (mbufs s) (concat cs)"
    using f(2) d sh by (simp add: rx_stream_def chain_bytes_def)
qed

text \<open>C6. From the network stack to the application: when the chains that wait at a socket fit into
  the receive ring of its descriptor, all of them are moved, in order, and the byte stream that the
  receive path reads from the descriptor grows by exactly their bytes.\<close>

theorem user_data_available_extends_stream:
  fixes s :: "'z glue_env_scheme"
  assumes "net_delivers K q pend" "serves s q k" "rx_ok s k sh rcs" "pend (glue_env.more s) = map hd cs"
    "arriving s k sh rcs cs" "length cs \<le> room (rx_ring (descs s k))"
  shows "\<exists>t. user_data_available_cbk K q s = Inr t \<and> pend (glue_env.more t) = [] \<and> released t = released s \<and>
    rx_ok t k sh (rcs @ cs) \<and> rx_stream t k sh (rcs @ cs) = rx_stream s k sh rcs @ chain_bytes (mbufs s) (concat cs)"
proof -
  have ok: "ring_ok (rx_ring (descs s k))" using assms(3) by (simp add: rx_ok_def)
  obtain rg z t where r: "rx_moved k rg z s t" "ring_ok rg"
    "contents rg = contents (rx_ring (descs s k)) @ take (room (rx_ring (descs s k))) (map hd cs)"
    "pend z = drop (Suc (room (rx_ring (descs s k)))) (map hd cs)"
    "user_data_available_cbk K q s = (if length (map hd cs) \<le> room (rx_ring (descs s k)) then Inr t
       else loop_res (rte_pktmbuf_free (Some (map hd cs ! room (rx_ring (descs s k)))) t))"
    by (rule cbk_spec [OF assms(1,2) ok assms(4)]) (use assms(6) in auto)
  have "contents rg = contents (rx_ring (descs s k)) @ map hd cs" using r(3) assms(6) by simp
  from rx_extended [OF r(1,2) this assms(3,5)] show ?thesis using r assms(6) rx_moved_fields [OF r(1)] by auto
qed

lemma arriving_take: "arriving s k sh rcs cs \<Longrightarrow> arriving s k sh rcs (take n cs)"
proof -
  assume a: "arriving s k sh rcs cs"
  have "concat cs = concat (take n cs) @ concat (drop n cs)" by (simp flip: concat_append)
  moreover have "set (concat (take n cs)) \<subseteq> set (concat cs)" by (auto dest: in_set_takeD)
  ultimately show ?thesis using a by (auto simp: arriving_def dest: in_set_takeD)
qed

text \<open>Buffers that are neither queued nor kept do not matter to a descriptor.\<close>

lemma rx_ok_other:
  assumes ok: "rx_ok s k sh rcs" and d: "descs t = descs s"
    and h: "\<And>a. a \<in> set (shadow_addrs (descs s k) sh @ concat rcs) \<Longrightarrow> mbufs t a = mbufs s a"
  shows "rx_ok t k sh rcs" "rx_stream t k sh rcs = rx_stream s k sh rcs"
proof -
  have q: "queue_ok s k rcs" using ok by (simp add: rx_ok_queue)
  have q': "queue_ok t k rcs" "chain_bytes (mbufs t) (concat rcs) = chain_bytes (mbufs s) (concat rcs)"
    using queue_ok_cong [OF q, of t] d h by simp_all
  have s': "shadow_ok (mbufs t) (descs s k) sh = shadow_ok (mbufs s) (descs s k) sh"
    "shadow_bytes (mbufs t) (descs s k) sh = shadow_bytes (mbufs s) (descs s k) sh"
    using shadow_cong [of "descs s k" sh "mbufs t" "mbufs s"] h by simp_all
  show "rx_ok t k sh rcs" using ok q'(1) s' d by (simp add: rx_ok_queue)
  show "rx_stream t k sh rcs = rx_stream s k sh rcs" using q'(2) s' d by (simp add: rx_stream_def)
qed

lemma arriving_apart:
  assumes "arriving s k sh rcs cs" "n < length cs" "a \<in> set (shadow_addrs (descs s k) sh @ concat (rcs @ take n cs))"
  shows "a \<notin> set (cs ! n)"
proof -
  have "concat cs = concat (take n cs) @ cs ! n @ concat (drop (Suc n) cs)"
    by (metis append.assoc assms(2) concat.simps(2) concat_append id_take_nth_drop)
  then show ?thesis using assms(1,3) by (auto simp: arriving_def)
qed


lemma pending_net_delivers: "net_delivers pending_net q (\<lambda>ms. ms)"
  by (auto simp: net_delivers_def pending_net_def split: list.split)

lemma demo_glue_app [simp]:
  "descs (demo_glue z) i = demo_desc [10]" "glue_env.more (demo_glue z) = z"
  "mbufs (demo_glue z) = (\<lambda>a. if a = 10 then demo_mbuf [1, 2, 3] (Some 11) else demo_mbuf [4, 5] None)"
  by (simp_all add: demo_glue_def stack_env.defs demo_stack_def epoll_env.defs sock_env.defs demo_net_def app_env.defs
      demo_app_def cmd_env.defs demo_env_def)

lemma demo_glue_serves: "serves (demo_glue z) q 3"
  by (simp add: serves_def get_user_data_def mark_safe_def TCP_LISTEN_def TCP_ESTABLISHED_def demo_glue_def stack_env.defs
      demo_stack_def epoll_env.defs sock_env.defs demo_net_def app_env.defs demo_app_def cmd_env.defs demo_env_def
      demo_sock_def demo_epoll_def demo_ksock_def LIGHT_EPOLL_POOL_SIZE_def)

lemma demo_glue_rx:
  "rx_ok (demo_glue z) 3 [] [[10, 11]]" "rx_stream (demo_glue z) 3 [] [[10, 11]] = [1, 2, 3, 4, 5]"
  "room (rx_ring (descs (demo_glue z) 3)) = 6" "released (demo_glue z) = []"
  using ring_of_ok [of 3 "[10]" "0 :: addr"]
  by (simp_all add: rx_ok_def shadow_ok_def shadow_addrs_def live_seg_def seg_ok_def demo_mbuf_def rx_stream_def
      shadow_bytes_def seg_bytes_def demo_desc_def room_def)
    (simp add: demo_glue_def stack_env.defs demo_stack_def epoll_env.defs sock_env.defs demo_net_def app_env.defs
      demo_app_def cmd_env.defs demo_env_def)

lemma demo_glue_arriving:
  "distinct ms \<Longrightarrow> 10 \<notin> set ms \<Longrightarrow> 11 \<notin> set ms \<Longrightarrow> arriving (demo_glue z) 3 [] [[10, 11]] (map (\<lambda>a. [a]) ms)"
  by (auto simp: arriving_def shadow_addrs_def demo_desc_def live_seg_def seg_ok_def demo_mbuf_def comp_def)

theorem user_data_available_extends_stream_witness:
  "\<exists>t. user_data_available_cbk pending_net 7 (demo_glue [20]) = Inr t \<and> rx_stream t 3 [] [[10, 11], [20]] = [1, 2, 3, 4, 5, 4, 5]"
  using user_data_available_extends_stream [OF pending_net_delivers [of 7] demo_glue_serves [of "[20]" 7]
      demo_glue_rx(1) [of "[20]"] _ demo_glue_arriving [of "[20]" "[20]"]] demo_glue_rx(2,3) [of "[20]"]
  by (auto simp: demo_mbuf_def seg_bytes_def)


text \<open>
  Handing out a reader leaves the counter of the queue as it was, one more than the sockets that are
  still queued.
\<close>

theorem get_next_reader_count:
  fixes s :: "'z glue_env_scheme"
  assumes ok: "ready_ok s Q" and Q: "Q ReadQ = q # qs"
  shows "\<exists>t. app_glue_get_next_reader s = Inr (get_user_data q s, t) \<and> tq_list (ready_lists t ReadQ) 0 qs \<and>
    read_sockets_queue_len t = of_nat (length qs) + 1"
proof -
  have l: "tq_list (ready_lists s ReadQ) 0 (q # qs)" and n: "read_sockets_queue_len s = of_nat (length qs) + 1"
    using ok Q by (auto simp: ready_ok_def) (metis Q)
  obtain l' where l': "TAILQ_REMOVE 0 q (ready_lists s ReadQ) = Inr l'" "tq_list l' 0 qs"
    using TAILQ_REMOVE_list [of _ 0 "[]" q qs] l by auto
  have "first_ready ReadQ s = Some q" using l by (simp add: tq_list_def)
  then show ?thesis
    using l' n by (auto simp: app_glue_get_next_reader_def queue_remove_def get_user_data_def set_present_def)
qed

lemma light_dequeue_tx_buf_ok:
  assumes ok: "ring_ok (tx_ring (descs s k))"
  shows "contents (tx_ring (descs s k)) = [] \<Longrightarrow> light_dequeue_tx_buf k s = (None, s)"
    "contents (tx_ring (descs s k)) = a # as \<Longrightarrow> \<exists>rg. ring_ok rg \<and> contents rg = as \<and>
      light_dequeue_tx_buf k s = (Some a, upd_desc k (\<lambda>d. d \<lparr> tx_ring := rg \<rparr>) s)"
proof -
  let ?r = "tx_ring (descs s k)"
  have d: "sc_do_dequeue ?r [0] 1 RTE_RING_QUEUE_FIXED =
      (if 1 \<le> length (contents ?r) then (0, take 1 (contents ?r) @ [], consumed ?r 1) else (- ENOENT, [0], ?r))"
    using sc_do_dequeue_fixed [of ?r 1 "[0]"] ok by (simp add: ring_ok_def)
  show "contents ?r = [] \<Longrightarrow> light_dequeue_tx_buf k s = (None, s)"
    using d by (simp add: light_dequeue_tx_buf_def rte_ring_sc_dequeue_def)
  show "\<exists>rg. ring_ok rg \<and> contents rg = as \<and> light_dequeue_tx_buf k s = (Some a, upd_desc k (\<lambda>d. d \<lparr> tx_ring := rg \<rparr>) s)"
    if "contents ?r = a # as"
    by (rule exI [of _ "consumed ?r 1"])
      (use d that ok ring_ok_consumed [OF ok, of 1] consumed_props(2) [of ?r 1] in \<open>simp add: light_dequeue_tx_buf_def rte_ring_sc_dequeue_def ring_ok_def\<close>)
qed

lemma linked_first: "linked h None pre \<Longrightarrow> next_seg (h m) = None \<Longrightarrow> linked h (Some (m, m)) (pre @ [m])"
  by (cases pre) (auto simp: linked_def)

lemma linked_next:
  assumes "linked h (Some (f, p)) pre" "next_seg (h m) = None" "m \<noteq> p"
  shows "linked (h (p := (h p) \<lparr> next_seg := Some m \<rparr>)) (Some (f, m)) (pre @ [m])"
proof -
  obtain as where as: "pre = as @ [p]" using assms(1) by (metis linked_def append_butlast_last_id)
  have "chain h (Some f) (as @ [p])" using assms(1) as by (simp add: linked_def)
  from chain_append [OF this, of "Some m" "[m]"] show ?thesis using assms(2,3) as by (simp add: linked_def)
qed

lemma link_packets_ok:
  assumes "ring_ok (tx_ring (descs s k))" "contents (tx_ring (descs s k)) = as" "sock_idx (sat_ringset_idx (satelites s k)) = Inr i"
    "linked (mbufs s) acc pre" "distinct (pre @ as)" "\<forall>a \<in> set as. next_seg (mbufs s a) = None"
    "n = taken_for copy (map (\<lambda>a. data_len (mbufs s a)) as)"
  shows "\<exists>first t. link_packets k copy acc s = Some (Inr (first, copy - int (clen (mbufs s) (take n as)), t)) \<and>
    ring_ok (tx_ring (descs t k)) \<and> contents (tx_ring (descs t k)) = drop n as \<and> chain (mbufs t) first (pre @ take n as) \<and>
    (\<forall>a. seg_bytes (mbufs t a) = seg_bytes (mbufs s a)) \<and> tx_bufs_pool t = tx_bufs_pool s"
  using assms
proof (induction as arbitrary: s copy acc pre n)
  case Nil
  then show ?case
    using light_dequeue_tx_buf_ok(1) [of "upd_sock i (\<lambda>x. x \<lparr> write_done_from_app := 0 \<rparr>) s" k]
    by (auto simp: link_packets.simps light_tx_buf_count_def linked_def upd_sock_def)
next
  case (Cons a as)
  let ?s1 = "upd_sock i (\<lambda>x. x \<lparr> write_done_from_app := 0 \<rparr>) s"
  show ?case
  proof (cases "copy < 1448")
    case True
    then show ?thesis using Cons.prems by (auto simp: link_packets.simps linked_def)
  next
    case False
    have s1: "descs ?s1 = descs s" "mbufs ?s1 = mbufs s" "satelites ?s1 = satelites s" "tx_bufs_pool ?s1 = tx_bufs_pool s"
      by (simp_all add: upd_sock_def)
    obtain rg where rg: "ring_ok rg" "contents rg = as"
      "light_dequeue_tx_buf k ?s1 = (Some a, upd_desc k (\<lambda>d. d \<lparr> tx_ring := rg \<rparr>) ?s1)"
      using light_dequeue_tx_buf_ok(2) [of ?s1 k a as] Cons.prems(1,2) s1 by auto
    let ?s2 = "upd_desc k (\<lambda>d. d \<lparr> tx_ring := rg \<rparr>) ?s1"
    have s2: "mbufs ?s2 = mbufs s" "satelites ?s2 = satelites s" "tx_ring (descs ?s2 k) = rg" "tx_bufs_pool ?s2 = tx_bufs_pool s"
      using s1 by (simp_all add: upd_desc_def)
    obtain f p where fp: "acc = None \<or> acc = Some (f, p)" by (cases acc) auto
    define s3 where "s3 = (if acc = None then ?s2 else upd_mbuf p (\<lambda>b. b \<lparr> next_seg := Some a \<rparr>) ?s2)"
    define acc' where "acc' = Some (if acc = None then a else f, a)"
    have step: "link_packets k copy acc s = link_packets k (copy - int (data_len (mbufs s a))) acc' s3"
      using False Cons.prems(3) rg(3) fp s2(1)
      by (subst link_packets.simps) (auto simp: light_tx_buf_count_def s3_def acc'_def split: option.splits)
    have s3: "tx_ring (descs s3 k) = rg" "satelites s3 = satelites s" "tx_bufs_pool s3 = tx_bufs_pool s"
      "\<forall>b. seg_bytes (mbufs s3 b) = seg_bytes (mbufs s b) \<and> data_len (mbufs s3 b) = data_len (mbufs s b)"
      "\<forall>b. acc = None \<or> b \<noteq> p \<longrightarrow> mbufs s3 b = mbufs s b"
      using s2 by (auto simp: s3_def upd_mbuf_def seg_bytes_def)
    have p: "acc \<noteq> None \<Longrightarrow> p \<in> set pre" using Cons.prems(4) fp by (auto simp: linked_def)
    have na: "next_seg (mbufs s a) = None" "a \<notin> set pre" using Cons.prems(5,6) by auto
    have l3: "linked (mbufs s3) acc' (pre @ [a])"
    proof (cases acc)
      case None
      then show ?thesis using linked_first [of "mbufs s" pre a] Cons.prems(4) na s2(1) by (simp add: s3_def acc'_def)
    next
      case (Some x)
      then have "acc = Some (f, p)" "a \<noteq> p" using fp p na by auto
      then show ?thesis using linked_next [of "mbufs s" f p pre a] Cons.prems(4) na s2(1)
        by (simp add: s3_def acc'_def upd_mbuf_def)
    qed
    have n3: "\<forall>b \<in> set as. next_seg (mbufs s3 b) = None" using Cons.prems(5,6) s3(5) p by (metis (no_types, lifting) UnI1 Un_iff disjoint_iff distinct_append list.set_intros(2))
    obtain n' where n': "n = Suc n'" "n' = taken_for (copy - int (data_len (mbufs s a))) (map (\<lambda>a. data_len (mbufs s3 a)) as)"
      using Cons.prems(7) False s3(4) by simp
    have "distinct ((pre @ [a]) @ as)" using Cons.prems(5) by simp
    from Cons.IH [OF _ _ _ l3 this n3 n'(2)] rg s3 Cons.prems(3) obtain first t where t:
      "link_packets k (copy - int (data_len (mbufs s a))) acc' s3 =
        Some (Inr (first, copy - int (data_len (mbufs s a)) - int (clen (mbufs s3) (take n' as)), t))"
      "ring_ok (tx_ring (descs t k))" "contents (tx_ring (descs t k)) = drop n' as" "chain (mbufs t) first ((pre @ [a]) @ take n' as)"
      "\<forall>a. seg_bytes (mbufs t a) = seg_bytes (mbufs s3 a)" "tx_bufs_pool t = tx_bufs_pool s3"
      by auto
    moreover have "clen (mbufs s3) (take n' as) = clen (mbufs s) (take n' as)" using s3(4) by (simp add: clen_def)
    ultimately show ?thesis using step n'(1) s3(3,4) by (auto simp: clen_def)
  qed
qed

lemma taken_for_le: "taken_for copy ls \<le> length ls"
  by (induction ls arbitrary: copy) auto

lemma taken_for_rest: "taken_for copy ls < length ls \<Longrightarrow> copy - int (sum_list (take (taken_for copy ls) ls)) < 1448"
proof (induction ls arbitrary: copy)
  case (Cons l ls)
  from Cons.IH [of "copy - int l"] Cons.prems show ?case by (cases "copy < 1448") (simp_all add: diff_diff_eq)
qed simp

lemma glue_more:
  fixes s t :: "'z glue_env_scheme"
  assumes "app_env.more t = app_env.more s"
  shows "ksocks t = ksocks s" "satelites t = satelites s"
  using assms by (cases s; cases t; simp)+

lemma user_get_buffer_ok:
  fixes s :: "'z glue_env_scheme"
  assumes "sk_user_data (ksocks s q) = Some k" "ring_ok (tx_ring (descs s k))" "sock_idx (sat_ringset_idx (satelites s k)) = Inr i"
    "distinct (contents (tx_ring (descs s k)))" "\<forall>a \<in> set (contents (tx_ring (descs s k))). next_seg (mbufs s a) = None"
  shows "\<exists>as first rest t. user_get_buffer (Some q) copy s = Inr (first, rest, t) \<and> chain (mbufs t) first as \<and>
    contents (tx_ring (descs s k)) = as @ contents (tx_ring (descs t k)) \<and> chain_bytes (mbufs t) as @ tx_stream t k = tx_stream s k \<and>
    rest = copy - int (clen (mbufs s) as) \<and> (1448 \<le> rest \<longrightarrow> contents (tx_ring (descs t k)) = [])"
proof -
  let ?c = "contents (tx_ring (descs s k))"
  define n where "n = taken_for copy (map (\<lambda>a. data_len (mbufs s a)) ?c)"
  obtain first t where t: "link_packets k copy None s = Some (Inr (first, copy - int (clen (mbufs s) (take n ?c)), t))"
    "contents (tx_ring (descs t k)) = drop n ?c" "chain (mbufs t) first (take n ?c)"
    "\<forall>a. seg_bytes (mbufs t a) = seg_bytes (mbufs s a)"
    using link_packets_ok [OF assms(2) refl assms(3), of None "[]" n copy] assms(4,5) by (auto simp: n_def linked_def)
  have call: "user_get_buffer (Some q) copy s = Inr (first, copy - int (clen (mbufs s) (take n ?c)), t)"
  proof (cases "copy < 1448")
    case True
    then have "link_packets k copy None s = Some (Inr (None, copy, s))" by (simp add: link_packets.simps)
    then show ?thesis using t(1) True by (simp add: user_get_buffer_def)
  qed (use t(1) assms(1) in \<open>simp add: user_get_buffer_def\<close>)
  have "chain_bytes (mbufs t) xs = chain_bytes (mbufs s) xs" for xs by (rule chain_bytes_cong) (use t(4) in simp)
  then have "chain_bytes (mbufs t) (take n ?c) @ tx_stream t k = tx_stream s k"
    using t(2) by (simp add: tx_stream_def flip: chain_bytes_simps(3))
  moreover have "1448 \<le> copy - int (clen (mbufs s) (take n ?c)) \<Longrightarrow> drop n ?c = []"
    using taken_for_rest [of copy "map (\<lambda>a. data_len (mbufs s a)) ?c"] by (force simp: clen_def take_map n_def not_le)
  ultimately show ?thesis using call t(2,3) by (metis append_take_drop_id)
qed

text \<open>C8. What an application sends is what the network stack takes: after \<open>light_send\<close> the stack's
  callback links buffers of the transmit ring to a chain; the bytes of the chain followed by those still
  queued are exactly the bytes that were queued before followed by the new ones, in order, and with
  enough room everything is taken.\<close>

theorem sent_bytes_reach_stack:
  fixes s :: "'z glue_env_scheme"
  assumes send: "target_sock fd s = Inr (i, pr)" "tx_ok s i" "socket (descs s i) = Some k"
    "connect_close_signal (socks s k) < 3" "0 \<le> tx_space (socks s k)" "0 < tx_packets s i k"
    "ret = min (length bs) (1448 * tx_packets s i k)" "cmd_inv s pr held"
    "length (contents (command_rings s pr)) < capacity (command_rings s pr)"
    and glue: "sk_user_data (ksocks s q) = Some i" "sock_idx (sat_ringset_idx (satelites s i)) = Inr j"
      "\<forall>a \<in> set (contents (tx_ring (descs s i))). next_seg (mbufs s a) = None"
  shows "\<exists>s' as first rest t. light_send fd bs t0 clock env s = Inr (int ret, s') \<and>
    user_get_buffer (Some q) copy s' = Inr (first, rest, t) \<and> chain (mbufs t) first as \<and>
    chain_bytes (mbufs t) as @ tx_stream t i = tx_stream s i @ take ret bs \<and>
    (1448 \<le> rest \<longrightarrow> contents (tx_ring (descs t i)) = [])"
proof -
  have "light_send fd bs t0 clock env s = light_send_sock i bs pr t0 clock env s"
    using send(1) by (simp add: light_send_def)
  then obtain s' cnt where s': "light_send fd bs t0 clock env s = Inr (int ret, s')" "tx_ok s' i"
    "contents (tx_ring (descs s' i)) = contents (tx_ring (descs s i)) @ take cnt (pool_free (tx_bufs_pool s))"
    "tx_stream s' i = tx_stream s i @ take ret bs"
    "\<forall>a. next_seg (mbufs s' a) = (if a \<in> set (take cnt (pool_free (tx_bufs_pool s))) then None else next_seg (mbufs s a))"
    "app_env.more s' = app_env.more s"
    using light_send_sock_ok [OF send(2-8), of t0 clock env] send(9) by auto
  have "ring_ok (tx_ring (descs s' i))" "distinct (contents (tx_ring (descs s' i)))" using s'(2) by (simp_all add: tx_ok_def)
  moreover have "\<forall>a \<in> set (contents (tx_ring (descs s' i))). next_seg (mbufs s' a) = None" using s'(3,5) glue(3) by auto
  ultimately show ?thesis
    using user_get_buffer_ok [of s' q i j copy] s'(1,4) glue(1,2) glue_more [OF s'(6)] by metis
qed

theorem sent_bytes_reach_stack_witness:
  "\<exists>s t :: glue_env. \<exists>s' as first rest. light_send 0 [1, 2, 3] \<lparr> tv_sec = 0, tv_usec = 0 \<rparr> (\<lambda>_. \<lparr> tv_sec = 0, tv_usec = 0 \<rparr>) (\<lambda>_ s. s) s = Inr (3, s') \<and>
     user_get_buffer (Some 7) 1448 s' = Inr (first, rest, t) \<and> chain (mbufs t) first as \<and>
     chain_bytes (mbufs t) as @ tx_stream t 3 = [1, 2, 3]"
proof -
  define s :: glue_env where "s = (demo_glue ()) \<lparr> descs := descs demo_tx, socks := socks demo_tx, mbufs := mbufs demo_tx,
    tx_bufs_pool := tx_bufs_pool demo_tx, fdt := fdt demo_tx, command_rings := command_rings demo_tx,
    free_command_pools := free_command_pools demo_tx \<rparr>"
  have f: "descs s = descs demo_tx" "socks s = socks demo_tx" "mbufs s = mbufs demo_tx" "tx_bufs_pool s = tx_bufs_pool demo_tx"
    "fdt s = fdt demo_tx" "command_rings s = command_rings demo_tx" "free_command_pools s = free_command_pools demo_tx"
    "ksocks s = ksocks (demo_glue ())" "satelites s = satelites (demo_glue ())" by (simp_all add: s_def)
  have ok: "tx_ok s 3" "socket (descs s 3) = Some 3" "connect_close_signal (socks s 3) < 3" "0 \<le> tx_space (socks s 3)"
    "tx_packets s 3 3 = 3" "cmd_inv s 0 []" "length (contents (command_rings s 0)) < capacity (command_rings s 0)"
    "tx_stream s 3 = []"
    using demo_tx_ok by (simp_all add: f tx_ok_def tx_packets_def cmd_inv_def cmd_bufs_def tx_stream_def)
  have "sock_of s = sock_of demo_tx" by (simp add: fun_eq_iff sock_of_def f split: option.split)
  then have tgt: "target_sock 0 s = Inr (3, 0)" using demo_tx_ok(8) by (simp only: target_sock_def f)
  have g: "sk_user_data (ksocks s 7) = Some 3" "sock_idx (sat_ringset_idx (satelites s 3)) = Inr 3"
    "\<forall>a \<in> set (contents (tx_ring (descs s 3))). next_seg (mbufs s a) = None"
    by (simp_all add: f demo_glue_def stack_env.defs sock_idx_def LIGHT_CONNECTION_POOL_SIZE_def demo_tx_def demo_ksock_def demo_mbuf_def)
  have "3 = min (length [1 :: u8, 2, 3]) (1448 * tx_packets s 3 3)" by (simp add: ok(5))
  from sent_bytes_reach_stack [OF tgt ok(1-4) _ this ok(6,7) g, of "\<lparr> tv_sec = 0, tv_usec = 0 \<rparr>"
      "\<lambda>_. \<lparr> tv_sec = 0, tv_usec = 0 \<rparr>" "\<lambda>_ s. s" 1448]
  obtain s' as first rest t where "light_send 0 [1, 2, 3] \<lparr> tv_sec = 0, tv_usec = 0 \<rparr> (\<lambda>_. \<lparr> tv_sec = 0, tv_usec = 0 \<rparr>) (\<lambda>_ s. s) s = Inr (3, s')"
    "user_get_buffer (Some 7) 1448 s' = Inr (first, rest, t)" "chain (mbufs t) first as"
    "chain_bytes (mbufs t) as @ tx_stream t 3 = [1, 2, 3]"
    unfolding ok(8) by (auto simp: ok(5))
  then show ?thesis by blast
qed

end
