(* ===== verification/Service_Loop.thy ===== *)
theory Service_Loop
  imports App_Glue
begin

text \<open>
  The main loop of a stack process, \<open>service/light_service_loop.c\<close>: taking commands from the command
  ring of the process, executing each of them, and returning its buffer to the pool; serving the
  network stack; and telling sockets that waited for buffers.  The lemmas follow a command buffer
  through \<open>_process_command\<close> and connect a request of an application with its answer.
\<close>

section \<open>State\<close>

record service_env = glue_env +
  client_rings :: "nat \<Rightarrow> addr rte_ring"
  client_busy :: "nat \<Rightarrow> bool"
  clients_list :: tailq
  mbufs_mempool :: "addr rte_mempool"

text \<open>
  The functions outside this file and outside the glue: routing and ARP of the network stack, the
  descriptions of its interfaces, the \<open>open\<close> of the fifo of an epoll object, and the random ports
  of a connect.
\<close>

record 's services =
  net :: "'s net_stack"
  ip_rt_ioctl :: "bool \<Rightarrow> u32 \<Rightarrow> u32 \<Rightarrow> u32 \<Rightarrow> int \<Rightarrow> 's \<Rightarrow> 's"
  process_arp_command :: "int \<Rightarrow> u32 \<Rightarrow> u8 list \<Rightarrow> int \<Rightarrow> int \<Rightarrow> int \<Rightarrow> 's \<Rightarrow> 's"
  all_devices :: "'s \<Rightarrow> u8 list"
  all_addresses :: "'s \<Rightarrow> u8 list"
  open_fifo :: "int \<Rightarrow> int \<Rightarrow> 's \<Rightarrow> int"
  random_ports :: "nat \<Rightarrow> u16"

text \<open>Storing the answer of a request; a command without a return value is a fault.\<close>

definition answer ::
  "addr \<Rightarrow> (light_return_value_t \<Rightarrow> light_return_value_t) \<Rightarrow> 'z service_env_scheme \<Rightarrow> 'z service_env_scheme c_res" where
  "answer c f s = (case res (cmd_mem s c) of None \<Rightarrow> Inl BadPointer | Some r \<Rightarrow> Inr (write_ret r f s))"

section \<open>Clients\<close>

definition get_buffer :: "'z service_env_scheme \<Rightarrow> addr option \<times> 'z service_env_scheme" where
  "get_buffer s =
     (case rte_mempool_get 0 (mbufs_mempool s) 0 of (ret, a, mp) \<Rightarrow>
        if ret \<noteq> 0 then (None, s)
        else (Some a, upd_mbuf a (\<lambda>m. (rte_pktmbuf_reset m) \<lparr> refcnt := 1 \<rparr>) (s \<lparr> mbufs_mempool := mp \<rparr>)))"

definition get_buffer_count :: "'z service_env_scheme \<Rightarrow> u32" where
  "get_buffer_count s = rte_mempool_avail_count (mbufs_mempool s)"

text \<open>
  One record for a client: a byte for its kind and the payload.  A full ring is only reported, the
  buffer is not freed.  The result says whether there was a buffer.
\<close>

definition send_record ::
  "nat \<Rightarrow> u8 \<Rightarrow> u8 list option \<Rightarrow> 'z service_env_scheme \<Rightarrow> (bool \<times> 'z service_env_scheme) c_res" where
  "send_record i kind payload s =
     (case get_buffer s of (None, s1) \<Rightarrow> Inr (False, s1)
      | (Some a, s1) \<Rightarrow>
        cbind (write_data a (kind # (case payload of None \<Rightarrow> [] | Some bs \<Rightarrow> bs)) s1) (\<lambda>s2.
        let s3 = (case payload of None \<Rightarrow> s2
                  | Some bs \<Rightarrow> upd_mbuf a (\<lambda>m. m \<lparr> data_len := (length bs + 1) mod 65536 \<rparr>) s2)
        in Inr (True, s3 \<lparr> client_rings := (client_rings s3) (i := snd (rte_ring_enqueue (client_rings s3 i) a)) \<rparr>)))"

definition on_client_connect :: "'z service_env_scheme services \<Rightarrow> nat \<Rightarrow> 'z service_env_scheme \<Rightarrow> 'z service_env_scheme c_res" where
  "on_client_connect V i s =
     cbind (send_record i 17 (Some (all_devices V s)) s) (\<lambda>(got, s1).
     if \<not> got then Inr s1
     else cbind (send_record i 18 (Some (all_addresses V s1)) s1) (\<lambda>(got, s2).
          if \<not> got then Inr s2
          else cbind (send_record i 19 None s2) (\<lambda>(_, s3). Inr s3)))"

section \<open>Commands\<close>

text \<open>The socket of a command: its satellite data, if the index is in range, and the socket there.\<close>

definition cmd_sat :: "addr \<Rightarrow> 'z service_env_scheme \<Rightarrow> (nat \<times> nat option) c_res" where
  "cmd_sat c s = cbind (sock_idx (ringset_idx (cmd_mem s c))) (\<lambda>k. Inr (k, sat_socket (satelites s k)))"

definition cmd_epoll_create :: "'z service_env_scheme services \<Rightarrow> addr \<Rightarrow> 'z service_env_scheme \<Rightarrow> (bool \<times> 'z service_env_scheme) c_res" where
  "cmd_epoll_create V c s =
     (case u (cmd_mem s c) of
        epoll_create_args e p \<Rightarrow>
          cbind (epoll_slot e) (\<lambda>slot.
          let fd = open_fifo V e p s in
          cbind (aset (fifo_write_fds (epoll_objs s slot)) (int (my_proc_id s)) fd) (\<lambda>fds.
          Inr (fd \<ge> 0, upd_epoll slot (\<lambda>x. x \<lparr> fifo_write_fds := fds \<rparr>) s)))
      | _ \<Rightarrow> Inl NoValue)"

definition cmd_epoll_close :: "addr \<Rightarrow> 'z service_env_scheme \<Rightarrow> 'z service_env_scheme c_res" where
  "cmd_epoll_close c s =
     (case u (cmd_mem s c) of
        epoll_close_args e p \<Rightarrow>
          cbind (epoll_slot e) (\<lambda>slot.
          cbind (aget (fifo_write_fds (epoll_objs s slot)) (int (my_proc_id s))) (\<lambda>fd. Inr (real_close fd s)))
      | _ \<Rightarrow> Inl NoValue)"

definition set_tx_space :: "'z service_env_scheme services \<Rightarrow> nat \<Rightarrow> nat \<Rightarrow> 'z service_env_scheme \<Rightarrow> 'z service_env_scheme c_res" where
  "set_tx_space V k q s =
     cbind (sock_idx (sat_ringset_idx (satelites s k))) (\<lambda>i.
     cbind (need_sk q s) (\<lambda>s. Inr (user_set_socket_tx_space i (sk_stream_wspace (net V) q s) s)))"

definition cmd_open_socket :: "'z service_env_scheme services \<Rightarrow> addr \<Rightarrow> 'z service_env_scheme \<Rightarrow> 'z service_env_scheme c_res" where
  "cmd_open_socket V c s =
     (case u (cmd_mem s c) of
        open_sock fam ty p \<Rightarrow>
          cbind (app_glue_create_socket (net V) fam ty s) (\<lambda>(sock, s1).
          case sock of
            None \<Rightarrow> answer c (\<lambda>v. v \<lparr> return_value := - 1, ready_signal := 1 \<rparr>) s1
          | Some q \<Rightarrow>
              cbind (sock_idx (ringset_idx (cmd_mem s1 c))) (\<lambda>k.
              let s2 = (upd_sat k (\<lambda>x. x \<lparr> sat_ringset_idx := int k, sat_parent_idx := parent_idx (cmd_mem s1 c) \<rparr>) s1)
                         \<lparr> apppid := (apppid s1) (k := p) \<rparr>
              in cbind (app_glue_set_user_data q (Some k) s2) (\<lambda>s3.
                 cbind (set_tx_space V k q (upd_sat k (\<lambda>x. x \<lparr> sat_socket := Some q \<rparr>) s3))
                   (answer c (\<lambda>v. v \<lparr> return_value := 0, ready_signal := 1 \<rparr>)))))
      | _ \<Rightarrow> Inl NoValue)"

text \<open>Connecting and binding; without a socket the error number of the answer is not set.\<close>

definition cmd_connect_bind :: "'z service_env_scheme services \<Rightarrow> addr \<Rightarrow> 'z service_env_scheme \<Rightarrow> 'z service_env_scheme c_res" where
  "cmd_connect_bind V c s =
     cbind (cmd_sat c s) (\<lambda>(k, sock).
     case sock of
       None \<Rightarrow> answer c (\<lambda>v. v \<lparr> return_value := - 1, ready_signal := 1 \<rparr>) s
     | Some q \<Rightarrow>
         (case u (cmd_mem s c) of
            socket_connect_bind ip port is_connect \<Rightarrow>
              if is_connect \<noteq> 0 then
                cbind (app_glue_v4_connect (net V) (random_ports V) q ip port s) (\<lambda>(rv, s1).
                if rv \<noteq> 0 then answer c (\<lambda>v. v \<lparr> return_value := - 1, return_errno := - rv, ready_signal := 1 \<rparr>) s1
                else case inet_getname (net V) q s1 of (a, p) \<Rightarrow>
                  answer c (\<lambda>v. v \<lparr> return_value := 0, return_errno := - rv, ready_signal := 1 \<rparr>)
                    (upd_sock k (\<lambda>x. x \<lparr> local_ipaddr := a, local_port := p \<rparr>) s1))
              else
                (case app_glue_v4_bind (net V) q ip port s of (rv, s1) \<Rightarrow>
                   answer c (\<lambda>v. v \<lparr> return_value := (if rv \<noteq> 0 then - 1 else 0), return_errno := - rv,
                     ready_signal := 1 \<rparr>) s1)
          | _ \<Rightarrow> Inl NoValue))"

definition cmd_listen :: "'z service_env_scheme services \<Rightarrow> addr \<Rightarrow> 'z service_env_scheme \<Rightarrow> 'z service_env_scheme c_res" where
  "cmd_listen V c s =
     cbind (cmd_sat c s) (\<lambda>(k, sock).
     case (sock, u (cmd_mem s c)) of
       (None, _) \<Rightarrow> Inl BadPointer
     | (Some q, listen_backlog n) \<Rightarrow> cbind (app_glue_v4_listen (net V) q n s) (\<lambda>(_, s1). Inr s1)
     | _ \<Rightarrow> Inl NoValue)"

text \<open>What closing and a full shutdown share.\<close>

definition drop_socket :: "'z service_env_scheme services \<Rightarrow> nat \<Rightarrow> nat \<Rightarrow> 'z service_env_scheme \<Rightarrow> 'z service_env_scheme c_res" where
  "drop_socket V k q s =
     cbind (user_flush_rx_tx q s) (\<lambda>s1. cbind (app_glue_close_socket (net V) q s1) (\<lambda>s2.
     Inr (light_free_socket k (upd_sat k (\<lambda>x. x \<lparr> sat_socket := None, sat_ringset_idx := - 1, sat_parent_idx := - 1 \<rparr>) s2))))"

definition cmd_close :: "'z service_env_scheme services \<Rightarrow> addr \<Rightarrow> 'z service_env_scheme \<Rightarrow> 'z service_env_scheme c_res" where
  "cmd_close V c s =
     cbind (cmd_sat c s) (\<lambda>(k, sock). case sock of None \<Rightarrow> Inr s | Some q \<Rightarrow> drop_socket V k q s)"

definition cmd_tx_kick :: "'z service_env_scheme services \<Rightarrow> addr \<Rightarrow> 'z service_env_scheme \<Rightarrow> 'z service_env_scheme c_res" where
  "cmd_tx_kick V c s =
     cbind (cmd_sat c s) (\<lambda>(k, sock). case sock of None \<Rightarrow> Inr s
     | Some q \<Rightarrow> user_on_transmission_opportunity (net V) q s)"

definition cmd_rx_kick :: "'z service_env_scheme services \<Rightarrow> addr \<Rightarrow> 'z service_env_scheme \<Rightarrow> 'z service_env_scheme c_res" where
  "cmd_rx_kick V c s =
     cbind (cmd_sat c s) (\<lambda>(k, sock). case sock of None \<Rightarrow> Inr s | Some q \<Rightarrow> user_data_available_cbk (net V) q s)"

definition cmd_set_socket_ring :: "'z service_env_scheme services \<Rightarrow> addr \<Rightarrow> 'z service_env_scheme \<Rightarrow> 'z service_env_scheme c_res" where
  "cmd_set_socket_ring V c s =
     cbind (cmd_sat c s) (\<lambda>(k, _).
     case u (cmd_mem s c) of
       set_socket_ring q p \<Rightarrow>
         let par = parent_idx (cmd_mem s c);
             s1 = (upd_sat k (\<lambda>x. x \<lparr> sat_ringset_idx := int k,
                     sat_parent_idx := (if par \<noteq> - 1 then par else sat_parent_idx x) \<rparr>) s)
                     \<lparr> apppid := (apppid s) (k := p) \<rparr>
         in cbind (app_glue_set_user_data q (Some k) s1) (\<lambda>s2.
            cbind (set_tx_space V k q (upd_sat k (\<lambda>x. x \<lparr> sat_socket := Some q \<rparr>) s2))
              (user_data_available_cbk (net V) q))
     | _ \<Rightarrow> Inl NoValue)"

definition cmd_tx_pool_empty :: "'z service_env_scheme services \<Rightarrow> addr \<Rightarrow> 'z service_env_scheme \<Rightarrow> 'z service_env_scheme c_res" where
  "cmd_tx_pool_empty V c s =
     cbind (cmd_sat c s) (\<lambda>(k, sock).
     case sock of None \<Rightarrow> Inr s
     | Some q \<Rightarrow>
         if queue_present (ksocks s q) NotifyQ then Inr s
         else cbind (queue_insert NotifyQ q s) (\<lambda>s1.
              if sock_type (ksocks s1 q) = SOCK_DGRAM then set_tx_space V k q s1 else Inr s1))"

definition cmd_route :: "'z service_env_scheme services \<Rightarrow> bool \<Rightarrow> addr \<Rightarrow> 'z service_env_scheme \<Rightarrow> 'z service_env_scheme c_res" where
  "cmd_route V add c s =
     (case u (cmd_mem s c) of
        route dst msk hop metric \<Rightarrow> Inr (ip_rt_ioctl V add dst msk hop (if add then metric else 0) s)
      | _ \<Rightarrow> Inl NoValue)"

text \<open>The array of clients; a negative index passes the test.\<close>

definition client_slot :: "int \<Rightarrow> nat option c_res" where
  "client_slot n = (if n \<ge> int LIGHT_CLIENTS_POOL_SIZE then Inr None else if n < 0 then Inl OutOfBounds else Inr (Some (nat n)))"

definition cmd_connect_client :: "'z service_env_scheme services \<Rightarrow> addr \<Rightarrow> 'z service_env_scheme \<Rightarrow> 'z service_env_scheme c_res" where
  "cmd_connect_client V c s =
     cbind (client_slot (ringset_idx (cmd_mem s c))) (\<lambda>sl.
     case sl of None \<Rightarrow> Inr s
     | Some i \<Rightarrow>
         if client_busy s i then Inr s
         else cbind (TAILQ_INSERT_TAIL 0 i (clients_list s)) (\<lambda>l.
              on_client_connect V i (s \<lparr> clients_list := l, client_busy := (client_busy s) (i := True) \<rparr>)))"

definition cmd_disconnect_client :: "addr \<Rightarrow> 'z service_env_scheme \<Rightarrow> 'z service_env_scheme c_res" where
  "cmd_disconnect_client c s =
     cbind (client_slot (ringset_idx (cmd_mem s c))) (\<lambda>sl.
     case sl of None \<Rightarrow> Inr s
     | Some i \<Rightarrow>
         if \<not> client_busy s i then Inr s
         else cbind (TAILQ_REMOVE 0 i (clients_list s)) (\<lambda>l.
              Inr (s \<lparr> clients_list := l, client_busy := (client_busy s) (i := False) \<rparr>)))"

definition cmd_setsockopt :: "'z service_env_scheme services \<Rightarrow> addr \<Rightarrow> 'z service_env_scheme \<Rightarrow> 'z service_env_scheme c_res" where
  "cmd_setsockopt V c s =
     cbind (cmd_sat c s) (\<lambda>(k, sock).
     case (sock, u (cmd_mem s c)) of
       (None, _) \<Rightarrow> Inr s
     | (Some q, setsockopt_args lev opt len val) \<Rightarrow> set_tx_space V k q (sock_setsockopt (net V) q lev opt len val s)
     | _ \<Rightarrow> Inl NoValue)"

text \<open>
  After a full shutdown the pointer to the socket is NULL when it is handed to \<open>inet_shutdown\<close>, which
  reads through it.
\<close>

definition cmd_shutdown :: "'z service_env_scheme services \<Rightarrow> addr \<Rightarrow> 'z service_env_scheme \<Rightarrow> 'z service_env_scheme c_res" where
  "cmd_shutdown V c s =
     cbind (cmd_sat c s) (\<lambda>(k, sock).
     case (sock, u (cmd_mem s c)) of
       (None, _) \<Rightarrow> Inr s
     | (Some q, socket_shutdown how) \<Rightarrow>
         cbind (if how = 0 then user_flush_rx q s else if how = 1 then user_flush_tx q s
                else if how = 2 then drop_socket V k q s else Inr s) (\<lambda>s1.
         case sat_socket (satelites s1 k) of None \<Rightarrow> Inl BadPointer
         | Some q1 \<Rightarrow> Inr (inet_shutdown (net V) q1 how s1))
     | _ \<Rightarrow> Inl NoValue)"

definition cmd_decline :: "'z service_env_scheme services \<Rightarrow> addr \<Rightarrow> 'z service_env_scheme \<Rightarrow> 'z service_env_scheme c_res" where
  "cmd_decline V c s =
     (case u (cmd_mem s c) of
        socket_decline q \<Rightarrow> cbind (user_flush_rx_tx q s) (app_glue_close_socket (net V) q)
      | _ \<Rightarrow> Inl NoValue)"

definition cmd_add_arp :: "'z service_env_scheme services \<Rightarrow> addr \<Rightarrow> 'z service_env_scheme \<Rightarrow> 'z service_env_scheme c_res" where
  "cmd_add_arp V c s =
     (case u (cmd_mem s c) of
        add_arp port sip sha creat st over \<Rightarrow> Inr (process_arp_command V port sip sha creat st over s)
      | _ \<Rightarrow> Inl NoValue)"

text \<open>
  \<open>_process_command\<close>: the result and the state.  A failed \<open>open\<close> of a fifo and the close of an epoll
  object return before the buffer of the command is freed.
\<close>

definition cmd_effect ::
  "'z service_env_scheme services \<Rightarrow> addr \<Rightarrow> 'z service_env_scheme \<Rightarrow> 'z service_env_scheme c_res" where
  "cmd_effect V c s =
     (case cmd (cmd_mem s c) of
        LIGHT_ADD_ARP_COMMAND \<Rightarrow> cmd_add_arp V c s
      | LIGHT_OPEN_SOCKET_COMMAND \<Rightarrow> cmd_open_socket V c s
      | LIGHT_SOCKET_CONNECT_BIND_COMMAND \<Rightarrow> cmd_connect_bind V c s
      | LIGHT_LISTEN_SOCKET_COMMAND \<Rightarrow> cmd_listen V c s
      | LIGHT_SOCKET_CLOSE_COMMAND \<Rightarrow> cmd_close V c s
      | LIGHT_SOCKET_TX_KICK_COMMAND \<Rightarrow> cmd_tx_kick V c s
      | LIGHT_SOCKET_RX_KICK_COMMAND \<Rightarrow> cmd_rx_kick V c s
      | LIGHT_SET_SOCKET_RING_COMMAND \<Rightarrow> cmd_set_socket_ring V c s
      | LIGHT_SOCKET_TX_POOL_EMPTY_COMMAND \<Rightarrow> cmd_tx_pool_empty V c s
      | LIGHT_ROUTE_ADD_COMMAND \<Rightarrow> cmd_route V True c s
      | LIGHT_ROUTE_DEL_COMMAND \<Rightarrow> cmd_route V False c s
      | LIGHT_CONNECT_CLIENT \<Rightarrow> cmd_connect_client V c s
      | LIGHT_DISCONNECT_CLIENT \<Rightarrow> cmd_disconnect_client c s
      | LIGHT_SETSOCKOPT_COMMAND \<Rightarrow> cmd_setsockopt V c s
      | LIGHT_SOCKET_SHUTDOWN_COMMAND \<Rightarrow> cmd_shutdown V c s
      | LIGHT_SOCKET_DECLINE_COMMAND \<Rightarrow> cmd_decline V c s
      | _ \<Rightarrow> Inr s)"

definition process_command ::
  "'z service_env_scheme services \<Rightarrow> addr \<Rightarrow> 'z service_env_scheme \<Rightarrow> 'z service_env_scheme c_res" where
  "process_command V c s =
     (case cmd (cmd_mem s c) of
        LIGHT_EPOLL_CREATE_COMMAND \<Rightarrow>
          cbind (cmd_epoll_create V c s) (\<lambda>(opened, s1). Inr (if opened then light_free_command_buf c s1 else s1))
      | LIGHT_EPOLL_CLOSE_COMMAND \<Rightarrow> cmd_epoll_close c s
      | _ \<Rightarrow> cbind (cmd_effect V c s) (\<lambda>s1. Inr (light_free_command_buf c s1)))"

fun process_each ::
  "'z service_env_scheme services \<Rightarrow> addr list \<Rightarrow> 'z service_env_scheme \<Rightarrow> 'z service_env_scheme c_res" where
  "process_each V [] s = Inr s"
| "process_each V (c # cs) s = cbind (process_command V c s) (process_each V cs)"

text \<open>
  At most twenty commands per turn, taken from the ring at once into an array of \<open>MAX_CMD_DEQUEUE_NUM\<close>
  pointers; the result of the dequeue is not looked at.  The pointers queued are never NULL, which the
  loop over the array also tests.
\<close>

definition light_dequeue_command_buf_bulk :: "u32 \<Rightarrow> 'z service_env_scheme \<Rightarrow> int \<times> addr list \<times> 'z service_env_scheme" where
  "light_dequeue_command_buf_bulk n s =
     (case sc_do_dequeue (command_rings s (my_proc_id s)) (replicate MAX_CMD_DEQUEUE_NUM 0) n RTE_RING_QUEUE_FIXED of
        (ret, tab, rg) \<Rightarrow>
          (if ret = 0 then 0 else - ENOENT, tab,
           s \<lparr> command_rings := (command_rings s) (my_proc_id s := rg) \<rparr>))"

definition process_commands ::
  "'z service_env_scheme services \<Rightarrow> 'z service_env_scheme \<Rightarrow> 'z service_env_scheme c_res" where
  "process_commands V s =
     (let cmd_n = min (rte_ring_count (command_rings s (my_proc_id s))) 20 in
      case light_dequeue_command_buf_bulk cmd_n s of (_, tab, s1) \<Rightarrow> process_each V (take (unat cmd_n) tab) s1)"

section \<open>The main loop\<close>

text \<open>
  Sockets that waited for buffers are told while there are buffers and their applications take the
  event; the first one that does not ends the loop.
\<close>

definition notify_socket ::
  "'z service_env_scheme services \<Rightarrow> nat \<Rightarrow> nat \<Rightarrow> 'z service_env_scheme \<Rightarrow> (bool \<times> 'z service_env_scheme) c_res" where
  "notify_socket V q k s =
     (case sat_socket (satelites s k) of None \<Rightarrow> Inl BadPointer
      | Some q1 \<Rightarrow>
        cbind (if sock_type (ksocks s q1) = SOCK_DGRAM then set_tx_space V k q1 s else Inr s) (\<lambda>s1.
        cbind (light_mark_writable (sat_ringset_idx (satelites s1 k)) s1) (\<lambda>(ret, s2).
        if ret \<noteq> 0 then Inr (False, s2)
        else cbind (sock_idx (sat_ringset_idx (satelites s2 k))) (\<lambda>i.
             cbind (queue_remove NotifyQ q (upd_sock i (\<lambda>x. x \<lparr> presented_in_chain := 0 \<rparr>) s2)) (\<lambda>s3.
             Inr (True, s3))))))"

partial_function (option) notify_loop ::
  "'z service_env_scheme services \<Rightarrow> 'z service_env_scheme \<Rightarrow> 'z service_env_scheme c_res option" where
  "notify_loop V s =
     (case first_ready NotifyQ s of None \<Rightarrow> Some (Inr s)
      | Some q \<Rightarrow>
        if get_buffer_count s = 0 then Some (Inr s)
        else (case get_user_data q s of None \<Rightarrow> Some (Inr s)
              | Some k \<Rightarrow>
                (case notify_socket V q k s of Inl e \<Rightarrow> Some (Inl e)
                 | Inr (told, s1) \<Rightarrow> if told then notify_loop V s1 else Some (Inr s1))))"

text \<open>One turn of \<open>light_main_loop\<close>.\<close>

definition main_loop_turn ::
  "'z service_env_scheme services \<Rightarrow> ('z service_env_scheme \<Rightarrow> 'z service_env_scheme)
     \<Rightarrow> ('z service_env_scheme \<Rightarrow> 'z service_env_scheme) \<Rightarrow> 'z service_env_scheme \<Rightarrow> 'z service_env_scheme c_res" where
  "main_loop_turn V poll timers s =
     cbind (process_commands V s) (\<lambda>s1.
     cbind (app_glue_periodic (net V) poll timers s1) (\<lambda>s2.
     cbind (loop_res (notify_loop V s2)) (\<lambda>r. r)))"

text \<open>The part of the state that holds the command buffers of the processes.\<close>

definition cmd_part :: "'z stack_env_scheme \<Rightarrow>
    (nat \<Rightarrow> addr rte_mempool) \<times> (nat \<Rightarrow> addr rte_ring) \<times> (addr \<Rightarrow> light_cmd_t) \<times> nat" where
  "cmd_part s = (free_command_pools s, command_rings s, cmd_mem s, my_proc_id s)"

text \<open>What the commands rely on of the network stack: it does not know the command buffers.\<close>

definition net_keeps_cmds :: "'z glue_env_scheme net_stack \<Rightarrow> bool" where
  "net_keeps_cmds K \<longleftrightarrow>
     (\<forall>q s. cmd_part (kernel_close K q s) = cmd_part s \<and> cmd_part (sk_free K q s) = cmd_part s \<and>
        cmd_part (snd (kernel_accept K q s)) = cmd_part s \<and> cmd_part (snd (kernel_recvmsg K q s)) = cmd_part s) \<and>
     (\<forall>fam ty s. cmd_part (snd (sock_create_kern K fam ty s)) = cmd_part s) \<and>
     (\<forall>q lev opt len val s. cmd_part (sock_setsockopt K q lev opt len val s) = cmd_part s) \<and>
     (\<forall>q ip port s. cmd_part (snd (kernel_bind K q ip port s)) = cmd_part s \<and>
        cmd_part (snd (kernel_connect K q ip port s)) = cmd_part s) \<and>
     (\<forall>q n s. cmd_part (snd (kernel_listen K q n s)) = cmd_part s) \<and>
     (\<forall>q n s. cmd_part (snd (kernel_sendpage K q n s)) = cmd_part s) \<and>
     (\<forall>q b m s. cmd_part (snd (udp_sendmsg K q b m s)) = cmd_part s) \<and>
     (\<forall>q how s. cmd_part (inet_shutdown K q how s) = cmd_part s)"

definition services_keep_cmds :: "'z service_env_scheme services \<Rightarrow> bool" where
  "services_keep_cmds V \<longleftrightarrow> net_keeps_cmds (net V) \<and>
     (\<forall>add dst msk hop m s. cmd_part (ip_rt_ioctl V add dst msk hop m s) = cmd_part s) \<and>
     (\<forall>port sip sha cr st ov s. cmd_part (process_arp_command V port sip sha cr st ov s) = cmd_part s)"

text \<open>A command whose buffer is not returned: the close of an epoll object.\<close>

definition epoll_close_cmd :: "'z cmd_env_scheme \<Rightarrow> addr \<Rightarrow> bool" where
  "epoll_close_cmd s c \<longleftrightarrow> cmd (cmd_mem s c) = LIGHT_EPOLL_CLOSE_COMMAND"

text \<open>What the stack process does between two polls of an application: one round of commands.\<close>

definition serve_commands :: "'z service_env_scheme services \<Rightarrow> 'z service_env_scheme \<Rightarrow> 'z service_env_scheme" where
  "serve_commands V s = (case process_commands V s of Inr t \<Rightarrow> t | Inl _ \<Rightarrow> s)"

text \<open>The answer to a bind of the socket \<open>q\<close>: a number, and a change of the state of the network stack only.\<close>

definition bind_gives :: "'z service_env_scheme services \<Rightarrow> nat \<Rightarrow> u32 \<Rightarrow> u16 \<Rightarrow> int \<Rightarrow> bool" where
  "bind_gives V q ip port rv \<longleftrightarrow>
     (\<forall>s. \<exists>z. kernel_bind (net V) q ip port s = (rv, service_env.more_update (\<lambda>_. z) s))"

text \<open>Services over an idle network stack, and a stack process with two commands waiting, for concrete runs.\<close>

definition idle_services :: "'s services" where
  "idle_services = \<lparr> net = idle_net, ip_rt_ioctl = (\<lambda>_ _ _ _ _ s. s), process_arp_command = (\<lambda>_ _ _ _ _ _ s. s),
     all_devices = (\<lambda>_. []), all_addresses = (\<lambda>_. []), open_fifo = (\<lambda>_ _ _. 0), random_ports = (\<lambda>_. 0) \<rparr>"

definition demo_service :: service_env where
  "demo_service = glue_env.extend (demo_glue ())
     \<lparr> client_rings = (\<lambda>_. ring_of 1 0 []), client_busy = (\<lambda>_. False),
       clients_list = \<lparr> tqh_first = (\<lambda>_. None), tqh_last = TqHead, tqe_next = (\<lambda>_. None), tqe_prev = (\<lambda>_. TqNull) \<rparr>,
       mbufs_mempool = pool_of 1 0 [] \<rparr>"

definition demo_busy :: service_env where
  "demo_busy = demo_service \<lparr> command_rings := (\<lambda>_. ring_of 2 0 [4, 5]), free_command_pools := (\<lambda>_. pool_of 4 0 [6, 7]),
     cmd_mem := (\<lambda>c. if c = 4 then \<lparr> cmd = LIGHT_ADD_ARP_COMMAND, ringset_idx = 0, parent_idx = 0, res = None, u = add_arp 0 1 [] 0 0 0 \<rparr>
       else \<lparr> cmd = LIGHT_EPOLL_CLOSE_COMMAND, ringset_idx = 5, parent_idx = 0, res = None, u = epoll_close_args 5 0 \<rparr>) \<rparr>"

section \<open>Lemmas\<close>

lemma cmd_part_upds [simp]:
  "cmd_part (upd_ksock q f s) = cmd_part s" "cmd_part (upd_sat k g s) = cmd_part s" "cmd_part (upd_ready w h s) = cmd_part s"
  "cmd_part (set_present w q b s) = cmd_part s" "cmd_part (sock_hold q s) = cmd_part s"
  "cmd_part (set_glue_callbacks q s) = cmd_part s" "cmd_part (reset_callbacks q s) = cmd_part s"
  by (simp_all add: cmd_part_def upd_ksock_def upd_sat_def upd_ready_def set_present_def sock_hold_def set_glue_callbacks_def
      reset_callbacks_def)

lemma cmd_part_shared [simp]:
  "cmd_part (upd_sock i f s) = cmd_part s" "cmd_part (upd_desc i g s) = cmd_part s" "cmd_part (upd_mbuf a h s) = cmd_part s"
  "cmd_part (write_ret r v s) = cmd_part s" "cmd_part (put_connection i s) = cmd_part s" "cmd_part (real_close fd s) = cmd_part s"
  "cmd_part (upd_epoll e x s) = cmd_part s" "cmd_part (user_set_socket_tx_space i n s) = cmd_part s"
  "cmd_part (s \<lparr> apppid := p \<rparr>) = cmd_part s" "cmd_part (s \<lparr> mbufs := m \<rparr>) = cmd_part s"
  "cmd_part (s \<lparr> descs := d \<rparr>) = cmd_part s" "cmd_part (s \<lparr> released := l \<rparr>) = cmd_part s"
  by (simp_all add: cmd_part_def upd_sock_def upd_desc_def upd_mbuf_def write_ret_def put_connection_def real_close_def
      upd_epoll_def user_set_socket_tx_space_def)

lemma cmd_part_glue [simp]:
  "cmd_part (s \<lparr> read_sockets_queue_len := n \<rparr>) = cmd_part s" "cmd_part (s \<lparr> write_sockets_queue_len := n \<rparr>) = cmd_part s"
  by (simp_all add: cmd_part_def)

lemma cmd_part_service [simp]:
  "cmd_part (s \<lparr> client_rings := a \<rparr>) = cmd_part s" "cmd_part (s \<lparr> clients_list := l, client_busy := b \<rparr>) = cmd_part s"
  "cmd_part (s \<lparr> mbufs_mempool := mp \<rparr>) = cmd_part s"
  by (simp_all add: cmd_part_def)

lemma cmd_part_ev: "ev_frame s t \<Longrightarrow> cmd_part t = cmd_part s"
  using ev_frame_fields [of s t] by (simp add: cmd_part_def)

lemma net_keeps:
  assumes "net_keeps_cmds K"
  shows "cmd_part (kernel_close K q s) = cmd_part s" "cmd_part (sk_free K q s) = cmd_part s"
    "kernel_accept K q s = (r, t) \<Longrightarrow> cmd_part t = cmd_part s" "kernel_recvmsg K q s = (m, t) \<Longrightarrow> cmd_part t = cmd_part s"
    "sock_create_kern K fam ty s = (x, t) \<Longrightarrow> cmd_part t = cmd_part s"
    "cmd_part (sock_setsockopt K q lev opt len val s) = cmd_part s"
    "kernel_bind K q ip port s = (n, t) \<Longrightarrow> cmd_part t = cmd_part s" "kernel_connect K q ip port s = (n, t) \<Longrightarrow> cmd_part t = cmd_part s"
    "kernel_listen K q bl s = (n, t) \<Longrightarrow> cmd_part t = cmd_part s" "kernel_sendpage K q sz s = (n, t) \<Longrightarrow> cmd_part t = cmd_part s"
    "udp_sendmsg K q b a s = (n, t) \<Longrightarrow> cmd_part t = cmd_part s" "cmd_part (inet_shutdown K q how s) = cmd_part s"
  using assms unfolding net_keeps_cmds_def by (metis snd_conv)+

lemma get_event_info_ev: "get_event_info s = (r, t) \<Longrightarrow> ev_frame s t"
  by (auto simp: get_event_info_def split: prod.splits if_splits)

lemma queue_on_frame:
  assumes run: "queue_on k ev s = Inr (r, t)"
  shows "ev_frame s t"
proof -
  obtain p s1 where p: "pick_node k s = (p, s1)" by (rule prod.exhaust)
  have f1: "ev_frame s s1" using pick_node_frame [OF p] by simp
  obtain g s2 where g: "get_event_info s1 = (g, s2)" by (rule prod.exhaust)
  have f2: "ev_frame s s2" by (rule ev_frame_trans [OF f1 get_event_info_ev [OF g]])
  have f4: "ev_frame s (upd_epoll e f (s2 \<lparr> event_infos := ei \<rparr>))" for e f ei
    by (rule ev_frame_trans [OF ev_frame_trans [OF f2 ev_frame_upds(3)] ev_frame_upds(4)])
  have f5: "ev_frame s (put_event_info a (upd_epoll e f (s2 \<lparr> event_infos := ei \<rparr>)))" for a e f ei
    by (rule ev_frame_trans [OF f4 ev_frame_upds(7)])
  show ?thesis
    using run p g f1 f2 f4 f5
    by (auto simp: queue_on_def cbind_Inr_iff Let_def split: option.splits if_splits prod.splits)
qed

lemma queue_event_frame: "queue_event i ev s = Inr (r, t) \<Longrightarrow> ev_frame s t"
  by (auto simp: queue_event_def cbind_Inr_iff dest: queue_on_frame)

lemma mark_event_frame:
  assumes "mark_event k o' e ev s = Inr t"
  shows "ev_frame s t"
proof -
  have "ev_frame s (upd_node o' f (s \<lparr> fifo_writes := fw \<rparr>))" for f fw
    by (rule ev_frame_trans [OF ev_frame_upds(6) ev_frame_upds(5)])
  then show ?thesis using assms by (auto simp: mark_event_def cbind_Inr_iff split: if_splits)
qed

lemma add_event_frame:
  assumes "add_epoll_event_to_queue i ev s = Inr (r, t)"
  shows "ev_frame s t"
proof -
  obtain x s1 where x: "queue_event i ev s = Inr (x, s1)"
    "(case x of NotQueued \<Rightarrow> Inr (- 1, s1) | Queued k o' e \<Rightarrow> cbind (mark_event k o' e ev s1) (\<lambda>s2. Inr (0, s2))) = Inr (r, t)"
    using assms by (auto simp: add_epoll_event_to_queue_def cbind_Inr_iff)
  have "ev_frame s s1" by (rule queue_event_frame [OF x(1)])
  then show ?thesis
    using x(2) by (cases x) (auto simp: cbind_Inr_iff dest!: mark_event_frame intro: ev_frame_trans)
qed

lemma mark_frames:
  "light_mark_readable i s = Inr t \<Longrightarrow> cmd_part t = cmd_part s"
  "light_mark_writable i s = Inr (r, t) \<Longrightarrow> cmd_part t = cmd_part s"
  by (auto simp: light_mark_readable_def light_mark_writable_def cbind_Inr_iff dest!: add_event_frame cmd_part_ev)

text \<open>Freeing buffers changes the buffers only.\<close>

lemma free_mbuf_frame:
  fixes s :: "'z app_env_scheme"
  shows "\<exists>h l. free_mbuf a s = s \<lparr> mbufs := h, released := l \<rparr>"
proof -
  have "\<exists>h l. s \<lparr> mbufs := h0 \<rparr> = s \<lparr> mbufs := h, released := l \<rparr>" for h0
    by (rule exI [of _ h0], rule exI [of _ "released s"]) simp
  then show ?thesis
    by (auto simp: free_mbuf_def pktmbuf_prefree_seg_def upd_mbuf_def Let_def)
qed

lemma rte_pktmbuf_free_frame:
  fixes s :: "'z app_env_scheme"
  assumes "rte_pktmbuf_free m s = Some t"
  shows "\<exists>h l. t = s \<lparr> mbufs := h, released := l \<rparr>"
proof (rule rte_pktmbuf_free.raw_induct [where P = "\<lambda>m s t. \<exists>h l. t = s \<lparr> mbufs := h, released := l \<rparr>", OF _ assms])
  fix f :: "addr option \<Rightarrow> 'z app_env_scheme \<Rightarrow> 'z app_env_scheme option" and m s t
  assume IH: "\<And>m s t. f m s = Some t \<Longrightarrow> \<exists>h l. t = s \<lparr> mbufs := h, released := l \<rparr>"
    and run: "(case m of None \<Rightarrow> Some s | Some a \<Rightarrow> f (next_seg (mbufs s a)) (free_mbuf a s)) = Some t"
  show "\<exists>h l. t = s \<lparr> mbufs := h, released := l \<rparr>"
  proof (cases m)
    case None
    then show ?thesis using run by (intro exI [of _ "mbufs s"] exI [of _ "released s"]) simp
  next
    case (Some a)
    obtain h l where "free_mbuf a s = s \<lparr> mbufs := h, released := l \<rparr>" using free_mbuf_frame by blast
    then show ?thesis using IH run Some by fastforce
  qed
qed

lemma loop_res_Inr [simp]: "loop_res r = Inr x \<longleftrightarrow> r = Some x"
  by (cases r) (simp_all add: loop_res_def)

lemma free_keeps: "rte_pktmbuf_free m s = Some t \<Longrightarrow> cmd_part t = cmd_part s"
  by (auto dest!: rte_pktmbuf_free_frame)

lemma free_all_keeps: "free_all ms s = Inr t \<Longrightarrow> cmd_part t = cmd_part s"
  by (induction ms arbitrary: s) (auto simp: cbind_Inr_iff dest!: free_keeps)

lemma flush_cache_frame:
  fixes s :: "'z app_env_scheme"
  assumes "flush_cache k s = Some t"
  shows "\<exists>d h l. t = s \<lparr> descs := d, mbufs := h, released := l \<rparr>"
proof (rule flush_cache.raw_induct [where P = "\<lambda>k s t. \<exists>d h l. t = s \<lparr> descs := d, mbufs := h, released := l \<rparr>", OF _ assms])
  fix f :: "nat \<Rightarrow> 'z app_env_scheme \<Rightarrow> 'z app_env_scheme option" and k s t
  assume IH: "\<And>k s t. f k s = Some t \<Longrightarrow> \<exists>d h l. t = s \<lparr> descs := d, mbufs := h, released := l \<rparr>"
    and run: "(case rte_ring_dequeue (rx_ring (descs s k)) 0 of (ret, m, rg) \<Rightarrow>
        if ret \<noteq> 0 then Some s
        else (case rte_pktmbuf_free (Some m) (upd_desc k (\<lambda>d. d \<lparr> rx_ring := rg \<rparr>) s) of
                None \<Rightarrow> None | Some s1 \<Rightarrow> f k s1)) = Some t"
  obtain ret m rg where rg: "rte_ring_dequeue (rx_ring (descs s k)) 0 = (ret, m, rg)" by (rule prod_cases3)
  show "\<exists>d h l. t = s \<lparr> descs := d, mbufs := h, released := l \<rparr>"
  proof (cases "ret = 0")
    case False
    then show ?thesis
      using run rg by (intro exI [of _ "descs s"] exI [of _ "mbufs s"] exI [of _ "released s"]) simp
  next
    case True
    let ?s = "upd_desc k (\<lambda>d. d \<lparr> rx_ring := rg \<rparr>) s"
    obtain s1 where s1: "rte_pktmbuf_free (Some m) ?s = Some s1" "f k s1 = Some t"
      using run rg True by (auto split: option.splits)
    obtain h l where "s1 = ?s \<lparr> mbufs := h, released := l \<rparr>" using rte_pktmbuf_free_frame [OF s1(1)] by blast
    then have e: "s1 = s \<lparr> descs := (descs s) (k := (descs s k) \<lparr> rx_ring := rg \<rparr>), mbufs := h, released := l \<rparr>"
      by (simp add: upd_desc_def)
    obtain d h' l' where "t = s1 \<lparr> descs := d, mbufs := h', released := l' \<rparr>" using IH [OF s1(2)] by blast
    then show ?thesis using e by (intro exI [of _ d] exI [of _ h'] exI [of _ l']) simp
  qed
qed

lemma flush_tx_keeps:
  fixes s :: "'z glue_env_scheme"
  assumes "flush_tx_ring k s = Some t"
  shows "cmd_part t = cmd_part s"
proof (rule flush_tx_ring.raw_induct [where P = "\<lambda>k s t. cmd_part t = cmd_part s", OF _ assms])
  fix f :: "nat \<Rightarrow> 'z glue_env_scheme \<Rightarrow> 'z glue_env_scheme option" and k s t
  assume IH: "\<And>k s t. f k s = Some t \<Longrightarrow> cmd_part t = cmd_part s"
    and run: "(case light_dequeue_tx_buf k s of (None, s1) \<Rightarrow> Some s1
      | (Some m, s1) \<Rightarrow> (case rte_pktmbuf_free (Some m) s1 of None \<Rightarrow> None | Some s2 \<Rightarrow> f k s2)) = Some t"
  have "light_dequeue_tx_buf k s = (r, s1) \<Longrightarrow> cmd_part s1 = cmd_part s" for r s1
    by (auto simp: light_dequeue_tx_buf_def split: prod.splits if_splits)
  then show "cmd_part t = cmd_part s"
    using run by (auto split: prod.splits option.splits dest!: IH free_keeps)
qed

lemma user_flush_keeps:
  "user_flush_rx q s = Inr t \<Longrightarrow> cmd_part t = cmd_part s" "user_flush_tx q s = Inr t \<Longrightarrow> cmd_part t = cmd_part s"
  "user_flush_rx_tx q s = Inr t \<Longrightarrow> cmd_part t = cmd_part s"
proof -
  show rx: "user_flush_rx q s = Inr t \<Longrightarrow> cmd_part t = cmd_part s" for t
    by (auto simp: user_flush_rx_def split: option.splits dest!: flush_cache_frame)
  show tx: "user_flush_tx q s = Inr t \<Longrightarrow> cmd_part t = cmd_part s" for s
    by (auto simp: user_flush_tx_def split: option.splits dest!: flush_tx_keeps)
  show "user_flush_rx_tx q s = Inr t \<Longrightarrow> cmd_part t = cmd_part s"
    by (auto simp: user_flush_rx_tx_def cbind_Inr_iff dest!: rx tx)
qed

lemma send_pages_keeps:
  fixes s :: "'z glue_env_scheme"
  assumes K: "net_keeps_cmds K" and run: "send_pages K q s = Some t"
  shows "cmd_part t = cmd_part s"
proof (rule send_pages.raw_induct [where P = "\<lambda>K q s t. net_keeps_cmds K \<longrightarrow> cmd_part t = cmd_part s", THEN mp, OF _ run K])
  fix f :: "'z glue_env_scheme net_stack \<Rightarrow> nat \<Rightarrow> 'z glue_env_scheme \<Rightarrow> 'z glue_env_scheme option" and K q s t
  assume IH: "\<And>K q s t. f K q s = Some t \<Longrightarrow> net_keeps_cmds K \<longrightarrow> cmd_part t = cmd_part s"
    and run: "(if sk_stream_wspace K q s > 0
      then case kernel_sendpage K q (sk_stream_wspace K q s) s of (i, s1) \<Rightarrow>
             if i \<le> 0 then Some s1 else f K q s1
      else Some s) = Some t"
  show "net_keeps_cmds K \<longrightarrow> cmd_part t = cmd_part s"
    using run by (auto split: prod.splits if_splits dest!: IH dest: net_keeps)
qed

lemma send_dgrams_keeps:
  assumes K: "net_keeps_cmds K"
  shows "send_dgrams K q named ms s = Inr (b, t) \<Longrightarrow> cmd_part t = cmd_part s"
proof (induction ms arbitrary: s)
  case (Cons m ms)
  obtain rc s1 where s1: "udp_sendmsg K q named m s = (rc, s1)" by (rule prod.exhaust)
  have "cmd_part s1 = cmd_part s" by (rule net_keeps(11) [OF K s1])
  then show ?case
    using Cons s1 by (auto simp: cbind_Inr_iff split: if_splits dest!: free_keeps free_all_keeps)
qed simp

lemma dgram_loop_keeps:
  fixes s :: "'z glue_env_scheme"
  assumes K: "net_keeps_cmds K" and run: "dgram_loop K q k s = Some (Inr (b, t))"
  shows "cmd_part t = cmd_part s"
proof (rule dgram_loop.raw_induct [where P = "\<lambda>K q k s r. net_keeps_cmds K \<longrightarrow> (\<forall>b t. r = Inr (b, t) \<longrightarrow> cmd_part t = cmd_part s)",
      THEN mp, THEN spec, THEN spec, THEN mp, OF _ run K refl])
  fix f :: "'z glue_env_scheme net_stack \<Rightarrow> nat \<Rightarrow> nat \<Rightarrow> 'z glue_env_scheme \<Rightarrow> (bool \<times> 'z glue_env_scheme) c_res option" and K q k s r
  assume IH: "\<And>K q k s r. f K q k s = Some r \<Longrightarrow> net_keeps_cmds K \<longrightarrow> (\<forall>b t. r = Inr (b, t) \<longrightarrow> cmd_part t = cmd_part s)"
    and run: "(case light_tx_buf_count k s of Inl e \<Rightarrow> Some (Inl e)
      | Inr (n, s1) \<Rightarrow>
        if n = 0 then Some (Inr (False, s1))
        else case light_dequeue_tx_buf_burst k n s1 of (ms, s2) \<Rightarrow>
          (case send_dgrams K q (sk_state (ksocks s2 q) \<noteq> TCP_ESTABLISHED) ms s2 of Inl e \<Rightarrow> Some (Inl e)
           | Inr (exhausted, s3) \<Rightarrow>
             if ms \<noteq> [] \<and> \<not> exhausted then f K q k s3 else Some (Inr (exhausted, s3)))) = Some r"
  have cnt: "light_tx_buf_count k s = Inr (n, s1) \<Longrightarrow> cmd_part s1 = cmd_part s" for n s1
    by (auto simp: light_tx_buf_count_def cbind_Inr_iff)
  have deq: "light_dequeue_tx_buf_burst k n s1 = (ms, s2) \<Longrightarrow> cmd_part s2 = cmd_part s1" for n s1 ms s2
    by (auto simp: light_dequeue_tx_buf_burst_def split: prod.splits)
  show "net_keeps_cmds K \<longrightarrow> (\<forall>b t. r = Inr (b, t) \<longrightarrow> cmd_part t = cmd_part s)"
  proof
    assume K: "net_keeps_cmds K"
    show "\<forall>b t. r = Inr (b, t) \<longrightarrow> cmd_part t = cmd_part s"
      using run K by (auto split: sum.splits prod.splits if_splits dest!: cnt deq send_dgrams_keeps [OF K] IH)
  qed
qed

lemma need_sk_Inr [simp]: "need_sk q s = Inr t \<longleftrightarrow> has_sk (ksocks s q) \<and> t = s"
  by (auto simp: need_sk_def)

lemma transmission_keeps:
  assumes K: "net_keeps_cmds K"
  shows "user_on_transmission_opportunity K q s = Inr t \<Longrightarrow> cmd_part t = cmd_part s"
  by (auto simp: user_on_transmission_opportunity_def light_tx_buf_count_def Let_def cbind_Inr_iff
      split: option.splits if_splits dest!: send_pages_keeps [OF K] dgram_loop_keeps [OF K] mark_frames)

lemma submit_keeps: "light_submit_rx_buf m k s = Inr (r, t) \<Longrightarrow> cmd_part t = cmd_part s"
  by (auto simp: light_submit_rx_buf_def cbind_Inr_iff split: prod.splits if_splits dest!: mark_frames)

lemma recv_loop_keeps:
  fixes s :: "'z glue_env_scheme"
  assumes K: "net_keeps_cmds K" and run: "recv_loop K q k n s = Some (Inr t)"
  shows "cmd_part t = cmd_part s"
proof (rule recv_loop.raw_induct [where P = "\<lambda>K q k n s r. net_keeps_cmds K \<longrightarrow> (\<forall>t. r = Inr t \<longrightarrow> cmd_part t = cmd_part s)",
      THEN mp, THEN spec, THEN mp, OF _ run K refl])
  fix f :: "'z glue_env_scheme net_stack \<Rightarrow> nat \<Rightarrow> nat \<Rightarrow> int \<Rightarrow> 'z glue_env_scheme \<Rightarrow> 'z glue_env_scheme c_res option"
    and K q k ring_free s r
  assume IH: "\<And>K q k n s r. f K q k n s = Some r \<Longrightarrow> net_keeps_cmds K \<longrightarrow> (\<forall>t. r = Inr t \<longrightarrow> cmd_part t = cmd_part s)"
    and run: "(if ring_free \<le> 0 then Some (Inr s)
      else case kernel_recvmsg K q s of
        (None, s1) \<Rightarrow> Some (Inr s1)
      | (Some (None, _), s1) \<Rightarrow> Some (Inl BadPointer)
      | (Some (Some m, peer), s1) \<Rightarrow>
          (case (if sock_type (ksocks s1 q) = SOCK_DGRAM \<or> sock_type (ksocks s1 q) = SOCK_RAW
                 then store_before m peer s1 else Inr s1) of
             Inl e \<Rightarrow> Some (Inl e)
           | Inr s2 \<Rightarrow>
             (case light_submit_rx_buf m k s2 of Inl e \<Rightarrow> Some (Inl e)
              | Inr (rc, s3) \<Rightarrow>
                if rc \<noteq> 0
                then Some (loop_res (rte_pktmbuf_free (Some m) s3))
                else f K q k ring_free s3))) = Some r"
  have st: "store_before m peer s1 = Inr s2 \<Longrightarrow> cmd_part s2 = cmd_part s1" for m peer s1 s2
    by (auto simp: store_before_def Let_def split: if_splits)
  show "net_keeps_cmds K \<longrightarrow> (\<forall>t. r = Inr t \<longrightarrow> cmd_part t = cmd_part s)"
  proof
    assume K: "net_keeps_cmds K"
    obtain o1 s1 where o1: "kernel_recvmsg K q s = (o1, s1)" by (rule prod.exhaust)
    have c1: "cmd_part s1 = cmd_part s" by (rule net_keeps(4) [OF K o1])
    show "\<forall>t. r = Inr t \<longrightarrow> cmd_part t = cmd_part s"
      using run o1 c1 K by (auto split: option.splits sum.splits prod.splits if_split_asm dest!: submit_keeps free_keeps IH st)
  qed
qed

lemma data_available_keeps:
  assumes K: "net_keeps_cmds K"
  shows "user_data_available_cbk K q s = Inr t \<Longrightarrow> cmd_part t = cmd_part s"
  by (auto simp: user_data_available_cbk_def cbind_Inr_iff split: option.splits if_splits dest!: recv_loop_keeps [OF K])

lemma queue_keeps:
  "queue_insert w q s = Inr t \<Longrightarrow> cmd_part t = cmd_part s" "queue_remove w q s = Inr t \<Longrightarrow> cmd_part t = cmd_part s"
  by (auto simp: queue_insert_def queue_remove_def cbind_Inr_iff)

lemma sock_put_keeps:
  assumes K: "net_keeps_cmds K"
  shows "sock_put K q s = Inr t \<Longrightarrow> cmd_part t = cmd_part s"
  by (auto simp: sock_put_def Let_def cbind_Inr_iff net_keeps [OF K] split: if_splits)

lemma close_pending_keeps:
  fixes s :: "'z glue_env_scheme"
  assumes K: "net_keeps_cmds K" and run: "close_pending K q s = Some t"
  shows "cmd_part t = cmd_part s"
proof (rule close_pending.raw_induct [where P = "\<lambda>K q s t. net_keeps_cmds K \<longrightarrow> cmd_part t = cmd_part s", THEN mp, OF _ run K])
  fix f :: "'z glue_env_scheme net_stack \<Rightarrow> nat \<Rightarrow> 'z glue_env_scheme \<Rightarrow> 'z glue_env_scheme option" and K q s t
  assume IH: "\<And>K q s t. f K q s = Some t \<Longrightarrow> net_keeps_cmds K \<longrightarrow> cmd_part t = cmd_part s"
    and run: "(case kernel_accept K q s of (None, s1) \<Rightarrow> Some s1
      | (Some (n, _, _), s1) \<Rightarrow> f K q (kernel_close K n s1)) = Some t"
  show "net_keeps_cmds K \<longrightarrow> cmd_part t = cmd_part s"
  proof
    assume K: "net_keeps_cmds K"
    show "cmd_part t = cmd_part s"
      using run K by (auto simp: net_keeps(1) [OF K] split: prod.splits option.splits dest!: net_keeps(3) [OF K] IH)
  qed
qed

lemma close_socket_keeps:
  assumes K: "net_keeps_cmds K"
  shows "app_glue_close_socket K q s = Inr t \<Longrightarrow> cmd_part t = cmd_part s"
proof -
  have r: "leave_read q s = Inr t \<Longrightarrow> cmd_part t = cmd_part s" for s t
    by (auto simp: leave_read_def cbind_Inr_iff split: if_splits dest!: queue_keeps)
  have w: "leave_write K q s = Inr t \<Longrightarrow> cmd_part t = cmd_part s" for s t
    by (auto simp: leave_write_def cbind_Inr_iff split: if_splits dest!: queue_keeps sock_put_keeps [OF K])
  have a: "leave_accept K q s = Inr t \<Longrightarrow> cmd_part t = cmd_part s" for s t
    by (auto simp: leave_accept_def cbind_Inr_iff split: if_splits
        dest!: queue_keeps sock_put_keeps [OF K] close_pending_keeps [OF K])
  have c: "leave_closed q s = Inr t \<Longrightarrow> cmd_part t = cmd_part s" for s t
    by (auto simp: leave_closed_def split: if_splits dest!: queue_keeps)
  show "app_glue_close_socket K q s = Inr t \<Longrightarrow> cmd_part t = cmd_part s"
    by (auto simp: app_glue_close_socket_def cbind_Inr_iff net_keeps(1) [OF K] dest!: r w a c)
qed

lemma write_space_keeps: "app_glue_sock_write_space K x s = Inr t \<Longrightarrow> cmd_part t = cmd_part s"
  by (auto simp: app_glue_sock_write_space_def Let_def cbind_Inr_iff split: option.splits if_splits dest!: queue_keeps)

lemma create_socket_keeps:
  assumes K: "net_keeps_cmds K"
  shows "app_glue_create_socket K fam ty s = Inr (r, t) \<Longrightarrow> cmd_part t = cmd_part s"
  by (auto simp: app_glue_create_socket_def Let_def cbind_Inr_iff net_keeps(6) [OF K]
      split: prod.splits option.splits if_splits dest!: net_keeps(5) [OF K] write_space_keeps)

lemma bind_random_keeps:
  fixes s :: "'z glue_env_scheme"
  assumes K: "net_keeps_cmds K" and run: "bind_random K ports n q s = Some t"
  shows "cmd_part t = cmd_part s"
proof (rule bind_random.raw_induct [where P = "\<lambda>K ports n q s t. net_keeps_cmds K \<longrightarrow> cmd_part t = cmd_part s",
      THEN mp, OF _ run K])
  fix f :: "'z glue_env_scheme net_stack \<Rightarrow> (nat \<Rightarrow> u16) \<Rightarrow> nat \<Rightarrow> nat \<Rightarrow> 'z glue_env_scheme \<Rightarrow> 'z glue_env_scheme option" and K ports n q s t
  assume IH: "\<And>K ports n q s t. f K ports n q s = Some t \<Longrightarrow> net_keeps_cmds K \<longrightarrow> cmd_part t = cmd_part s"
    and run: "(if inet_num K q s \<noteq> 0 then Some s
      else case kernel_bind K q 0 (ports n) s of (rc, s1) \<Rightarrow>
        if rc \<noteq> 0 then f K ports (Suc n) q s1 else Some s1) = Some t"
  show "net_keeps_cmds K \<longrightarrow> cmd_part t = cmd_part s"
    using run by (auto split: prod.splits if_splits dest!: IH dest: net_keeps(7))
qed

lemma note_connect_keeps: "note_connect q rv s = Inr t \<Longrightarrow> cmd_part t = cmd_part s"
  by (auto simp: note_connect_def cbind_Inr_iff split: option.splits)

lemma connect_keeps:
  assumes K: "net_keeps_cmds K" and run: "app_glue_v4_connect K ports q ip port s = Inr (r, t)"
  shows "cmd_part t = cmd_part s"
proof (cases "has_sk (ksocks s q)")
  case True
  obtain s1 where s1: "bind_random K ports 0 q s = Some s1"
    using run True by (cases "bind_random K ports 0 q s") (auto simp: app_glue_v4_connect_def loop_res_def)
  define s2 where "s2 = (if has_sk (ksocks s1 q) then upd_ksock q (\<lambda>x. x \<lparr> sk_state_change := app_glue \<rparr>) s1 else s1)"
  obtain rv s3 where s3: "kernel_connect K q ip port s2 = (rv, s3)" by (rule prod.exhaust)
  have "cbind (need_sk q s3) (\<lambda>s3. cbind (note_connect q rv s3) (\<lambda>s4. Inr (rv, s4))) = Inr (r, t)"
    using run True s1 s3 by (simp add: app_glue_v4_connect_def s2_def [symmetric])
  then have "cmd_part t = cmd_part s3" by (auto simp: cbind_Inr_iff dest!: note_connect_keeps)
  also have "\<dots> = cmd_part s2" by (rule net_keeps(8) [OF K s3])
  also have "\<dots> = cmd_part s" using bind_random_keeps [OF K s1] by (simp add: s2_def)
  finally show ?thesis .
qed (use run in \<open>simp add: app_glue_v4_connect_def\<close>)

lemma listen_keeps:
  assumes K: "net_keeps_cmds K"
  shows "app_glue_v4_listen K q n s = Inr (r, t) \<Longrightarrow> cmd_part t = cmd_part s"
  by (auto simp: app_glue_v4_listen_def split: prod.splits if_splits dest!: net_keeps(9) [OF K])

lemma answer_keeps: "answer c f s = Inr t \<Longrightarrow> cmd_part t = cmd_part s"
  by (auto simp: answer_def split: option.splits)

lemma set_tx_space_keeps: "set_tx_space V k q s = Inr t \<Longrightarrow> cmd_part t = cmd_part s"
  by (auto simp: set_tx_space_def cbind_Inr_iff)

lemma set_user_data_keeps: "app_glue_set_user_data q d s = Inr t \<Longrightarrow> cmd_part t = cmd_part s"
  by (auto simp: app_glue_set_user_data_def cbind_Inr_iff)

lemma write_data_keeps: "write_data a bs s = Inr t \<Longrightarrow> cmd_part t = cmd_part s"
  by (auto simp: write_data_def Let_def split: if_splits)

lemma send_record_keeps: "send_record i kind p s = Inr (b, t) \<Longrightarrow> cmd_part t = cmd_part s"
  by (auto simp: send_record_def get_buffer_def Let_def cbind_Inr_iff split: prod.splits option.splits if_splits
      dest!: write_data_keeps)

lemma client_connect_keeps: "on_client_connect V i s = Inr t \<Longrightarrow> cmd_part t = cmd_part s"
  by (auto simp: on_client_connect_def cbind_Inr_iff split: if_splits dest!: send_record_keeps)

lemma drop_socket_keeps:
  assumes K: "net_keeps_cmds (net V)"
  shows "drop_socket V k q s = Inr t \<Longrightarrow> cmd_part t = cmd_part s"
  by (auto simp: drop_socket_def light_free_socket_def cbind_Inr_iff dest!: user_flush_keeps close_socket_keeps [OF K])

lemma cmd_open_socket_keeps:
  assumes K: "net_keeps_cmds (net V)"
  shows "cmd_open_socket V c s = Inr t \<Longrightarrow> cmd_part t = cmd_part s"
  by (cases "u (cmd_mem s c)") (auto simp: cmd_open_socket_def Let_def cbind_Inr_iff split: option.splits
      dest!: create_socket_keeps [OF K] set_user_data_keeps set_tx_space_keeps answer_keeps)

lemma cmd_connect_bind_keeps:
  assumes K: "net_keeps_cmds (net V)" and run: "cmd_connect_bind V c s = Inr t"
  shows "cmd_part t = cmd_part s"
proof -
  obtain k sock where k: "cmd_sat c s = Inr (k, sock)" using run by (auto simp: cmd_connect_bind_def cbind_Inr_iff)
  show ?thesis
  proof (cases sock)
    case None
    then show ?thesis using run k by (auto simp: cmd_connect_bind_def dest!: answer_keeps)
  next
    case (Some q)
    obtain ip port con where u: "u (cmd_mem s c) = socket_connect_bind ip port con"
      using run k Some by (cases "u (cmd_mem s c)") (auto simp: cmd_connect_bind_def)
    show ?thesis
    proof (cases "con = 0")
      case True
      obtain rv s1 where b: "kernel_bind (net V) q ip port s = (rv, s1)" by (rule prod.exhaust)
      show ?thesis
        using run k Some u True b net_keeps(7) [OF K b] by (auto simp: cmd_connect_bind_def app_glue_v4_bind_def dest!: answer_keeps)
    next
      case False
      obtain rv s1 where b: "app_glue_v4_connect (net V) (random_ports V) q ip port s = Inr (rv, s1)"
        using run k Some u False by (auto simp: cmd_connect_bind_def cbind_Inr_iff)
      obtain a p where n: "inet_getname (net V) q s1 = (a, p)" by (rule prod.exhaust)
      show ?thesis
        using run k Some u False b n connect_keeps [OF K b]
        by (auto simp: cmd_connect_bind_def dest!: answer_keeps split: if_splits)
    qed
  qed
qed

lemma cmd_simple_keeps:
  assumes K: "net_keeps_cmds (net V)"
  shows "cmd_listen V c s = Inr t \<Longrightarrow> cmd_part t = cmd_part s" "cmd_close V c s = Inr t \<Longrightarrow> cmd_part t = cmd_part s"
    "cmd_tx_kick V c s = Inr t \<Longrightarrow> cmd_part t = cmd_part s" "cmd_rx_kick V c s = Inr t \<Longrightarrow> cmd_part t = cmd_part s"
    "cmd_decline V c s = Inr t \<Longrightarrow> cmd_part t = cmd_part s" "cmd_setsockopt V c s = Inr t \<Longrightarrow> cmd_part t = cmd_part s"
    "cmd_tx_pool_empty V c s = Inr t \<Longrightarrow> cmd_part t = cmd_part s"
    "cmd_connect_client V c s = Inr t \<Longrightarrow> cmd_part t = cmd_part s" "cmd_disconnect_client c s = Inr t \<Longrightarrow> cmd_part t = cmd_part s"
  by ((cases "u (cmd_mem s c)"; auto simp: cmd_listen_def cmd_close_def cmd_tx_kick_def cmd_rx_kick_def cmd_decline_def cmd_setsockopt_def
      cmd_tx_pool_empty_def cmd_connect_client_def cmd_disconnect_client_def cmd_sat_def cbind_Inr_iff net_keeps(6) [OF K]
      split: option.splits if_splits
      dest!: listen_keeps [OF K] drop_socket_keeps [OF K] transmission_keeps [OF K] data_available_keeps [OF K]
        user_flush_keeps close_socket_keeps [OF K] set_tx_space_keeps queue_keeps client_connect_keeps)+)

lemma cmd_set_socket_ring_keeps:
  assumes K: "net_keeps_cmds (net V)"
  shows "cmd_set_socket_ring V c s = Inr t \<Longrightarrow> cmd_part t = cmd_part s"
  by (cases "u (cmd_mem s c)") (auto simp: cmd_set_socket_ring_def Let_def cbind_Inr_iff
      dest!: set_user_data_keeps set_tx_space_keeps data_available_keeps [OF K])

lemma cmd_shutdown_keeps:
  assumes K: "net_keeps_cmds (net V)" and run: "cmd_shutdown V c s = Inr t"
  shows "cmd_part t = cmd_part s"
proof -
  obtain k sock where k: "cmd_sat c s = Inr (k, sock)" using run by (auto simp: cmd_shutdown_def cbind_Inr_iff)
  show ?thesis
  proof (cases sock)
    case (Some q)
    obtain how where u: "u (cmd_mem s c) = socket_shutdown how"
      using run k Some by (cases "u (cmd_mem s c)") (auto simp: cmd_shutdown_def)
    obtain s1 q1 where s1: "(if how = 0 then user_flush_rx q s else if how = 1 then user_flush_tx q s
        else if how = 2 then drop_socket V k q s else Inr s) = Inr s1" "t = inet_shutdown (net V) q1 how s1"
      using run k Some u by (auto simp: cmd_shutdown_def cbind_Inr_iff split: option.splits)
    have "cmd_part s1 = cmd_part s"
      using s1(1) by (auto split: if_splits dest!: user_flush_keeps drop_socket_keeps [OF K])
    then show ?thesis using s1(2) net_keeps(12) [OF K] by simp
  qed (use run k in \<open>simp add: cmd_shutdown_def\<close>)
qed

lemma cmd_effect_keeps:
  assumes V: "services_keep_cmds V" and run: "cmd_effect V c s = Inr t"
  shows "cmd_part t = cmd_part s"
proof -
  have K: "net_keeps_cmds (net V)" using V by (simp add: services_keep_cmds_def)
  have a: "cmd_add_arp V c s = Inr t \<Longrightarrow> cmd_part t = cmd_part s" "cmd_route V b c s = Inr t \<Longrightarrow> cmd_part t = cmd_part s" for b
    using V by (auto simp: services_keep_cmds_def cmd_add_arp_def cmd_route_def split: cmd_args.splits)
  note keeps = cmd_open_socket_keeps [OF K] cmd_connect_bind_keeps [OF K] cmd_simple_keeps [OF K]
    cmd_set_socket_ring_keeps [OF K] cmd_shutdown_keeps [OF K] a
  show ?thesis using run by (cases "cmd (cmd_mem s c)") (simp_all add: cmd_effect_def keeps)
qed

lemma cmd_part_fields:
  "cmd_part t = cmd_part s \<Longrightarrow> free_command_pools t = free_command_pools s \<and> command_rings t = command_rings s \<and>
     cmd_mem t = cmd_mem s \<and> my_proc_id t = my_proc_id s"
  by (simp add: cmd_part_def)

lemma cmd_inv_part: "cmd_part t = cmd_part s \<Longrightarrow> cmd_inv t pr held = cmd_inv s pr held"
  by (simp add: cmd_part_def cmd_inv_def cmd_bufs_def)

lemma process_command_buffer:
  fixes s :: "'z service_env_scheme"
  assumes V: "services_keep_cmds V" and fifo: "\<forall>e p s. 0 \<le> open_fifo V e p s"
    and inv: "cmd_inv s (my_proc_id s) (c # held)" and run: "process_command V c s = Inr t"
  shows "my_proc_id t = my_proc_id s \<and> command_rings t = command_rings s \<and> cmd_mem t = cmd_mem s \<and>
    (if epoll_close_cmd s c
     then cmd_inv t (my_proc_id s) (c # held) \<and> free_command_pools t = free_command_pools s
     else cmd_inv t (my_proc_id s) held \<and>
       pool_free (free_command_pools t (my_proc_id s)) = pool_free (free_command_pools s (my_proc_id s)) @ [c])"
proof -
  have free: "my_proc_id (light_free_command_buf c s1) = my_proc_id s \<and> command_rings (light_free_command_buf c s1) = command_rings s \<and>
      cmd_mem (light_free_command_buf c s1) = cmd_mem s \<and> cmd_inv (light_free_command_buf c s1) (my_proc_id s) held \<and>
      pool_free (free_command_pools (light_free_command_buf c s1) (my_proc_id s)) =
        pool_free (free_command_pools s (my_proc_id s)) @ [c]" if p: "cmd_part s1 = cmd_part s" for s1
    using cmd_free [of s1 "my_proc_id s" c held] inv cmd_inv_part [OF p] cmd_part_fields [OF p]
    by (simp add: light_free_command_buf_def) (simp add: light_free_command_buf_by_proc_id_def)
  show ?thesis
  proof (cases "cmd (cmd_mem s c) = LIGHT_EPOLL_CLOSE_COMMAND")
    case True
    then have "cmd_part t = cmd_part s"
      using run by (auto simp: process_command_def cmd_epoll_close_def cbind_Inr_iff split: cmd_args.splits)
    then show ?thesis using True inv cmd_inv_part [of t s] cmd_part_fields [of t s] by (simp add: epoll_close_cmd_def)
  next
    case False
    have "\<exists>s1. cmd_part s1 = cmd_part s \<and> t = light_free_command_buf c s1"
    proof (cases "cmd (cmd_mem s c) = LIGHT_EPOLL_CREATE_COMMAND")
      case True
      obtain s1 where s1: "cmd_epoll_create V c s = Inr (True, s1)" "t = light_free_command_buf c s1"
        using run True fifo by (cases "u (cmd_mem s c)") (auto simp: process_command_def cmd_epoll_create_def cbind_Inr_iff Let_def)
      have "cmd_part s1 = cmd_part s"
        using s1(1) by (cases "u (cmd_mem s c)") (auto simp: cmd_epoll_create_def cbind_Inr_iff Let_def)
      then show ?thesis using s1(2) by blast
    next
      case False2: False
      obtain s1 where "cmd_effect V c s = Inr s1" "t = light_free_command_buf c s1"
        using run False False2 by (cases "cmd (cmd_mem s c)") (auto simp: process_command_def cbind_Inr_iff)
      then show ?thesis using cmd_effect_keeps [OF V] by blast
    qed
    then show ?thesis using free False by (auto simp: epoll_close_cmd_def)
  qed
qed

lemma process_each_buffers:
  fixes s :: "'z service_env_scheme"
  assumes V: "services_keep_cmds V" and fifo: "\<forall>e p s. 0 \<le> open_fifo V e p s"
    and "cmd_inv s (my_proc_id s) (cs @ held)" "process_each V cs s = Inr t"
  shows "my_proc_id t = my_proc_id s \<and> command_rings t = command_rings s \<and> cmd_mem t = cmd_mem s \<and>
    cmd_inv t (my_proc_id s) (rev (filter (epoll_close_cmd s) cs) @ held) \<and>
    pool_free (free_command_pools t (my_proc_id s)) =
      pool_free (free_command_pools s (my_proc_id s)) @ filter (\<lambda>c. \<not> epoll_close_cmd s c) cs"
  using assms(3-)
proof (induction cs arbitrary: s held)
  case (Cons c cs)
  obtain s1 where s1: "process_command V c s = Inr s1" "process_each V cs s1 = Inr t"
    using Cons.prems by (auto simp: cbind_Inr_iff)
  note b = process_command_buffer [OF V fifo _ s1(1), of "cs @ held"]
  have same: "epoll_close_cmd s1 = epoll_close_cmd s" "my_proc_id s1 = my_proc_id s" "command_rings s1 = command_rings s" "cmd_mem s1 = cmd_mem s"
    using b Cons.prems by (simp_all add: epoll_close_cmd_def fun_eq_iff)
  show ?case
  proof (cases "epoll_close_cmd s c")
    case True
    have "cmd_inv s1 (my_proc_id s) (cs @ c # held)" using b Cons.prems True by (auto simp: cmd_inv_def)
    then show ?thesis using Cons.IH [of s1 "c # held"] s1 b Cons.prems True same by simp
  next
    case False
    then show ?thesis using Cons.IH [of s1 held] s1 b Cons.prems same by simp
  qed
qed simp

lemma unat_min_word: "unat (min a b) = min (unat a) (unat (b :: u32))"
  by (simp add: min_def word_le_nat_alt)

text \<open>The commands taken in one turn.\<close>

lemma process_commands_taken:
  fixes s :: "'z service_env_scheme"
  assumes inv: "cmd_inv s (my_proc_id s) held"
  defines "cs \<equiv> contents (command_rings s (my_proc_id s))"
  obtains rg where "ring_ok rg" "contents rg = drop 20 cs"
    "process_commands V s = process_each V (take 20 cs) (s \<lparr> command_rings := (command_rings s) (my_proc_id s := rg) \<rparr>)"
    "cmd_inv (s \<lparr> command_rings := (command_rings s) (my_proc_id s := rg) \<rparr>) (my_proc_id s) (take 20 cs @ held)"
proof -
  let ?r = "command_rings s (my_proc_id s)"
  define w where "w = min (rte_ring_count ?r) 20"
  define rg where "rg = consumed ?r w"
  let ?s = "s \<lparr> command_rings := (command_rings s) (my_proc_id s := rg) \<rparr>"
  have ok: "ring_ok ?r" "wf_ring ?r" using inv by (simp_all add: cmd_inv_def ring_ok_def)
  have w: "unat w = min (length cs) 20" using rte_ring_count_eq [OF ok(2)] by (simp add: w_def unat_min_word cs_def)
  have le: "unat w \<le> length cs" "unat w \<le> length (replicate MAX_CMD_DEQUEUE_NUM (0 :: addr))"
    using w by (auto simp: MAX_CMD_DEQUEUE_NUM_def)
  have t: "take (unat w) cs = take 20 cs" "drop (unat w) cs = drop 20 cs" using w by (auto simp: min_def)
  have c: "contents rg = drop 20 cs" "ring_ok rg"
    using contents_consumed [OF ok(1)] ring_ok_consumed [OF ok(1)] le(1) t(2) by (simp_all add: cs_def rg_def)
  have "mset cs = mset (take 20 cs) + mset (drop 20 cs)" by (simp flip: mset_append)
  then have m: "mset (cmd_bufs ?s (my_proc_id s) @ take 20 cs @ held) = mset (cmd_bufs s (my_proc_id s) @ held)"
    using c by (simp add: cmd_bufs_def cs_def)
  have "cmd_inv ?s (my_proc_id s) (take 20 cs @ held)"
    using inv c(2) mset_eq_imp_distinct_iff [OF m] mset_eq_length [OF m] unfolding cmd_inv_def by simp
  moreover have deq: "light_dequeue_command_buf_bulk w s =
      (0, take (unat w) cs @ drop (unat w) (replicate MAX_CMD_DEQUEUE_NUM 0), ?s)"
    using sc_do_dequeue_fixed [OF ok(2) le(2)] le(1) by (simp add: light_dequeue_command_buf_bulk_def rg_def cs_def)
  have tk: "take (unat w) (take (unat w) cs @ X) = take 20 cs" for X :: "addr list"
    using le(1) unfolding t(1) [symmetric] by simp
  have "process_commands V s = process_each V (take 20 cs) ?s"
    by (simp only: process_commands_def w_def [symmetric] Let_def deq prod.case tk)
  ultimately show thesis using that c by blast
qed


lemma request_ok:
  fixes s :: "'z sock_env_scheme"
  assumes cp: "pool_ok (free_command_pools s pr)" "pool_free (free_command_pools s pr) = c # cs"
    and rp: "pool_ok (free_return_value_pools s pr)" "pool_free (free_return_value_pools s pr) = r # rs"
    and rg: "ring_ok (command_rings s pr)" "length (contents (command_rings s pr)) < capacity (command_rings s pr)"
  obtains mp mr rg where
    "request pr f s = (Requested r, s \<lparr> free_command_pools := (free_command_pools s) (pr := mp),
       command_rings := (command_rings s) (pr := rg),
       cmd_mem := (cmd_mem s) (c := (f (cmd_mem s c)) \<lparr> res := Some r \<rparr>),
       free_return_value_pools := (free_return_value_pools s) (pr := mr),
       ret_mem := (ret_mem s) (r := (ret_mem s r) \<lparr> ready_signal := 0 \<rparr>) \<rparr>)"
    "pool_ok mp" "pool_free mp = cs" "pool_cap mp = pool_cap (free_command_pools s pr)"
    "pool_ok mr" "pool_free mr = rs" "pool_cap mr = pool_cap (free_return_value_pools s pr)"
    "ring_ok rg" "contents rg = contents (command_rings s pr) @ [c]"
proof -
  obtain mp where mp: "rte_mempool_get 0 (free_command_pools s pr) 0 = (0, c, mp)" "pool_ok mp" "pool_free mp = cs"
    "pool_cap mp = pool_cap (free_command_pools s pr)" by (rule pool_take [OF cp])
  obtain mr where mr: "rte_mempool_get 0 (free_return_value_pools s pr) 0 = (0, r, mr)" "pool_ok mr" "pool_free mr = rs"
    "pool_cap mr = pool_cap (free_return_value_pools s pr)" by (rule pool_take [OF rp])
  let ?rg = "published (command_rings s pr) [c] 1"
  have r: "rte_ring_enqueue (command_rings s pr) c = (0, ?rg)" "ring_ok ?rg" "contents ?rg = contents (command_rings s pr) @ [c]"
    using rg by (simp_all add: rte_ring_enqueue_eq ring_ok_published contents_published_room room_def)
  show thesis
    by (rule that [where mp = mp and mr = mr and rg = ?rg])
      (use mp mr r in \<open>simp_all add: request_def light_get_free_command_buf_by_proc_id_def
        light_get_free_return_value_buf_by_proc_id_def light_enqueue_command_buf_by_proc_id_def write_cmd_def write_ret_def\<close>)
qed

lemma process_bind:
  fixes s :: "'z service_env_scheme"
  assumes V: "bind_gives V q ip port rv" and k: "k < 2048" "sat_socket (satelites s k) = Some q"
    and c: "cmd (cmd_mem s c) = LIGHT_SOCKET_CONNECT_BIND_COMMAND" "ringset_idx (cmd_mem s c) = int k"
      "u (cmd_mem s c) = socket_connect_bind ip port 0" "res (cmd_mem s c) = Some r"
  obtains z where "process_command V c s = Inr (light_free_command_buf c (write_ret r (\<lambda>v. v \<lparr>
    return_value := (if rv \<noteq> 0 then - 1 else 0), return_errno := - rv, ready_signal := 1 \<rparr>) (service_env.more_update (\<lambda>_. z) s)))"
proof -
  obtain z where "kernel_bind (net V) q ip port s = (rv, service_env.more_update (\<lambda>_. z) s)"
    using V unfolding bind_gives_def by blast
  then show thesis
    using that [of z] k c
    by (simp add: process_command_def cmd_effect_def cmd_connect_bind_def cmd_sat_def app_glue_v4_bind_def answer_def)
qed

lemma request_inv:
  assumes "cmd_inv s pr held" "pool_free (free_command_pools s pr) = c # cs" "pool_ok mp" "pool_free mp = cs"
    "pool_cap mp = pool_cap (free_command_pools s pr)" "ring_ok rg" "contents rg = contents (command_rings s pr) @ [c]"
    "free_command_pools t pr = mp" "command_rings t pr = rg"
  shows "cmd_inv t pr held"
  using assms by (auto simp: cmd_inv_def cmd_bufs_def)

text \<open>One round of commands with a single bind waiting.\<close>

lemma serve_bind:
  fixes s :: "'z service_env_scheme"
  assumes V: "bind_gives V q ip port rv" and k: "k < 2048" "sat_socket (satelites s k) = Some q"
    and c: "cmd (cmd_mem s c) = LIGHT_SOCKET_CONNECT_BIND_COMMAND" "ringset_idx (cmd_mem s c) = int k"
      "u (cmd_mem s c) = socket_connect_bind ip port 0" "res (cmd_mem s c) = Some r"
    and inv: "cmd_inv s (my_proc_id s) held" "contents (command_rings s (my_proc_id s)) = [c]"
  shows "\<exists>t. serve_commands V s = t \<and> cmd_inv t (my_proc_id s) held \<and> contents (command_rings t (my_proc_id s)) = [] \<and>
    pool_free (free_command_pools t (my_proc_id s)) = pool_free (free_command_pools s (my_proc_id s)) @ [c] \<and>
    free_return_value_pools t = free_return_value_pools s \<and>
    ret_mem t r = (ret_mem s r) \<lparr> return_value := (if rv \<noteq> 0 then - 1 else 0), return_errno := - rv, ready_signal := 1 \<rparr>"
proof -
  obtain rg where rg: "ring_ok rg" "contents rg = drop 20 [c]"
    "process_commands V s = process_each V (take 20 [c]) (s \<lparr> command_rings := (command_rings s) (my_proc_id s := rg) \<rparr>)"
    "cmd_inv (s \<lparr> command_rings := (command_rings s) (my_proc_id s := rg) \<rparr>) (my_proc_id s) (take 20 [c] @ held)"
    using process_commands_taken [OF inv(1), of V] unfolding inv(2) by blast
  define s1 where "s1 = s \<lparr> command_rings := (command_rings s) (my_proc_id s := rg) \<rparr>"
  have s1: "satelites s1 = satelites s" "cmd_mem s1 = cmd_mem s" "my_proc_id s1 = my_proc_id s"
    "free_command_pools s1 = free_command_pools s" "command_rings s1 (my_proc_id s) = rg"
    "free_return_value_pools s1 = free_return_value_pools s" "ret_mem s1 = ret_mem s"
    by (simp_all add: s1_def)
  obtain z where z: "process_command V c s1 = Inr (light_free_command_buf c (write_ret r (\<lambda>v. v \<lparr>
      return_value := (if rv \<noteq> 0 then - 1 else 0), return_errno := - rv, ready_signal := 1 \<rparr>) (service_env.more_update (\<lambda>_. z) s1)))"
    by (rule process_bind [OF V k(1), of s1 c r]) (use k c s1 in simp_all)
  define s2 where "s2 = write_ret r (\<lambda>v. v \<lparr> return_value := (if rv \<noteq> 0 then - 1 else 0), return_errno := - rv,
      ready_signal := 1 \<rparr>) (service_env.more_update (\<lambda>_. z) s1)"
  have s2: "my_proc_id s2 = my_proc_id s" "free_command_pools s2 = free_command_pools s" "command_rings s2 (my_proc_id s) = rg"
    "free_return_value_pools s2 = free_return_value_pools s"
    "ret_mem s2 r = (ret_mem s r) \<lparr> return_value := (if rv \<noteq> 0 then - 1 else 0), return_errno := - rv, ready_signal := 1 \<rparr>"
    using s1 by (simp_all add: s2_def write_ret_def)
  have "cmd_inv s2 (my_proc_id s) (c # held)"
    using rg(4) s1 s2 cmd_inv_cong [of s2 "my_proc_id s" s1] by (simp add: s1_def [symmetric])
  note f = cmd_free [OF this]
  have "serve_commands V s = light_free_command_buf c s2"
    using rg(3) z by (simp add: serve_commands_def s1_def [symmetric] s2_def)
  then show ?thesis
    using f s2 rg(2) by (simp add: light_free_command_buf_def) (simp add: light_free_command_buf_by_proc_id_def)
qed

text \<open>C7. A bind made by an application and served by the stack process: the application gets the
  verdict of the network stack (the return value and errno), and the command buffer and the
  return-value buffer of the request are back in their pools.\<close>

theorem bind_request_answered:
  fixes s :: "'z service_env_scheme"
  assumes V: "bind_gives V q ip port rv" and k: "k < 2048" "sat_socket (satelites s k) = Some q"
    and inv: "cmd_inv s (my_proc_id s) held" "contents (command_rings s (my_proc_id s)) = []"
      "0 < capacity (command_rings s (my_proc_id s))" "pool_free (free_command_pools s (my_proc_id s)) \<noteq> []"
    and ret: "pool_ok (free_return_value_pools s (my_proc_id s))" "pool_free (free_return_value_pools s (my_proc_id s)) \<noteq> []"
  shows "\<exists>t. light_bind_by_proc_id (\<lambda>_. serve_commands V) (int k) AF_INET ip port (my_proc_id s) s =
      Inr (if rv \<noteq> 0 then - 1 else 0, t) \<and> errno t = - rv \<and> cmd_inv t (my_proc_id s) held \<and>
    mset (cmd_bufs t (my_proc_id s)) = mset (cmd_bufs s (my_proc_id s)) \<and>
    mset (pool_free (free_return_value_pools t (my_proc_id s))) = mset (pool_free (free_return_value_pools s (my_proc_id s)))"
proof -
  let ?pr = "my_proc_id s"
  obtain c cs where c: "pool_free (free_command_pools s ?pr) = c # cs" using inv(4) by (cases "pool_free (free_command_pools s ?pr)") auto
  obtain r rs where r: "pool_free (free_return_value_pools s ?pr) = r # rs" using ret(2) by (cases "pool_free (free_return_value_pools s ?pr)") auto
  have p: "pool_ok (free_command_pools s ?pr)" "ring_ok (command_rings s ?pr)"
    "length (contents (command_rings s ?pr)) < capacity (command_rings s ?pr)" using inv by (simp_all add: cmd_inv_def)
  define s0 where "s0 = s \<lparr> errno := LIGHT_ERRNO \<rparr>"
  obtain mp mr rg where q: "request ?pr (bind_cmd (int k) ip port) s0 = (Requested r, s0 \<lparr> free_command_pools := (free_command_pools s0) (?pr := mp),
       command_rings := (command_rings s0) (?pr := rg),
       cmd_mem := (cmd_mem s0) (c := (bind_cmd (int k) ip port (cmd_mem s0 c)) \<lparr> res := Some r \<rparr>),
       free_return_value_pools := (free_return_value_pools s0) (?pr := mr),
       ret_mem := (ret_mem s0) (r := (ret_mem s0 r) \<lparr> ready_signal := 0 \<rparr>) \<rparr>)"
    "pool_ok mp" "pool_free mp = cs" "pool_cap mp = pool_cap (free_command_pools s0 ?pr)"
    "pool_ok mr" "pool_free mr = rs" "pool_cap mr = pool_cap (free_return_value_pools s0 ?pr)"
    "ring_ok rg" "contents rg = contents (command_rings s0 ?pr) @ [c]"
    by (rule request_ok [of s0 ?pr c cs r rs "bind_cmd (int k) ip port"]) (use p c r ret in \<open>simp_all add: s0_def\<close>)
  define s1 where "s1 = snd (request ?pr (bind_cmd (int k) ip port) s0)"
  define s2 where "s2 = upd_desc k (\<lambda>d. d \<lparr> desc_local_ipaddr := ip, desc_local_port := port \<rparr>) s1"
  have s2: "satelites s2 = satelites s" "my_proc_id s2 = ?pr" "free_command_pools s2 ?pr = mp" "command_rings s2 ?pr = rg"
    "cmd_mem s2 c = (bind_cmd (int k) ip port (cmd_mem s c)) \<lparr> res := Some r \<rparr>" "free_return_value_pools s2 ?pr = mr"
    "ready_signal (ret_mem s2 r) = 0"
    by (simp_all add: s2_def s1_def q(1) upd_desc_def) (simp_all add: s0_def)
  have "cmd_inv s2 ?pr held"
    by (rule request_inv [OF inv(1) c q(2,3) _ q(8)]) (use q s2 in \<open>simp_all add: s0_def\<close>)
  then obtain t where t: "serve_commands V s2 = t" "cmd_inv t ?pr held" "contents (command_rings t ?pr) = []"
    "pool_free (free_command_pools t ?pr) = cs @ [c]" "free_return_value_pools t = free_return_value_pools s2"
    "ret_mem t r = (ret_mem s2 r) \<lparr> return_value := (if rv \<noteq> 0 then - 1 else 0), return_errno := - rv, ready_signal := 1 \<rparr>"
    using serve_bind [OF V k(1), of s2 c r held] s2 k(2) q(3,9) inv(2) by (auto simp: bind_cmd_def s0_def)
  have w: "wait_ready (\<lambda>_. serve_commands V) 0 r s2 = Some t"
    using t s2(7) by (simp add: wait_ready.simps)
  let ?t = "light_free_return_value_buf_by_proc_id r ?pr (t \<lparr> errno := - rv \<rparr>)"
  have "light_bind_by_proc_id (\<lambda>_. serve_commands V) (int k) AF_INET ip port ?pr s = Inr (if rv \<noteq> 0 then - 1 else 0, ?t)"
    using q(1) w t(6) k(1) by (simp add: light_bind_by_proc_id_def s0_def [symmetric] s1_def s2_def Let_def)
  moreover have "length rs < pool_cap mr"
    using mpool.bound [OF ret(1)] r q(7) by (simp add: s0_def)
  then have "mset (pool_free (free_return_value_pools ?t ?pr)) = mset (r # rs)"
    using pool_give(2) [OF q(5), of 0 r] t(5) s2(6) q(6) by (simp add: light_free_return_value_buf_by_proc_id_def)
  moreover have "cmd_inv ?t ?pr held" "cmd_bufs ?t ?pr = cs @ [c]"
    using t(2-4) cmd_inv_cong [of ?t ?pr t] by (simp_all add: cmd_bufs_def light_free_return_value_buf_by_proc_id_def)
  ultimately show ?thesis
    using c r inv(2) by (intro exI [of _ ?t]) (simp add: cmd_bufs_def light_free_return_value_buf_by_proc_id_def)
qed

lemma queue_remove_other: "queue_remove w q s = Inr t \<Longrightarrow> w \<noteq> v \<Longrightarrow> ready_lists t v = ready_lists s v"
  by (auto simp: queue_remove_def cbind_Inr_iff upd_ready_def set_present_def upd_ksock_def)

lemma close_keeps_notifications:
  assumes K: "net_keeps_queues K" and run: "app_glue_close_socket K q s = Inr t"
  shows "ready_lists t NotifyQ = ready_lists s NotifyQ"
proof -
  have put: "sock_put K q a = Inr b \<Longrightarrow> ready_lists b = ready_lists a" for a b
    using sock_put_same [OF K] by (simp add: same_queues_def)
  have pend: "close_pending K q a = Some b \<Longrightarrow> ready_lists b = ready_lists a" for a b
    using close_pending_same [OF K] by (simp add: same_queues_def)
  have rd: "leave_read q a = Inr b \<Longrightarrow> ready_lists b NotifyQ = ready_lists a NotifyQ" for a b
    using queue_remove_other [of ReadQ q] by (fastforce simp: leave_read_def cbind_Inr_iff split: if_splits)
  have wr: "leave_write K q a = Inr b \<Longrightarrow> ready_lists b NotifyQ = ready_lists a NotifyQ" for a b
    using queue_remove_other [of WriteQ q] put by (fastforce simp: leave_write_def cbind_Inr_iff split: if_splits)
  have ac: "leave_accept K q a = Inr b \<Longrightarrow> ready_lists b NotifyQ = ready_lists a NotifyQ" for a b
    using queue_remove_other [of AcceptQ q] put pend
    by (fastforce simp: leave_accept_def cbind_Inr_iff split: if_splits)
  have cl: "leave_closed q a = Inr b \<Longrightarrow> ready_lists b NotifyQ = ready_lists a NotifyQ" for a b
    using queue_remove_other [of ClosedQ q] by (fastforce simp: leave_closed_def split: if_splits)
  have "ready_lists (kernel_close K q (reset_callbacks q a)) = ready_lists a" for a
    using K by (simp add: net_keeps_queues_def same_queues_def reset_callbacks_def upd_ksock_def)
  then show ?thesis using run by (auto simp: app_glue_close_socket_def cbind_Inr_iff dest!: rd wr ac cl)
qed


lemma idle_services_keep:
  "services_keep_cmds idle_services" "net_keeps_queues (net idle_services)"
  "kernel_close (net idle_services) q s = s" "open_fifo idle_services e p s' = 0"
  "process_arp_command idle_services i j k l m n s = s"
  by (simp_all add: idle_services_def services_keep_cmds_def net_keeps_cmds_def net_keeps_queues_def same_queues_def idle_net_def)

lemma idle_services_bind: "bind_gives idle_services q ip port 0"
  unfolding bind_gives_def
proof
  fix s
  show "\<exists>z. kernel_bind (net idle_services) q ip port s = (0, service_env.more_update (\<lambda>_. z) s)"
    by (rule exI [of _ "service_env.more s"]) (simp add: idle_services_def idle_net_def)
qed

lemma demo_service_simps [simp]:
  "my_proc_id demo_service = 0" "satelites demo_service k = \<lparr> sat_socket = Some 7, sat_ringset_idx = 3, sat_parent_idx = - 1 \<rparr>"
  "command_rings demo_service p = ring_of 1 0 []" "free_command_pools demo_service p = pool_of 3 0 [6, 7]"
  "ksocks demo_service q = demo_ksock" "free_return_value_pools demo_service p = pool_of 2 0 [30]"
  "epoll_objs demo_service e = demo_epoll"
  by (simp_all add: demo_service_def demo_glue_def glue_env.defs stack_env.defs demo_stack_def sock_env.defs epoll_env.defs demo_net_def
      app_env.defs demo_app_def demo_env_def cmd_env.defs)


theorem bind_request_answered_witness:
  "\<exists>t. light_bind_by_proc_id (\<lambda>_. serve_commands idle_services) 3 AF_INET 16777343 80 0 demo_service = Inr (0, t) \<and> errno t = 0 \<and>
     mset (cmd_bufs t 0) = {#6, 7#}"
  using bind_request_answered [OF idle_services_bind, of 3 demo_service 7 "[]" 16777343 80]
    ring_of_ok [of 1 "[]" "0 :: addr"] pool_of_ok [of 3 "[6, 7]" "0 :: addr"]
    pool_of_ok [of 2 "[30]" "0 :: addr"]
  by (auto simp: cmd_inv_def cmd_bufs_def)


end
