(* ===== verification/Workers.thy ===== *)
theory Workers
  imports Light_Types
begin

text \<open>
  The assignment of application workers to stack processes in \<open>light_api.c\<close>: every new worker
  is served by a stack process with the fewest workers.  The lemmas show that the load stays
  balanced, and how many workers the tables can hold.
\<close>

section \<open>Operations\<close>

text \<open>
  The loop of \<open>get_stack_proc_id\<close> over the \<open>n\<close> remaining processes from \<open>cur\<close> on; \<open>least\<close> and \<open>best\<close>
  are \<open>least_worker_num\<close> and \<open>the_proc_id\<close>.  The locks are held around the whole loop.
\<close>

fun scan_procs :: "int list \<Rightarrow> nat \<Rightarrow> nat \<Rightarrow> int \<Rightarrow> nat \<Rightarrow> nat c_res" where
  "scan_procs served 0 cur least best = Inr best"
| "scan_procs served (Suc n) cur least best =
     cbind (aget served (int cur)) (\<lambda>v.
       if v < least then scan_procs served n (Suc cur) v cur
       else scan_procs served n (Suc cur) least best)"

definition get_stack_proc_id :: "nat \<Rightarrow> light_worker_info_t \<Rightarrow> (nat \<times> light_worker_info_t) c_res" where
  "get_stack_proc_id num w =
     cbind (scan_procs (workers_served w) num 0 (int MAX_WORKER + 1) 0) (\<lambda>p.
     cbind (aget (workers_served w) (int p)) (\<lambda>v.
     cbind (aset (workers_served w) (int p) (v + 1)) (\<lambda>served.
       Inr (p, w \<lparr> workers_served := served \<rparr>))))"

text \<open>The results are the new values of the globals \<open>worker_id\<close> and \<open>stack_proc_id\<close>.\<close>

definition update_worker_info ::
  "nat \<Rightarrow> int \<Rightarrow> light_worker_info_t \<Rightarrow> (int \<times> nat \<times> light_worker_info_t) c_res" where
  "update_worker_info num pid w =
     (let wid = register_worker w; w1 = w \<lparr> register_worker := wid + 1 \<rparr> in
      cbind (get_stack_proc_id num w1) (\<lambda>(p, w2).
      cbind (aset (worker_appids w2) wid pid) (\<lambda>apps.
      cbind (aset (worker_procids w2) wid (int p)) (\<lambda>procs.
        Inr (wid, p, w2 \<lparr> worker_appids := apps, worker_procids := procs \<rparr>)))))"

text \<open>
  \<open>light_fork\<close> in the process with the given result of the kernel's \<open>fork\<close>: only the child
  registers.
\<close>

definition light_fork :: "int \<Rightarrow> nat \<Rightarrow> int \<Rightarrow> light_worker_info_t \<Rightarrow> (int \<times> light_worker_info_t) c_res" where
  "light_fork fpid num pid w =
     (if fpid = 0 then cbind (update_worker_info num pid w) (\<lambda>(_, _, w1). Inr (fpid, w1))
      else Inr (fpid, w))"

text \<open>The table as the service creates it, and the registration of one worker after the other.\<close>

definition init_workers :: light_worker_info_t where
  "init_workers = \<lparr> register_worker = 0, worker_appids = replicate MAX_WORKER 0,
     worker_procids = replicate MAX_WORKER 0, workers_served = replicate MAX_CORES_NUM 0 \<rparr>"

fun register_workers :: "nat \<Rightarrow> int list \<Rightarrow> light_worker_info_t \<Rightarrow> light_worker_info_t c_res" where
  "register_workers num [] w = Inr w"
| "register_workers num (pid # pids) w =
     cbind (update_worker_info num pid w) (\<lambda>(_, _, w1). register_workers num pids w1)"

section \<open>Invariant\<close>

text \<open>
  With \<open>m\<close> workers registered every one of the \<open>num\<close> processes serves \<open>m div num\<close> or one more, the
  counts add up to \<open>m\<close>, and the entries of the registered workers name existing processes.
\<close>

definition balanced :: "nat \<Rightarrow> nat \<Rightarrow> light_worker_info_t \<Rightarrow> bool" where
  "balanced num m w \<longleftrightarrow>
     register_worker w = int m \<and> length (workers_served w) = MAX_CORES_NUM \<and>
     length (worker_appids w) = MAX_WORKER \<and> length (worker_procids w) = MAX_WORKER \<and>
     (\<forall>p < num. int (m div num) \<le> workers_served w ! p \<and> workers_served w ! p \<le> int (m div num) + 1) \<and>
     sum_list (take num (workers_served w)) = int m"

section \<open>Lemmas\<close>

lemma scan_procs_min:
  assumes "cur + n \<le> length served" "best < num" "cur + n = num"
    "\<forall>p < cur. least \<le> served ! p" "cur = 0 \<or> served ! best = least" "cur = 0 \<longrightarrow> 0 < n \<and> served ! 0 < least"
  shows "\<exists>b. scan_procs served n cur least best = Inr b \<and> b < num \<and> (\<forall>p < num. served ! b \<le> served ! p)"
  using assms
proof (induction n arbitrary: cur least best)
  case 0
  then show ?case by auto
next
  case (Suc n)
  have g: "aget served (int cur) = Inr (served ! cur)" using Suc.prems(1) by (simp add: aget_def)
  show ?case
  proof (cases "served ! cur < least")
    case True
    have "\<exists>b. scan_procs served n (Suc cur) (served ! cur) cur = Inr b \<and> b < num \<and> (\<forall>p < num. served ! b \<le> served ! p)"
      by (rule Suc.IH) (use Suc.prems True in \<open>auto simp: less_Suc_eq\<close>)
    then show ?thesis using g True by simp
  next
    case False
    have "\<exists>b. scan_procs served n (Suc cur) least best = Inr b \<and> b < num \<and> (\<forall>p < num. served ! b \<le> served ! p)"
      by (rule Suc.IH) (use Suc.prems False in \<open>auto simp: less_Suc_eq\<close>)
    then show ?thesis using g False by simp
  qed
qed

lemma sum_list_int_update: "p < length xs \<Longrightarrow> sum_list (xs [p := v]) = sum_list xs + (v - xs ! p :: int)"
  by (induction xs arbitrary: p) (auto split: nat.split)

lemma sum_list_take_update:
  assumes "p < n" "n \<le> length xs"
  shows "sum_list (take n (xs [p := xs ! p + 1])) = sum_list (take n xs) + (1 :: int)"
  using assms by (simp add: take_update_swap sum_list_int_update)

text \<open>A count of least value carries the average, so adding one to it keeps the spread.\<close>

lemma least_is_average:
  fixes f :: "nat \<Rightarrow> int"
  assumes "0 < num" "b < num" "\<forall>p < num. f b \<le> f p" "(\<Sum>p < num. f p) = int m"
    "\<forall>p < num. int (m div num) \<le> f p"
  shows "f b = int (m div num)"
proof (rule ccontr)
  assume "f b \<noteq> int (m div num)"
  then have "f b \<ge> int (m div num) + 1" using assms(2,5) by force
  then have "\<forall>p < num. f p \<ge> int (m div num) + 1" using assms(3) by force
  then have "(\<Sum>p < num. f p) \<ge> (\<Sum>p < num. int (m div num) + 1)" by (intro sum_mono) auto
  then have "int m \<ge> int num * (int (m div num) + 1)" using assms(4) by simp
  moreover have "int m < int num * (int (m div num) + 1)"
  proof -
    have "m = num * (m div num) + m mod num" "m mod num < num" using assms(1) by simp_all
    then have "m < num * (m div num + 1)" unfolding distrib_left by linarith
    then have "int m < int (num * (m div num + 1))" by (simp only: of_nat_less_iff)
    then show ?thesis by (simp add: distrib_left)
  qed
  ultimately show False by simp
qed

lemma sum_take_nth: "n \<le> length xs \<Longrightarrow> sum_list (take n xs) = (\<Sum>q < n. xs ! q)"
  by (simp add: sum_list_sum_nth atLeast0LessThan)

text \<open>When the last missing worker of a round arrives, all counts are equal.\<close>

lemma round_complete:
  fixes t :: "int list"
  assumes num: "0 < num" "num \<le> length t" and le: "\<forall>q < num. t ! q \<le> c" and sum: "sum_list (take num t) = int num * c"
    and r: "r < num"
  shows "t ! r = c"
proof (rule ccontr)
  assume "t ! r \<noteq> c"
  then have "t ! r < c" using le r by force
  then have "(\<Sum>q < num. t ! q) < (\<Sum>q < num. c)" by (intro sum_strict_mono_ex1) (use le r in auto)
  then show False using sum sum_take_nth [OF num(2)] by simp
qed

lemma spread_kept:
  fixes s :: "int list"
  assumes num: "0 < num" "num \<le> length s" "p < num" and avg: "s ! p = int (m div num)"
    and lo: "\<forall>q < num. int (m div num) \<le> s ! q \<and> s ! q \<le> int (m div num) + 1" and sum: "sum_list (take num s) = int m"
    and q: "q < num"
  shows "int (Suc m div num) \<le> s [p := s ! p + 1] ! q \<and> s [p := s ! p + 1] ! q \<le> int (Suc m div num) + 1"
proof (cases "Suc m mod num = 0")
  case False
  then have "Suc m div num = m div num" using div_Suc [of m num] by simp
  then show ?thesis using lo avg q num by (cases "q = p") auto
next
  case True
  then have d: "Suc m div num = Suc (m div num)" using div_Suc [of m num] by simp
  have "Suc m = num * (Suc m div num)" using True by auto
  then have "int (Suc m) = int (num * Suc (m div num))" using d by metis
  then have tot: "sum_list (take num (s [p := s ! p + 1])) = int num * (int (m div num) + 1)"
    using sum_list_take_update [OF num(3,2)] sum by (simp add: algebra_simps)
  have "s [p := s ! p + 1] ! q = int (m div num) + 1"
    by (rule round_complete [OF num(1) _ _ tot q]) (use num lo avg in \<open>auto simp: nth_list_update\<close>)
  then show ?thesis using d by simp
qed

lemma balanced_step:
  assumes num: "0 < num" "num \<le> MAX_CORES_NUM" and m: "m < MAX_WORKER" and bal: "balanced num m w"
  shows "\<exists>p w'. update_worker_info num pid w = Inr (int m, p, w') \<and> p < num \<and> balanced num (Suc m) w'"
proof -
  let ?s = "workers_served w"
  have len: "length ?s = MAX_CORES_NUM" "num \<le> length ?s" using bal num by (simp_all add: balanced_def)
  have lo: "\<forall>p < num. int (m div num) \<le> ?s ! p \<and> ?s ! p \<le> int (m div num) + 1" and sum: "sum_list (take num ?s) = int m"
    using bal by (simp_all add: balanced_def)
  have "m div num \<le> m" by simp
  moreover have "?s ! 0 \<le> int (m div num) + 1" using lo num(1) by blast
  ultimately have "?s ! 0 < int MAX_WORKER + 1" using m by linarith
  then obtain p where p: "scan_procs ?s num 0 (int MAX_WORKER + 1) 0 = Inr p" "p < num" "\<forall>q < num. ?s ! p \<le> ?s ! q"
    using scan_procs_min [of 0 num ?s 0 num "int MAX_WORKER + 1"] num len by auto
  have avg: "?s ! p = int (m div num)"
    by (rule least_is_average [where f = "\<lambda>q. ?s ! q"]) (use num p sum sum_take_nth [OF len(2)] lo in auto)
  define w' where "w' = w \<lparr> register_worker := int m + 1, workers_served := ?s [p := ?s ! p + 1],
     worker_appids := (worker_appids w) [m := pid], worker_procids := (worker_procids w) [m := int p] \<rparr>"
  have "update_worker_info num pid w = Inr (int m, p, w')"
    using bal p len(1) num m by (simp add: update_worker_info_def get_stack_proc_id_def Let_def aget_def aset_def balanced_def w'_def)
  moreover have "balanced num (Suc m) w'"
    using bal spread_kept [OF num(1) len(2) p(2) avg lo sum] sum_list_take_update [OF p(2) len(2)]
    by (simp add: balanced_def w'_def)
  ultimately show ?thesis using p(2) by blast
qed

lemma register_workers_balanced:
  assumes "0 < num" "num \<le> MAX_CORES_NUM" "balanced num m w" "m + length pids \<le> MAX_WORKER"
  shows "\<exists>w'. register_workers num pids w = Inr w' \<and> balanced num (m + length pids) w'"
  using assms(3,4)
proof (induction pids arbitrary: m w)
  case (Cons pid pids)
  obtain p w1 where s: "update_worker_info num pid w = Inr (int m, p, w1)" "balanced num (Suc m) w1"
    using balanced_step [OF assms(1,2) _ Cons.prems(1), of pid] Cons.prems(2) by auto
  then show ?case using Cons.IH [OF s(2)] Cons.prems(2) by auto
qed simp

lemma init_workers_balanced: "0 < num \<Longrightarrow> num \<le> MAX_CORES_NUM \<Longrightarrow> balanced num 0 init_workers"
  by (simp add: balanced_def init_workers_def sum_list_replicate)

section \<open>Properties\<close>

text \<open>C31. Workers are spread evenly: however many of them register, up to the capacity of the tables, each
  stack process serves the average number or one more, and every worker is counted once.\<close>

theorem workers_stay_balanced:
  assumes "0 < num" "num \<le> MAX_CORES_NUM" "length pids \<le> MAX_WORKER"
  shows "\<exists>w. register_workers num pids init_workers = Inr w \<and>
     (\<forall>p < num. workers_served w ! p \<in> {int (length pids div num), int (length pids div num) + 1}) \<and>
     sum_list (take num (workers_served w)) = int (length pids)"
proof -
  obtain w where w: "register_workers num pids init_workers = Inr w" "balanced num (length pids) w"
    using register_workers_balanced [OF assms(1,2) init_workers_balanced [OF assms(1,2)], of pids] assms(3) by auto
  then have "workers_served w ! p \<in> {int (length pids div num), int (length pids div num) + 1}" if "p < num" for p
    using that by (force simp: balanced_def)
  then show ?thesis using w by (auto simp: balanced_def)
qed

theorem workers_stay_balanced_witness:
  "\<exists>w. register_workers 2 [101, 102, 103] init_workers = Inr w \<and> sum_list (take 2 (workers_served w)) = 3"
  using workers_stay_balanced [of 2 "[101, 102, 103]"] by (auto simp: MAX_CORES_NUM_def MAX_WORKER_def)

text \<open>The tables have no room for one more: the registration that follows the last possible one
  writes behind the end of \<open>worker_appids\<close>.\<close>

theorem worker_table_overflow:
  assumes "0 < num" "num \<le> MAX_CORES_NUM" "length pids = MAX_WORKER"
  shows "register_workers num (pids @ [pid]) init_workers = Inl OutOfBounds"
proof -
  have app: "register_workers num (as @ bs) w = cbind (register_workers num as w) (register_workers num bs)" for as bs w
    by (induction as arbitrary: w) (auto simp: cbind_def split: sum.split)
  obtain w where w: "register_workers num pids init_workers = Inr w" "balanced num MAX_WORKER w"
    using register_workers_balanced [OF assms(1,2) init_workers_balanced [OF assms(1,2)], of pids] assms(3) by auto
  have len: "length (workers_served w) = MAX_CORES_NUM" "length (worker_appids w) = MAX_WORKER" "register_worker w = int MAX_WORKER"
    using w(2) by (simp_all add: balanced_def)
  have "scan_procs (workers_served w) n cur least best = Inl e \<Longrightarrow> e = OutOfBounds" for n cur least best e
    by (induction n arbitrary: cur least best) (auto simp: aget_def split: if_splits)
  then have "update_worker_info num pid w = Inl OutOfBounds"
    using len by (cases "scan_procs (workers_served w) num 0 (int MAX_WORKER + 1) 0")
      (auto simp: update_worker_info_def get_stack_proc_id_def aset_def aget_def Let_def MAX_WORKER_def)
  then show ?thesis using w(1) by (simp add: app)
qed

theorem worker_table_overflow_witness:
  "register_workers 4 (replicate 1024 7 @ [8]) init_workers = Inl OutOfBounds"
  using worker_table_overflow [of 4 "replicate 1024 7" 8] by (simp add: MAX_CORES_NUM_def MAX_WORKER_def)

end
