(* ===== verification/Ll_List.thy ===== *)
theory Ll_List
  imports Light_Types
begin

text \<open>
  The reference-counted doubly linked list of \<open>service/ll.c\<close>, which holds the epoll nodes of a socket.
  The functions are modelled for one thread at a time: an atomic access is one step of that thread,
  a compare-and-set fails exactly when the value has changed, and a loop that waits for another
  thread does not return.  A failed \<open>assert\<close> ends the program.
\<close>

section \<open>State\<close>

text \<open>
  An \<open>elem_ptr_t\<close>: an address whose two low bits are the flags \<open>DEREF\<close>, set while the pointer is
  followed, and \<open>FLAGGED\<close>, which marks a deletion in \<open>pred\<close> and an insertion in \<open>succ\<close>.  NULL is the
  address 0.
\<close>

record elem_ptr =
  ptr_addr :: addr
  ptr_flag :: bool
  ptr_deref :: bool

record ll_heap =
  ll_succs :: "addr \<Rightarrow> elem_ptr"
  ll_preds :: "addr \<Rightarrow> elem_ptr"
  refcnts :: "addr \<Rightarrow> nat"
  ll_sizes :: "addr \<Rightarrow> u64"

text \<open>The two pointers of an element.\<close>

datatype ptr_field = Succ_of addr | Pred_of addr

definition load_ptr :: "ptr_field \<Rightarrow> ll_heap \<Rightarrow> elem_ptr" where
  "load_ptr p h = (case p of Succ_of a \<Rightarrow> ll_succs h a | Pred_of a \<Rightarrow> ll_preds h a)"

definition store_ptr :: "ptr_field \<Rightarrow> elem_ptr \<Rightarrow> ll_heap \<Rightarrow> ll_heap" where
  "store_ptr p e h = (case p of
     Succ_of a \<Rightarrow> h \<lparr> ll_succs := (ll_succs h) (a := e) \<rparr>
   | Pred_of a \<Rightarrow> h \<lparr> ll_preds := (ll_preds h) (a := e) \<rparr>)"

definition ptr_to :: "addr \<Rightarrow> elem_ptr" where
  "ptr_to a = \<lparr> ptr_addr = a, ptr_flag = False, ptr_deref = False \<rparr>"

definition flagged_to :: "addr \<Rightarrow> elem_ptr" where
  "flagged_to a = \<lparr> ptr_addr = a, ptr_flag = True, ptr_deref = False \<rparr>"

definition LL_INIT :: "addr \<Rightarrow> ll_heap \<Rightarrow> ll_heap" where
  "LL_INIT q h = h \<lparr> ll_succs := (ll_succs h) (q := ptr_to q), ll_preds := (ll_preds h) (q := ptr_to q),
     refcnts := (refcnts h) (q := 2), ll_sizes := (ll_sizes h) (q := 0) \<rparr>"

definition LL_INIT_ENTRY :: "addr \<Rightarrow> ll_heap \<Rightarrow> ll_heap" where
  "LL_INIT_ENTRY n h = h \<lparr> ll_succs := (ll_succs h) (n := ptr_to 0), ll_preds := (ll_preds h) (n := ptr_to 0),
     refcnts := (refcnts h) (n := 0) \<rparr>"

section \<open>Primitive operations\<close>

definition assert_that :: "bool \<Rightarrow> 'a \<Rightarrow> 'a c_res" where
  "assert_that b x = (if b then Inr x else Inl Exit)"

definition deref_acquire :: "addr \<Rightarrow> nat \<Rightarrow> ll_heap \<Rightarrow> ll_heap c_res" where
  "deref_acquire a n h = (if a = 0 then Inl BadPointer else Inr (h \<lparr> refcnts := (refcnts h) (a := refcnts h a + n) \<rparr>))"

definition deref_release :: "addr \<Rightarrow> nat \<Rightarrow> ll_heap \<Rightarrow> ll_heap c_res" where
  "deref_release a n h =
     (if a = 0 then Inl BadPointer
      else assert_that (refcnts h a \<ge> n) (h \<lparr> refcnts := (refcnts h) (a := refcnts h a - n) \<rparr>))"

text \<open>Following a pointer takes a reference to its target; \<open>DEREF\<close> is set meanwhile and clear again at the end.\<close>

definition deref :: "ptr_field \<Rightarrow> ll_heap \<Rightarrow> (elem_ptr \<times> ll_heap) c_res" where
  "deref p h =
     (let e = load_ptr p h in
      if ptr_deref e then Inl NoReturn
      else if ptr_addr e = 0 then Inr (e, h)
      else cbind (deref_acquire (ptr_addr e) 1 h) (\<lambda>h1. Inr (e, h1)))"

definition flag_combine :: "elem_ptr \<Rightarrow> elem_ptr \<Rightarrow> elem_ptr" where
  "flag_combine p fl = \<lparr> ptr_addr = ptr_addr p, ptr_flag = ptr_flag fl, ptr_deref = False \<rparr>"

abbreviation deleted_ptr :: "elem_ptr \<Rightarrow> bool" where
  "deleted_ptr e \<equiv> ptr_flag e"

definition deleted :: "addr \<Rightarrow> ll_heap \<Rightarrow> bool c_res" where
  "deleted a h = (if a = 0 then Inl BadPointer else Inr (deleted_ptr (ll_preds h a)))"

text \<open>
  The pointer is replaced if it has the expected value, keeping its flag, and is left with \<open>DEREF\<close> set.
  The result says whether it was.
\<close>

definition ptr_cas :: "ptr_field \<Rightarrow> elem_ptr \<Rightarrow> elem_ptr \<Rightarrow> ll_heap \<Rightarrow> (bool \<times> ll_heap) c_res" where
  "ptr_cas p expect new h =
     (if ptr_deref expect then Inl Exit
      else let e = load_ptr p h in
        if e = expect then Inr (True, store_ptr p ((flag_combine new expect) \<lparr> ptr_deref := True \<rparr>) h)
        else if e \<lparr> ptr_deref := False \<rparr> \<noteq> expect then Inr (False, h)
        else Inl NoReturn)"

definition ptr_clear_deref :: "ptr_field \<Rightarrow> ll_heap \<Rightarrow> ll_heap c_res" where
  "ptr_clear_deref p h =
     assert_that (ptr_deref (load_ptr p h)) (store_ptr p ((load_ptr p h) \<lparr> ptr_deref := False \<rparr>) h)"

section \<open>Neighbours\<close>

text \<open>One round of the loop of \<open>succ\<close>: the deleted successor \<open>s\<close> is skipped, or looked up again.\<close>

definition succ_skip :: "addr \<Rightarrow> elem_ptr \<Rightarrow> ll_heap \<Rightarrow> (elem_ptr \<times> ll_heap) c_res" where
  "succ_skip n s h =
     cbind (deref (Succ_of (ptr_addr s)) h) (\<lambda>(x, h1).
     let ss = flag_combine x s in
     cbind (ptr_cas (Succ_of n) s ss h1) (\<lambda>(ok, h2).
     if ok
     then cbind (deref_acquire (ptr_addr ss) 1 h2) (\<lambda>h3. cbind (ptr_clear_deref (Succ_of n) h3) (\<lambda>h4.
          cbind (deref_release (ptr_addr s) 2 h4) (\<lambda>h5. Inr (ss, h5))))
     else cbind (deref_release (ptr_addr s) 1 h2) (\<lambda>h3. cbind (deref_release (ptr_addr ss) 1 h3) (deref (Succ_of n)))))"

partial_function (option) succ_loop :: "addr \<Rightarrow> elem_ptr \<Rightarrow> ll_heap \<Rightarrow> (elem_ptr \<times> ll_heap) c_res option" where
  "succ_loop n s h =
     (case deleted (ptr_addr s) h of Inl e \<Rightarrow> Some (Inl e)
      | Inr del \<Rightarrow>
        if \<not> del then Some (Inr (s, h))
        else (case succ_skip n s h of Inl e \<Rightarrow> Some (Inl e) | Inr (s1, h1) \<Rightarrow> succ_loop n s1 h1))"

definition ll_find_succ :: "addr \<Rightarrow> ll_heap \<Rightarrow> (elem_ptr \<times> ll_heap) c_res" where
  "ll_find_succ n h =
     (if n = 0 then Inl Exit
      else cbind (deref (Succ_of n) h) (\<lambda>(s, h1).
        if ptr_addr s = 0 then Inr (s, h1) else cbind (loop_res (succ_loop n s h1)) (\<lambda>r. r)))"

text \<open>One round of the forward search of \<open>pred\<close>, from \<open>p\<close> to its successor \<open>ps\<close>.\<close>

definition pred_advance :: "addr \<Rightarrow> elem_ptr \<Rightarrow> elem_ptr \<Rightarrow> ll_heap \<Rightarrow> (elem_ptr \<times> elem_ptr \<times> ll_heap) c_res" where
  "pred_advance n p ps h =
     cbind (cbind (ptr_cas (Pred_of n) p ps h) (\<lambda>(ok, h1).
       if ok
       then cbind (deref_acquire (ptr_addr ps) 1 h1) (\<lambda>h2. cbind (ptr_clear_deref (Pred_of n) h2) (\<lambda>h3.
            cbind (deref_release (ptr_addr p) 2 h3) (\<lambda>h4. Inr (flag_combine ps p, h4))))
       else cbind (deref_release (ptr_addr ps) 1 h1) (\<lambda>h2. cbind (deref_release (ptr_addr p) 1 h2) (deref (Pred_of n)))))
     (\<lambda>(p1, h5). cbind (ll_find_succ (ptr_addr p1) h5) (\<lambda>(ps1, h6). Inr (p1, ps1, h6)))"

partial_function (option) pred_forward ::
  "addr \<Rightarrow> elem_ptr \<Rightarrow> elem_ptr \<Rightarrow> ll_heap \<Rightarrow> (elem_ptr \<times> elem_ptr \<times> ll_heap) c_res option" where
  "pred_forward n p ps h =
     (if ptr_addr ps \<noteq> n \<and> \<not> deleted_ptr p
      then (case pred_advance n p ps h of Inl e \<Rightarrow> Some (Inl e) | Inr (p1, ps1, h1) \<Rightarrow> pred_forward n p1 ps1 h1)
      else Some (Inr (p, ps, h)))"

definition pred_search :: "addr \<Rightarrow> elem_ptr \<Rightarrow> ll_heap \<Rightarrow> (elem_ptr \<times> ll_heap) c_res" where
  "pred_search n p h =
     (if deleted_ptr p then Inr (p, h)
      else cbind (ll_find_succ (ptr_addr p) h) (\<lambda>(ps, h1).
        if ptr_addr ps = 0 then Inl Exit
        else cbind (loop_res (pred_forward n p ps h1)) (\<lambda>r. cbind r (\<lambda>(p1, ps1, h2).
             cbind (deref_release (ptr_addr ps1) 1 h2) (\<lambda>h3. Inr (p1, h3))))))"

text \<open>Skipping a deleted predecessor.\<close>

definition pred_skip :: "addr \<Rightarrow> elem_ptr \<Rightarrow> ll_heap \<Rightarrow> (elem_ptr \<times> ll_heap) c_res" where
  "pred_skip n p h =
     cbind (deref (Pred_of (ptr_addr p)) h) (\<lambda>(pp, h1).
     cbind (ptr_cas (Pred_of n) p pp h1) (\<lambda>(ok, h2).
     if ok
     then cbind (deref_acquire (ptr_addr pp) 1 h2) (\<lambda>h3. cbind (ptr_clear_deref (Pred_of n) h3) (\<lambda>h4.
          cbind (deref_release (ptr_addr p) 2 h4) (\<lambda>h5. Inr (pp, h5))))
     else cbind (deref_release (ptr_addr p) 1 h2) (\<lambda>h3. cbind (deref_release (ptr_addr pp) 1 h3) (deref (Pred_of n)))))"

partial_function (option) pred_loop :: "addr \<Rightarrow> elem_ptr \<Rightarrow> ll_heap \<Rightarrow> (elem_ptr \<times> ll_heap) c_res option" where
  "pred_loop n p h =
     (if ptr_addr p = 0 then Some (Inl Exit)
      else case pred_search n p h of Inl e \<Rightarrow> Some (Inl e)
      | Inr (p1, h1) \<Rightarrow>
        (case deleted (ptr_addr p1) h1 of Inl e \<Rightarrow> Some (Inl e)
         | Inr del \<Rightarrow>
           if \<not> del then Some (Inr (p1, h1))
           else (case pred_skip n p1 h1 of Inl e \<Rightarrow> Some (Inl e) | Inr (p2, h2) \<Rightarrow> pred_loop n p2 h2)))"

definition ll_find_pred :: "addr \<Rightarrow> ll_heap \<Rightarrow> (elem_ptr \<times> ll_heap) c_res" where
  "ll_find_pred n h =
     (if n = 0 then Inl Exit
      else cbind (deref (Pred_of n) h) (\<lambda>(p, h1).
        if ptr_addr p = 0 then Inr (p, h1)
        else cbind (loop_res (pred_loop n p h1)) (\<lambda>r. cbind r (\<lambda>(p1, h2). Inr (flag_combine p1 (ll_preds h2 n), h2)))))"

section \<open>Insertion\<close>

text \<open>Only an element that is on no list, and not being inserted, can be marked.\<close>

definition insert_lock :: "addr \<Rightarrow> ll_heap \<Rightarrow> (bool \<times> ll_heap) c_res" where
  "insert_lock n h =
     (let s = ll_succs h n in
      if ptr_addr s \<noteq> 0 \<or> ptr_flag s then Inr (False, h)
      else if ptr_addr (ll_preds h n) \<noteq> 0 \<or> ptr_flag (ll_preds h n) then Inl NoReturn
      else Inr (True, store_ptr (Succ_of n) (s \<lparr> ptr_flag := True \<rparr>) h))"

definition cas_surely :: "ptr_field \<Rightarrow> elem_ptr \<Rightarrow> elem_ptr \<Rightarrow> ll_heap \<Rightarrow> ll_heap c_res" where
  "cas_surely p expect new h =
     cbind (ptr_cas p expect new h) (\<lambda>(ok, h1). cbind (assert_that ok h1) (ptr_clear_deref p))"

definition insert_undo :: "addr \<Rightarrow> addr \<Rightarrow> addr \<Rightarrow> elem_ptr \<Rightarrow> ll_heap \<Rightarrow> (bool \<times> ll_heap) c_res" where
  "insert_undo n p s ps h =
     cbind (cas_surely (Succ_of n) (flagged_to s) (flagged_to 0) h) (\<lambda>h1.
     cbind (cas_surely (Pred_of n) (ptr_to p) (ptr_to 0) h1) (\<lambda>h2.
     cbind (deref_release p 1 h2) (\<lambda>h3. cbind (deref_release s 1 h3) (\<lambda>h4.
     cbind (deref_release (ptr_addr ps) 1 h4) (\<lambda>h5. Inr (False, h5))))))"

text \<open>The end of a successful insertion, with \<open>p->succ\<close> already replaced and locked.\<close>

definition insert_finish :: "addr \<Rightarrow> addr \<Rightarrow> addr \<Rightarrow> addr \<Rightarrow> elem_ptr \<Rightarrow> ll_heap \<Rightarrow> (bool \<times> ll_heap) c_res" where
  "insert_finish q n p s ps h =
     cbind (deref_acquire n 1 h) (\<lambda>h1. cbind (ptr_clear_deref (Succ_of p) h1) (\<lambda>h2.
     cbind (deref_release (ptr_addr ps) 2 h2) (\<lambda>h3. cbind (ll_find_pred s h3) (\<lambda>(x, h4).
     cbind (deref_release (ptr_addr x) 1 h4) (\<lambda>h5.
     Inr (True, store_ptr (Succ_of n) ((ll_succs h5 n) \<lparr> ptr_flag := False \<rparr>)
       (h5 \<lparr> ll_sizes := (ll_sizes h5) (q := ll_sizes h5 q + 1) \<rparr>)))))))"

definition insert_between :: "addr \<Rightarrow> addr \<Rightarrow> addr \<Rightarrow> addr \<Rightarrow> ll_heap \<Rightarrow> (bool \<times> ll_heap) c_res" where
  "insert_between q n p s h =
     (if ptr_addr (ll_preds h n) \<noteq> 0 \<or> ll_succs h n \<noteq> flagged_to 0 \<or> refcnts h n = 0 then Inl Exit
      else if ll_preds h n \<noteq> ptr_to 0 then Inl NoReturn
      else cbind (deref_acquire p 1 h) (\<lambda>h1. cbind (deref_acquire s 1 h1) (\<lambda>h2.
           cbind (cas_surely (Succ_of n) (flagged_to 0) (flagged_to s) h2) (\<lambda>h3.
           cbind (cas_surely (Pred_of n) (ptr_to 0) (ptr_to p) h3) (\<lambda>h4.
           cbind (deref (Succ_of p) h4) (\<lambda>(ps, h5).
           cbind (deleted p h5) (\<lambda>del.
           if ptr_addr ps \<noteq> s \<or> del then insert_undo n p s ps h5
           else cbind (ptr_cas (Succ_of p) ps (ptr_to n) h5) (\<lambda>(ok, h6).
                if \<not> ok then insert_undo n p s ps h6
                else cbind (deleted p h6) (\<lambda>del.
                     if del then insert_undo n p s ps (store_ptr (Succ_of p) ps h6)
                     else insert_finish q n p s ps h6)))))))))"

section \<open>Removal\<close>

definition unlink_ps_lock :: "addr \<Rightarrow> addr \<Rightarrow> ll_heap \<Rightarrow> (bool \<times> ll_heap) c_res" where
  "unlink_ps_lock p expect_s h =
     (let ps = ll_succs h p in
      if ptr_deref ps then (if ptr_addr ps = expect_s then Inl NoReturn else Inr (False, h))
      else if ptr_addr ps = expect_s then Inr (True, store_ptr (Succ_of p) (ps \<lparr> ptr_deref := True \<rparr>) h)
      else Inr (False, h))"

text \<open>
  Finding the direct predecessor of \<open>n\<close> and locking its pointer to \<open>n\<close>; \<open>None\<close> when \<open>n\<close> is not on a list or
  is already being removed.
\<close>

partial_function (option) unlink_find :: "addr \<Rightarrow> ll_heap \<Rightarrow> (elem_ptr option \<times> ll_heap) c_res option" where
  "unlink_find n h =
     (case ll_find_pred n h of Inl e \<Rightarrow> Some (Inl e)
      | Inr (p, h1) \<Rightarrow>
        if ptr_addr p = 0 then Some (Inr (None, h1))
        else if deleted_ptr p then Some (cbind (deref_release (ptr_addr p) 1 h1) (\<lambda>h2. Inr (None, h2)))
        else (case unlink_ps_lock (ptr_addr p) n h1 of Inl e \<Rightarrow> Some (Inl e)
              | Inr (ok, h2) \<Rightarrow>
                if ok then Some (Inr (Some p, h2))
                else (case deref_release (ptr_addr p) 1 h2 of Inl e \<Rightarrow> Some (Inl e) | Inr h3 \<Rightarrow> unlink_find n h3)))"

text \<open>Setting the deletion mark.\<close>

partial_function (option) unlink_mark :: "addr \<Rightarrow> ll_heap \<Rightarrow> (elem_ptr option \<times> ll_heap) c_res option" where
  "unlink_mark n h =
     (case unlink_find n h of None \<Rightarrow> None
      | Some (Inl e) \<Rightarrow> Some (Inl e)
      | Some (Inr (None, h1)) \<Rightarrow> Some (Inr (None, h1))
      | Some (Inr (Some p, h1)) \<Rightarrow>
        let cur = ll_preds h1 n in
        if cur = p then
          Some (cbind (ptr_clear_deref (Succ_of (ptr_addr p)) (store_ptr (Pred_of n) (flagged_to (ptr_addr p)) h1))
                  (\<lambda>h2. Inr (Some p, h2)))
        else if ptr_flag cur \<or> ptr_addr cur \<noteq> ptr_addr p then
          (case cbind (ptr_clear_deref (Succ_of (ptr_addr p)) h1) (deref_release (ptr_addr p) 1) of Inl e \<Rightarrow> Some (Inl e)
           | Inr h2 \<Rightarrow> if ptr_flag cur then Some (Inr (None, h2)) else unlink_mark n h2)
        else Some (Inl NoReturn))"

text \<open>Walking forward from \<open>n\<close> until only one reference to it is left, or to the end of the list.\<close>

partial_function (option) unlink_sweep :: "addr \<Rightarrow> addr \<Rightarrow> addr \<Rightarrow> ll_heap \<Rightarrow> (addr \<times> ll_heap) c_res option" where
  "unlink_sweep q n i h =
     (if refcnts h n \<le> 1 then Some (Inr (i, h))
      else case (if ptr_addr (ll_preds h i) = n
                 then cbind (ll_find_pred i h) (\<lambda>(x, h1). deref_release (ptr_addr x) 1 h1) else Inr h) of
        Inl e \<Rightarrow> Some (Inl e)
      | Inr h2 \<Rightarrow>
        if i = q then Some (Inr (i, h2))
        else (case cbind (ll_find_succ i h2) (\<lambda>(x, h3). cbind (deref_release i 1 h3) (\<lambda>h4. Inr (ptr_addr x, h4))) of
                Inl e \<Rightarrow> Some (Inl e) | Inr (j, h4) \<Rightarrow> unlink_sweep q n j h4))"

definition llll_unlink :: "addr \<Rightarrow> addr \<Rightarrow> ll_heap \<Rightarrow> (bool \<times> ll_heap) c_res" where
  "llll_unlink q n h =
     (if n = 0 then Inl Exit
      else if ptr_addr (ll_succs h n) = 0 then Inr (False, h)
      else if ptr_flag (ll_succs h n) then Inl NoReturn
      else cbind (loop_res (unlink_mark n h)) (\<lambda>r. cbind r (\<lambda>(m, h1).
        case m of None \<Rightarrow> Inr (False, h1)
        | Some p \<Rightarrow>
          cbind (ll_find_succ (ptr_addr p) h1) (\<lambda>(x, h2). cbind (deref_release (ptr_addr x) 1 h2) (\<lambda>h3.
          cbind (deref_release (ptr_addr p) 1 h3) (\<lambda>h4.
          cbind (ll_find_succ n (h4 \<lparr> ll_sizes := (ll_sizes h4) (q := ll_sizes h4 q - 1) \<rparr>)) (\<lambda>(i, h5).
          cbind (loop_res (unlink_sweep q n (ptr_addr i) h5)) (\<lambda>r. cbind r (\<lambda>(j, h6).
          cbind (deref_release j 1 h6) (\<lambda>h7. Inr (True, h7)))))))))))"

definition unlink_release :: "addr \<Rightarrow> bool \<Rightarrow> ll_heap \<Rightarrow> ll_heap c_res" where
  "unlink_release n inslock h =
     (if refcnts h n > 1 then Inl NoReturn
      else let s = ptr_addr (ll_succs h n); p = flagged_to (ptr_addr (ll_preds h n)) in
        if s = 0 \<or> inslock \<and> ptr_flag (ll_succs h n) then Inl Exit
        else let h1 = (if inslock then store_ptr (Succ_of n) ((ll_succs h n) \<lparr> ptr_flag := True \<rparr>) h else h) in
          cbind (cas_surely (Succ_of n) (if inslock then flagged_to s else ptr_to s) (ptr_to 0) h1) (\<lambda>h2.
          cbind (deref_release s 1 h2) (\<lambda>h3.
          cbind (ptr_cas (Pred_of n) p (ptr_to 0) h3) (\<lambda>(ok, h4).
          cbind (assert_that ok h4) (\<lambda>h4.
          cbind (ptr_clear_deref (Pred_of n) (store_ptr (Pred_of n) ((ll_preds h4 n) \<lparr> ptr_flag := False \<rparr>) h4)) (\<lambda>h5.
          cbind (deref_release (ptr_addr p) 1 h5) (\<lambda>h6.
          if inslock then Inr h6 else deref_release n 1 h6)))))))"

definition ll_unlink :: "addr \<Rightarrow> addr \<Rightarrow> bool \<Rightarrow> ll_heap \<Rightarrow> (bool \<times> ll_heap) c_res" where
  "ll_unlink q n wait h =
     cbind (llll_unlink q n h) (\<lambda>(ok, h1).
     if \<not> ok then Inr (False, h1)
     else if wait then cbind (unlink_release n False h1) (\<lambda>h2. Inr (True, h2)) else Inr (True, h1))"

definition ll_unlink_release :: "addr \<Rightarrow> ll_heap \<Rightarrow> ll_heap c_res" where
  "ll_unlink_release n h = unlink_release n False h"

partial_function (option) ll_unlink_robust :: "addr \<Rightarrow> addr \<Rightarrow> ll_heap \<Rightarrow> (bool \<times> ll_heap) c_res option" where
  "ll_unlink_robust q n h =
     (case insert_lock n h of Inl e \<Rightarrow> Some (Inl e)
      | Inr (locked, h1) \<Rightarrow>
        if locked then Some (Inr (False, h1))
        else (case llll_unlink q n h1 of Inl e \<Rightarrow> Some (Inl e)
              | Inr (ok, h2) \<Rightarrow>
                if ok then Some (cbind (unlink_release n True h2) (\<lambda>h3. Inr (True, h3))) else ll_unlink_robust q n h2))"

section \<open>Interface\<close>

definition not_head :: "addr \<Rightarrow> elem_ptr \<times> ll_heap \<Rightarrow> (addr option \<times> ll_heap) c_res" where
  "not_head q = (\<lambda>(s, h).
     if ptr_addr s = q then cbind (deref_release q 1 h) (\<lambda>h1. Inr (None, h1))
     else Inr (if ptr_addr s = 0 then None else Some (ptr_addr s), h))"

definition ll_succ :: "addr \<Rightarrow> addr \<Rightarrow> ll_heap \<Rightarrow> (addr option \<times> ll_heap) c_res" where
  "ll_succ q n h = cbind (ll_find_succ n h) (not_head q)"

definition ll_pred :: "addr \<Rightarrow> addr \<Rightarrow> ll_heap \<Rightarrow> (addr option \<times> ll_heap) c_res" where
  "ll_pred q n h = cbind (ll_find_pred n h) (not_head q)"

definition ll_ref :: "addr \<Rightarrow> addr \<Rightarrow> ll_heap \<Rightarrow> ll_heap c_res" where
  "ll_ref q n h = (if n = q then Inl Exit else deref_acquire n 1 h)"

definition ll_release :: "addr \<Rightarrow> addr \<Rightarrow> ll_heap \<Rightarrow> ll_heap c_res" where
  "ll_release q n h = (if n = q then Inl Exit else deref_release n 1 h)"

definition ll_empty :: "addr \<Rightarrow> ll_heap \<Rightarrow> bool" where
  "ll_empty q h \<longleftrightarrow> ptr_addr (ll_succs h q) = q"

definition ll_size :: "addr \<Rightarrow> ll_heap \<Rightarrow> u64" where
  "ll_size q h = ll_sizes h q"

text \<open>Marking the element for the insertion; with \<open>wait\<close> it is one that has just been unlinked.\<close>

definition insert_begin :: "addr \<Rightarrow> bool \<Rightarrow> ll_heap \<Rightarrow> (bool \<times> ll_heap) c_res" where
  "insert_begin n wait h =
     cbind (if wait then cbind (unlink_release n True h) (\<lambda>h1. Inr (True, h1)) else insert_lock n h) (\<lambda>(ok, h1).
     if \<not> ok then Inr (False, h1) else cbind (deref_acquire n 1 h1) (\<lambda>h2. Inr (True, h2)))"

partial_function (option) before_loop :: "addr \<Rightarrow> addr \<Rightarrow> addr \<Rightarrow> addr \<Rightarrow> ll_heap \<Rightarrow> (addr \<times> addr \<times> ll_heap) c_res option" where
  "before_loop q n p s h =
     (case insert_between q n p s h of Inl e \<Rightarrow> Some (Inl e)
      | Inr (ok, h1) \<Rightarrow>
        if ok then Some (Inr (p, s, h1))
        else (case cbind (deref_release p 1 h1) (\<lambda>h2. cbind (deleted s h2) (\<lambda>del.
                cbind (if del then cbind (ll_find_succ s h2) (\<lambda>(x, h3). cbind (deref_release s 1 h3) (\<lambda>h4. Inr (ptr_addr x, h4)))
                       else Inr (s, h2)) (\<lambda>(s1, h5).
                cbind (ll_find_pred s1 h5) (\<lambda>(y, h6). Inr (ptr_addr y, s1, h6))))) of
                Inl e \<Rightarrow> Some (Inl e) | Inr (p1, s1, h6) \<Rightarrow> before_loop q n p1 s1 h6))"

partial_function (option) after_loop :: "addr \<Rightarrow> addr \<Rightarrow> addr \<Rightarrow> addr \<Rightarrow> ll_heap \<Rightarrow> (addr \<times> addr \<times> ll_heap) c_res option" where
  "after_loop q n p s h =
     (case insert_between q n p s h of Inl e \<Rightarrow> Some (Inl e)
      | Inr (ok, h1) \<Rightarrow>
        if ok then Some (Inr (p, s, h1))
        else (case cbind (deref_release s 1 h1) (\<lambda>h2. cbind (deleted p h2) (\<lambda>del.
                cbind (if del then cbind (ll_find_pred p h2) (\<lambda>(x, h3). cbind (deref_release p 1 h3) (\<lambda>h4. Inr (ptr_addr x, h4)))
                       else Inr (p, h2)) (\<lambda>(p1, h5).
                cbind (ll_find_succ p1 h5) (\<lambda>(y, h6). Inr (p1, ptr_addr y, h6))))) of
                Inl e \<Rightarrow> Some (Inl e) | Inr (p1, s1, h6) \<Rightarrow> after_loop q n p1 s1 h6))"

definition ll_insert_before :: "addr \<Rightarrow> addr \<Rightarrow> addr \<Rightarrow> bool \<Rightarrow> ll_heap \<Rightarrow> (bool \<times> ll_heap) c_res" where
  "ll_insert_before q n rel wait h =
     cbind (insert_begin n wait h) (\<lambda>(ok, h1).
     if \<not> ok then Inr (False, h1)
     else cbind (deref_acquire rel 1 h1) (\<lambda>h2. cbind (ll_find_pred rel h2) (\<lambda>(x, h3).
          cbind (loop_res (before_loop q n (ptr_addr x) rel h3)) (\<lambda>r. cbind r (\<lambda>(p, s, h4).
          cbind (deref_release p 1 h4) (\<lambda>h5. cbind (deref_release s 1 h5) (\<lambda>h6.
          cbind (deref_release n 1 h6) (\<lambda>h7. Inr (True, h7)))))))))"

definition ll_insert_after :: "addr \<Rightarrow> addr \<Rightarrow> addr \<Rightarrow> bool \<Rightarrow> ll_heap \<Rightarrow> (bool \<times> ll_heap) c_res" where
  "ll_insert_after q n rel wait h =
     cbind (insert_begin n wait h) (\<lambda>(ok, h1).
     if \<not> ok then Inr (False, h1)
     else cbind (deref_acquire rel 1 h1) (\<lambda>h2. cbind (ll_find_succ rel h2) (\<lambda>(x, h3).
          cbind (loop_res (after_loop q n rel (ptr_addr x) h3)) (\<lambda>r. cbind r (\<lambda>(p, s, h4).
          cbind (deref_release p 1 h4) (\<lambda>h5. cbind (deref_release s 1 h5) (\<lambda>h6.
          cbind (deref_release n 1 h6) (\<lambda>h7. Inr (True, h7)))))))))"

partial_function (option) head_loop :: "addr \<Rightarrow> addr \<Rightarrow> addr \<Rightarrow> ll_heap \<Rightarrow> (addr \<times> ll_heap) c_res option" where
  "head_loop q n s h =
     (case insert_between q n q s h of Inl e \<Rightarrow> Some (Inl e)
      | Inr (ok, h1) \<Rightarrow>
        if ok then Some (Inr (s, h1))
        else (case cbind (deref_release s 1 h1) (ll_find_succ q) of
                Inl e \<Rightarrow> Some (Inl e) | Inr (x, h2) \<Rightarrow> head_loop q n (ptr_addr x) h2))"

partial_function (option) tail_loop :: "addr \<Rightarrow> addr \<Rightarrow> addr \<Rightarrow> ll_heap \<Rightarrow> (addr \<times> ll_heap) c_res option" where
  "tail_loop q n p h =
     (case insert_between q n p q h of Inl e \<Rightarrow> Some (Inl e)
      | Inr (ok, h1) \<Rightarrow>
        if ok then Some (Inr (p, h1))
        else (case cbind (deref_release p 1 h1) (ll_find_pred q) of
                Inl e \<Rightarrow> Some (Inl e) | Inr (x, h2) \<Rightarrow> tail_loop q n (ptr_addr x) h2))"

definition ll_insert_head :: "addr \<Rightarrow> addr \<Rightarrow> bool \<Rightarrow> ll_heap \<Rightarrow> (bool \<times> ll_heap) c_res" where
  "ll_insert_head q n wait h =
     cbind (insert_begin n wait h) (\<lambda>(ok, h1).
     if \<not> ok then Inr (False, h1)
     else cbind (ll_find_succ q h1) (\<lambda>(x, h2). cbind (loop_res (head_loop q n (ptr_addr x) h2)) (\<lambda>r. cbind r (\<lambda>(s, h3).
          cbind (deref_release s 1 h3) (\<lambda>h4. cbind (deref_release n 1 h4) (\<lambda>h5. Inr (True, h5)))))))"

definition ll_insert_tail :: "addr \<Rightarrow> addr \<Rightarrow> bool \<Rightarrow> ll_heap \<Rightarrow> (bool \<times> ll_heap) c_res" where
  "ll_insert_tail q n wait h =
     cbind (insert_begin n wait h) (\<lambda>(ok, h1).
     if \<not> ok then Inr (False, h1)
     else cbind (ll_find_pred q h1) (\<lambda>(x, h2). cbind (loop_res (tail_loop q n (ptr_addr x) h2)) (\<lambda>r. cbind r (\<lambda>(p, h3).
          cbind (deref_release p 1 h3) (\<lambda>h4. cbind (deref_release n 1 h4) (\<lambda>h5. Inr (True, h5)))))))"

text \<open>
  Taking the first or last element: \<open>look\<close> is \<open>succ\<close> or \<open>pred\<close>.  An element that another thread is already
  removing is passed over; at the head the search starts again.
\<close>

partial_function (option) pop_loop ::
  "(addr \<Rightarrow> ll_heap \<Rightarrow> (elem_ptr \<times> ll_heap) c_res) \<Rightarrow> addr \<Rightarrow> bool \<Rightarrow> addr \<Rightarrow> ll_heap \<Rightarrow> (addr option \<times> ll_heap) c_res option" where
  "pop_loop look q wait n h =
     (if n = q
      then (case cbind (deref_release q 1 h) (look q) of Inl e \<Rightarrow> Some (Inl e)
            | Inr (x, h1) \<Rightarrow>
              if ptr_addr x = q then Some (cbind (deref_release q 1 h1) (\<lambda>h2. Inr (None, h2)))
              else pop_loop look q wait (ptr_addr x) h1)
      else (case ll_unlink q n wait h of Inl e \<Rightarrow> Some (Inl e)
            | Inr (ok, h1) \<Rightarrow>
              if ok then Some (Inr (Some n, h1))
              else (case cbind (look n h1) (\<lambda>(x, h2). cbind (deref_release n 1 h2) (\<lambda>h3. Inr (ptr_addr x, h3))) of
                      Inl e \<Rightarrow> Some (Inl e) | Inr (n1, h3) \<Rightarrow> pop_loop look q wait n1 h3)))"

definition ll_pop :: "(addr \<Rightarrow> ll_heap \<Rightarrow> (elem_ptr \<times> ll_heap) c_res) \<Rightarrow> addr \<Rightarrow> bool \<Rightarrow> ll_heap \<Rightarrow> (addr option \<times> ll_heap) c_res" where
  "ll_pop look q wait h =
     cbind (look q h) (\<lambda>(x, h1).
     if ptr_addr x = q then cbind (deref_release q 1 h1) (\<lambda>h2. Inr (None, h2))
     else cbind (loop_res (pop_loop look q wait (ptr_addr x) h1)) (\<lambda>r. r))"

definition ll_pop_front :: "addr \<Rightarrow> bool \<Rightarrow> ll_heap \<Rightarrow> (addr option \<times> ll_heap) c_res" where
  "ll_pop_front q wait h = ll_pop ll_find_succ q wait h"

definition ll_pop_back :: "addr \<Rightarrow> bool \<Rightarrow> ll_heap \<Rightarrow> (addr option \<times> ll_heap) c_res" where
  "ll_pop_back q wait h = ll_pop ll_find_pred q wait h"

text \<open>
  The macros of \<open>ll.h\<close> that walk over a list, for any pair of functions \<open>nxt\<close> and \<open>release\<close>.
  \<open>LL_FOREACH\<close> looks up the next element before it releases the current one; its body is left at the first
  element with \<open>P\<close>.
\<close>

definition ll_foreach_succ ::
  "('a \<Rightarrow> 'h \<Rightarrow> ('a option \<times> 'h) c_res) \<Rightarrow> ('a \<Rightarrow> 'h \<Rightarrow> 'h c_res) \<Rightarrow> 'a \<Rightarrow> 'h \<Rightarrow> ('a option \<times> 'h) c_res" where
  "ll_foreach_succ nxt release n h = cbind (nxt n h) (\<lambda>(s, h1). cbind (release n h1) (\<lambda>h2. Inr (s, h2)))"

partial_function (option) ll_foreach ::
  "('a \<Rightarrow> 'h \<Rightarrow> ('a option \<times> 'h) c_res) \<Rightarrow> ('a \<Rightarrow> 'h \<Rightarrow> 'h c_res) \<Rightarrow> ('a \<Rightarrow> bool) \<Rightarrow> 'a option \<Rightarrow> 'h \<Rightarrow>
   ('a option \<times> 'h) c_res option" where
  "ll_foreach nxt release P var h =
     (case var of None \<Rightarrow> Some (Inr (None, h))
      | Some n \<Rightarrow>
        if P n then Some (Inr (Some n, h))
        else (case ll_foreach_succ nxt release n h of Inl e \<Rightarrow> Some (Inl e)
              | Inr (s, h1) \<Rightarrow> ll_foreach nxt release P s h1))"

definition ll_first :: "addr \<Rightarrow> ll_heap \<Rightarrow> (addr option \<times> ll_heap) c_res" where
  "ll_first q h = ll_succ q q h"

section \<open>The list an element graph represents\<close>

text \<open>
  The elements of the list \<open>q\<close> are \<open>xs\<close>, linked in both directions into a cycle through the head; each is counted
  once for each of the two pointers to it and \<open>ext\<close> times for the references that callers hold.  No caller
  holds the head.
\<close>

definition linked_to :: "ll_heap \<Rightarrow> addr \<Rightarrow> addr \<Rightarrow> bool" where
  "linked_to h a b \<longleftrightarrow> ll_succs h a = ptr_to b \<and> ll_preds h b = ptr_to a"

definition ll_ok :: "addr \<Rightarrow> addr list \<Rightarrow> (addr \<Rightarrow> nat) \<Rightarrow> ll_heap \<Rightarrow> bool" where
  "ll_ok q xs ext h \<longleftrightarrow>
     0 \<notin> set (q # xs) \<and> distinct (q # xs) \<and> successively (linked_to h) (q # xs @ [q]) \<and>
     refcnts h q = 2 \<and> (\<forall>x \<in> set xs. refcnts h x = 2 + ext x) \<and> ll_sizes h q = of_nat (length xs)"

text \<open>The net effect of an insertion between \<open>p\<close> and \<open>s\<close>.\<close>

definition link_in :: "addr \<Rightarrow> addr \<Rightarrow> addr \<Rightarrow> addr \<Rightarrow> ll_heap \<Rightarrow> ll_heap" where
  "link_in q n p s h = h \<lparr> ll_succs := (ll_succs h) (n := ptr_to s, p := ptr_to n),
     ll_preds := (ll_preds h) (n := ptr_to p, s := ptr_to n), refcnts := (refcnts h) (n := refcnts h n + 2),
     ll_sizes := (ll_sizes h) (q := ll_sizes h q + 1) \<rparr>"

text \<open>An element on no list.\<close>

definition fresh_elem :: "addr \<Rightarrow> ll_heap \<Rightarrow> bool" where
  "fresh_elem n h \<longleftrightarrow> n \<noteq> 0 \<and> ll_succs h n = ptr_to 0 \<and> ll_preds h n = ptr_to 0"

text \<open>One more reference to \<open>a\<close>, held by the caller.\<close>

definition held :: "addr \<Rightarrow> ll_heap \<Rightarrow> ll_heap" where
  "held a h = h \<lparr> refcnts := (refcnts h) (a := Suc (refcnts h a)) \<rparr>"

text \<open>The net effect of a removal from between \<open>p\<close> and \<open>s\<close>.\<close>

definition link_out :: "addr \<Rightarrow> addr \<Rightarrow> addr \<Rightarrow> addr \<Rightarrow> ll_heap \<Rightarrow> ll_heap" where
  "link_out q n p s h = h \<lparr> ll_succs := (ll_succs h) (p := ptr_to s, n := ptr_to 0),
     ll_preds := (ll_preds h) (s := ptr_to p, n := ptr_to 0), refcnts := (refcnts h) (n := 0),
     ll_sizes := (ll_sizes h) (q := ll_sizes h q - 1) \<rparr>"

text \<open>The heap between the two halves of a removal: \<open>n\<close> is marked and no other pointer leads to it.\<close>

definition cut_out :: "addr \<Rightarrow> addr \<Rightarrow> addr \<Rightarrow> addr \<Rightarrow> nat \<Rightarrow> ll_heap \<Rightarrow> ll_heap" where
  "cut_out q n p s k h = held p (held s (h \<lparr> ll_succs := (ll_succs h) (p := ptr_to s),
     ll_preds := (ll_preds h) (n := flagged_to p, s := ptr_to p), refcnts := (refcnts h) (n := k),
     ll_sizes := (ll_sizes h) (q := ll_sizes h q - 1) \<rparr>))"

definition first_of :: "'a list \<Rightarrow> 'a option" where
  "first_of xs = (case xs of [] \<Rightarrow> None | x # _ \<Rightarrow> Some x)"

definition one_more :: "'a option \<Rightarrow> ('a \<Rightarrow> nat) \<Rightarrow> 'a \<Rightarrow> nat" where
  "one_more v ext = (case v of None \<Rightarrow> ext | Some x \<Rightarrow> ext (x := Suc (ext x)))"

text \<open>A list at address 1 with the elements 10 and 20, and two elements that are on no list.\<close>

definition demo_ll :: ll_heap where
  "demo_ll = link_in 1 20 10 1 (link_in 1 10 1 1 (LL_INIT 1
     \<lparr> ll_succs = \<lambda>_. ptr_to 0, ll_preds = \<lambda>_. ptr_to 0, refcnts = \<lambda>_. 0, ll_sizes = \<lambda>_. 0 \<rparr>))"

section \<open>Lemmas\<close>

lemma ptr_simps [simp]:
  "ptr_addr (ptr_to a) = a" "\<not> ptr_flag (ptr_to a)" "\<not> ptr_deref (ptr_to a)" "ptr_addr (flagged_to a) = a" "ptr_flag (flagged_to a)"
  "\<not> ptr_deref (flagged_to a)" "ptr_to a = ptr_to b \<longleftrightarrow> a = b" "flagged_to a = flagged_to b \<longleftrightarrow> a = b" "ptr_to a \<noteq> flagged_to b"
  "flagged_to b \<noteq> ptr_to a" "(ptr_to a) \<lparr> ptr_flag := True \<rparr> = flagged_to a" "(flagged_to a) \<lparr> ptr_flag := False \<rparr> = ptr_to a"
  "(ptr_to a) \<lparr> ptr_deref := False \<rparr> = ptr_to a" "(flagged_to a) \<lparr> ptr_deref := False \<rparr> = flagged_to a"
  "(e \<lparr> ptr_deref := c \<rparr>) \<lparr> ptr_deref := False \<rparr> = e \<lparr> ptr_deref := False \<rparr>"
  by (auto simp: ptr_to_def flagged_to_def)

lemma flag_combine_simps [simp]:
  "flag_combine p (ptr_to a) = ptr_to (ptr_addr p)" "flag_combine p (flagged_to a) = flagged_to (ptr_addr p)"
  by (simp_all add: flag_combine_def ptr_to_def flagged_to_def)

lemma load_store [simp]:
  "load_ptr (Succ_of a) h = ll_succs h a" "load_ptr (Pred_of a) h = ll_preds h a"
  "store_ptr (Succ_of a) e h = h \<lparr> ll_succs := (ll_succs h) (a := e) \<rparr>"
  "store_ptr (Pred_of a) e h = h \<lparr> ll_preds := (ll_preds h) (a := e) \<rparr>"
  by (simp_all add: load_ptr_def store_ptr_def)

lemma ref_simps [simp]:
  "a \<noteq> 0 \<Longrightarrow> deref_acquire a k h = Inr (h \<lparr> refcnts := (refcnts h) (a := refcnts h a + k) \<rparr>)"
  "a \<noteq> 0 \<Longrightarrow> k \<le> refcnts h a \<Longrightarrow> deref_release a k h = Inr (h \<lparr> refcnts := (refcnts h) (a := refcnts h a - k) \<rparr>)"
  "a \<noteq> 0 \<Longrightarrow> deleted a h = Inr (ptr_flag (ll_preds h a))"
  by (simp_all add: deref_acquire_def deref_release_def deleted_def assert_that_def)

lemma upd_back [simp]:
  "b \<noteq> a \<Longrightarrow> f (a := x, b := f b) = f (a := x)" "b \<noteq> a \<Longrightarrow> b \<noteq> c \<Longrightarrow> f (a := x, c := y, b := f b) = f (a := x, c := y)"
  by auto

lemma find_succ_ok [simp]:
  assumes "ll_succs h n = e" "\<not> ptr_deref e" "n \<noteq> 0" "ptr_addr e \<noteq> 0" "\<not> ptr_flag (ll_preds h (ptr_addr e))"
  shows "ll_find_succ n h = Inr (e, h \<lparr> refcnts := (refcnts h) (ptr_addr e := Suc (refcnts h (ptr_addr e))) \<rparr>)"
  using assms by (simp add: ll_find_succ_def deref_def Let_def succ_loop.simps)

lemma find_pred_ok:
  assumes "ll_preds h n = ptr_to p" "n \<noteq> 0" "p \<noteq> 0" "ll_succs h p = ptr_to n" "\<not> ptr_flag (ll_preds h p)"
  shows "ll_find_pred n h = Inr (ptr_to p, h \<lparr> refcnts := (refcnts h) (p := Suc (refcnts h p)) \<rparr>)"
  using assms by (simp add: ll_find_pred_def deref_def Let_def pred_loop.simps pred_search_def pred_forward.simps)

text \<open>Looking from \<open>p\<close> over the deleted element \<open>n\<close> takes \<open>n\<close> out of the forward chain.\<close>

lemma find_succ_skip:
  assumes "ll_succs h p = ptr_to n" "ll_succs h n = ptr_to s" "ptr_flag (ll_preds h n)" "\<not> ptr_flag (ll_preds h s)"
    "p \<noteq> 0" "n \<noteq> 0" "s \<noteq> 0" "n \<noteq> p" "n \<noteq> s" "1 \<le> refcnts h n"
  shows "ll_find_succ p h = Inr (ptr_to s, h \<lparr> ll_succs := (ll_succs h) (p := ptr_to s),
    refcnts := (refcnts h) (n := refcnts h n - 1, s := refcnts h s + 2) \<rparr>)"
proof -
  have skip: "succ_skip p (ptr_to n) (h \<lparr> refcnts := (refcnts h) (n := Suc (refcnts h n)) \<rparr>) =
      Inr (ptr_to s, h \<lparr> ll_succs := (ll_succs h) (p := ptr_to s), refcnts := (refcnts h) (n := refcnts h n - 1, s := refcnts h s + 2) \<rparr>)"
    using assms by (simp add: succ_skip_def deref_def Let_def ptr_cas_def ptr_clear_deref_def assert_that_def fun_upd_twist)
  show ?thesis
    using assms skip by (simp add: ll_find_succ_def deref_def Let_def succ_loop.simps)
qed

text \<open>Looking back from \<open>s\<close> over the deleted element \<open>n\<close> takes \<open>n\<close> out of the backward chain.\<close>

lemma find_pred_skip:
  assumes "ll_preds h s = ptr_to n" "ll_preds h n = flagged_to p" "ll_succs h n = ptr_to s" "\<not> ptr_flag (ll_preds h p)"
    "p \<noteq> 0" "n \<noteq> 0" "s \<noteq> 0" "n \<noteq> p" "n \<noteq> s" "1 \<le> refcnts h n"
  shows "ll_find_pred s h = Inr (ptr_to p, h \<lparr> ll_preds := (ll_preds h) (s := ptr_to p),
    refcnts := (refcnts h) (n := refcnts h n - 1, p := refcnts h p + 2) \<rparr>)"
proof -
  let ?h1 = "h \<lparr> refcnts := (refcnts h) (n := Suc (refcnts h n)) \<rparr>"
  let ?h2 = "h \<lparr> ll_preds := (ll_preds h) (s := ptr_to p), refcnts := (refcnts h) (n := refcnts h n - 1, p := refcnts h p + 2) \<rparr>"
  have search: "pred_search s (ptr_to n) ?h1 = Inr (ptr_to n, ?h1)"
    using assms by (simp add: pred_search_def pred_forward.simps)
  have skip: "pred_skip s (ptr_to n) ?h1 = Inr (flagged_to p, ?h2)"
    using assms by (simp add: pred_skip_def deref_def Let_def ptr_cas_def ptr_clear_deref_def assert_that_def fun_upd_twist)
  have "pred_loop s (flagged_to p) ?h2 = Some (Inr (flagged_to p, ?h2))"
    using assms by (subst pred_loop.simps) (simp add: pred_search_def)
  then have "pred_loop s (ptr_to n) ?h1 = Some (Inr (flagged_to p, ?h2))"
    using assms search skip by (subst pred_loop.simps) simp
  then show ?thesis using assms by (simp add: ll_find_pred_def deref_def Let_def)
qed

text \<open>Looking back from \<open>s\<close> finds the element \<open>n\<close> that has just been inserted behind \<open>p\<close>.\<close>

lemma find_pred_advance:
  assumes "ll_preds h s = ptr_to p" "ll_succs h p = ptr_to n" "ll_succs h n = flagged_to s" "ll_preds h n = ptr_to p"
    "\<not> ptr_flag (ll_preds h p)" "p \<noteq> 0" "n \<noteq> 0" "s \<noteq> 0" "n \<noteq> p" "n \<noteq> s" "1 \<le> refcnts h p"
  shows "ll_find_pred s h = Inr (ptr_to n, h \<lparr> ll_preds := (ll_preds h) (s := ptr_to n),
    refcnts := (refcnts h) (p := refcnts h p - 1, n := refcnts h n + 2) \<rparr>)"
proof -
  let ?h1 = "h \<lparr> refcnts := (refcnts h) (p := Suc (refcnts h p)) \<rparr>"
  let ?h2 = "?h1 \<lparr> refcnts := (refcnts ?h1) (n := Suc (refcnts h n)) \<rparr>"
  let ?h3 = "h \<lparr> ll_preds := (ll_preds h) (s := ptr_to n), refcnts := (refcnts h) (p := refcnts h p - 1, n := refcnts h n + 2) \<rparr>"
  let ?h4 = "?h3 \<lparr> refcnts := (refcnts ?h3) (s := Suc (refcnts ?h3 s)) \<rparr>"
  have adv: "pred_advance s (ptr_to p) (ptr_to n) ?h2 = Inr (ptr_to n, flagged_to s, ?h4)"
    using assms by (cases "p = s") (simp_all add: pred_advance_def ptr_cas_def Let_def ptr_clear_deref_def assert_that_def fun_upd_twist)
  have "pred_search s (ptr_to p) ?h1 = Inr (ptr_to n, ?h3)"
    using assms adv by (cases "p = s") (simp_all add: pred_search_def pred_forward.simps fun_upd_twist)
  then show ?thesis using assms by (simp add: ll_find_pred_def deref_def Let_def pred_loop.simps)
qed

lemma insert_between_ok:
  assumes n: "ll_succs h n = flagged_to 0" "ll_preds h n = ptr_to 0" "1 \<le> refcnts h n"
    and l: "ll_succs h p = ptr_to s" "ll_preds h s = ptr_to p" "\<not> ptr_flag (ll_preds h p)" "1 \<le> refcnts h p" "1 \<le> refcnts h s"
    and d: "p \<noteq> 0" "n \<noteq> 0" "s \<noteq> 0" "n \<noteq> p" "n \<noteq> s"
  shows "insert_between q n p s h = Inr (True, h \<lparr> ll_succs := (ll_succs h) (n := ptr_to s, p := ptr_to n),
    ll_preds := (ll_preds h) (n := ptr_to p, s := ptr_to n), refcnts := (refcnts h) (n := refcnts h n + 2),
    ll_sizes := (ll_sizes h) (q := ll_sizes h q + 1) \<rparr>)"
proof (cases "p = s")
  case True
  show ?thesis
    using assms unfolding True
    by (simp add: insert_between_def cas_surely_def ptr_cas_def Let_def ptr_clear_deref_def assert_that_def deref_def
        insert_finish_def find_pred_advance fun_upd_twist)
next
  case False
  then show ?thesis
    using assms 
    by (simp add: insert_between_def cas_surely_def ptr_cas_def Let_def ptr_clear_deref_def assert_that_def deref_def
        insert_finish_def find_pred_advance fun_upd_twist)
qed

lemma successively_upto:
  assumes "successively P xs" "\<And>a b. a \<in> set (butlast xs) \<Longrightarrow> b \<in> set (tl xs) \<Longrightarrow> P a b \<Longrightarrow> R a b"
  shows "successively R xs"
  using assms
proof (induction P xs rule: successively.induct)
  case (3 P x y xs)
  show ?case
    using "3.prems" by (auto intro!: "3.IH")
qed auto

lemma linked_split:
  "successively P (q # (xs @ ys) @ [q]) \<longleftrightarrow>
   successively P (q # xs) \<and> successively P (ys @ [q]) \<and> P (last (q # xs)) (hd (ys @ [q]))"
  using successively_append_iff [of P "q # xs" "ys @ [q]"] by auto

lemma linked_split_mid:
  "successively P (q # (xs @ n # ys) @ [q]) \<longleftrightarrow>
   successively P (q # xs) \<and> successively P (ys @ [q]) \<and> P (last (q # xs)) n \<and> P n (hd (ys @ [q]))"
  using successively_append_iff [of P "q # xs" "n # ys @ [q]"] by (auto simp: successively_Cons)

lemma last_hd_simps:
  assumes "distinct (q # xs @ ys)" 
  shows "last (q # xs) \<notin> set (butlast (q # xs))" "last (q # xs) \<notin> set ys" 
    "hd (ys @ [q]) \<notin> set (tl (ys @ [q]))" "hd (ys @ [q]) \<notin> set xs"
proof -
  show "last (q # xs) \<notin> set (butlast (q # xs))"
    using assms by (cases xs rule: rev_cases) auto
  show "last (q # xs) \<notin> set ys" using assms by (cases xs rule: rev_cases) auto
  show "hd (ys @ [q]) \<notin> set (tl (ys @ [q]))" "hd (ys @ [q]) \<notin> set xs" using assms by (cases ys; auto)+
qed

lemma ll_okD:
  assumes "ll_ok q (xs @ ys) ext h" 
  defines "p \<equiv> last (q # xs)" and "s \<equiv> hd (ys @ [q])"
  shows "ll_succs h p = ptr_to s" "ll_preds h s = ptr_to p" "p \<noteq> 0" "s \<noteq> 0" "p \<in> set (q # xs)" "s \<in> set (q # ys)"
    "2 \<le> refcnts h p" "2 \<le> refcnts h s"
proof -
  show m: "p \<in> set (q # xs)" "s \<in> set (q # ys)" by (auto simp: p_def s_def hd_append)
  then show "p \<noteq> 0" "s \<noteq> 0" "2 \<le> refcnts h p" "2 \<le> refcnts h s"
    using assms(1) by (auto simp: ll_ok_def)
  have "linked_to h p s" using assms(1) unfolding ll_ok_def linked_split p_def s_def by simp
  then show "ll_succs h p = ptr_to s" "ll_preds h s = ptr_to p" by (auto simp: linked_to_def)
qed

lemma ll_ok_pred_unmarked:
  assumes "ll_ok q xs ext h" "x \<in> set (q # xs)"
  shows "\<not> ptr_flag (ll_preds h x)"
proof (cases "x = q")
  case True
  then show ?thesis using ll_okD (2) [of q xs "[]" ext h] assms(1) by simp
next
  case False
  then obtain as bs where "xs = as @ x # bs" using assms(2) by (auto dest: split_list)
  then show ?thesis using ll_okD (2) [of q as "x # bs" ext h] assms(1) by simp
qed

lemma link_in_links:
  assumes "linked_to h a b" "a \<noteq> n" "a \<noteq> p" "b \<noteq> n" "b \<noteq> s"
  shows "linked_to (link_in q n p s h) a b"
  using assms by (simp add: linked_to_def link_in_def)

lemma link_in_ok:
  assumes ok: "ll_ok q (xs @ ys) ext h" and n: "n \<notin> set (q # xs @ ys)" "n \<noteq> 0" "refcnts h n = e"
  shows "ll_ok q (xs @ n # ys) (ext (n := e)) (link_in q n (last (q # xs)) (hd (ys @ [q])) h)"
proof -
  define p s where ps: "p = last (q # xs)" "s = hd (ys @ [q])"
  let ?h = "link_in q n p s h"
  have d: "distinct (q # xs @ ys)" using ok by (simp add: ll_ok_def)
  note e = last_hd_simps [OF d, folded ps]
  have nps: "n \<noteq> p" "n \<noteq> s" using n(1) by (auto simp: ps hd_append)
  have l: "successively (linked_to h) (q # xs)" "successively (linked_to h) (ys @ [q])"
    using ok unfolding ll_ok_def linked_split by auto
  have "successively (linked_to ?h) (q # xs)"
  proof (rule successively_upto [OF l(1)])
    fix a b assume k: "a \<in> set (butlast (q # xs))" "b \<in> set (tl (q # xs))" "linked_to h a b"
    have "a \<in> set (q # xs)" using k(1) by (rule in_set_butlastD)
    then show "linked_to ?h a b" using k n(1) e(1,4) by (intro link_in_links) auto
  qed
  moreover have "successively (linked_to ?h) (ys @ [q])"
  proof (rule successively_upto [OF l(2)])
    fix a b assume k: "a \<in> set (butlast (ys @ [q]))" "b \<in> set (tl (ys @ [q]))" "linked_to h a b"
    have "b \<in> set (ys @ [q])" using k(2) by (rule list.set_sel(2) [rotated]) simp
    then show "linked_to ?h a b" using k n(1) e(2,3) by (intro link_in_links) auto
  qed
  moreover have "linked_to ?h p n" "linked_to ?h n s" using nps by (auto simp: linked_to_def link_in_def)
  ultimately have "successively (linked_to ?h) (q # (xs @ n # ys) @ [q])" unfolding linked_split_mid ps by blast
  then show ?thesis using ok n unfolding ps [symmetric] by (auto simp: ll_ok_def link_in_def)
qed

lemma insert_begin_ok [simp]:
  assumes "ll_succs h n = ptr_to 0" "ll_preds h n = ptr_to 0" "n \<noteq> 0"
  shows "insert_begin n False h = Inr (True, h \<lparr> ll_succs := (ll_succs h) (n := flagged_to 0), refcnts := (refcnts h) (n := Suc (refcnts h n)) \<rparr>)"
  using assms by (simp add: insert_begin_def insert_lock_def Let_def)

lemma insert_between_ll_ok:
  assumes ok: "ll_succs h p = ptr_to s" "ll_preds h s = ptr_to p" "\<not> ptr_flag (ll_preds h p)" "p \<noteq> 0" "s \<noteq> 0" 
    and n: "ll_succs h n = flagged_to 0" "ll_preds h n = ptr_to 0" "n \<noteq> 0" "n \<noteq> p" "n \<noteq> s"
    and k: "1 \<le> refcnts h n" "1 \<le> refcnts h p" "1 \<le> refcnts h s"
  shows "insert_between q n p s h = Inr (True, link_in q n p s h)"
  using assms by (simp add: insert_between_ok link_in_def)

lemma ll_insert_head_ok:
  assumes l: "ll_succs h q = ptr_to s" "ll_preds h s = ptr_to q" "\<not> ptr_flag (ll_preds h q)" "q \<noteq> 0" "s \<noteq> 0"
      "1 \<le> refcnts h q" "1 \<le> refcnts h s"
    and n: "ll_succs h n = ptr_to 0" "ll_preds h n = ptr_to 0" "n \<noteq> 0" "n \<noteq> q" "n \<noteq> s"
  shows "ll_insert_head q n False h = Inr (True, link_in q n q s h)"
  using assms by (cases "q = s") (simp_all add: ll_insert_head_def head_loop.simps insert_between_ll_ok, simp_all add: link_in_def)

lemma ll_insert_tail_ok:
  assumes l: "ll_succs h p = ptr_to q" "ll_preds h q = ptr_to p" "\<not> ptr_flag (ll_preds h p)" "q \<noteq> 0" "p \<noteq> 0"
      "1 \<le> refcnts h q" "1 \<le> refcnts h p"
    and n: "ll_succs h n = ptr_to 0" "ll_preds h n = ptr_to 0" "n \<noteq> 0" "n \<noteq> q" "n \<noteq> p"
  shows "ll_insert_tail q n False h = Inr (True, link_in q n p q h)"
  using assms by (cases "q = p") (simp_all add: ll_insert_tail_def tail_loop.simps find_pred_ok insert_between_ll_ok, simp_all add: link_in_def)

lemma ll_insert_after_ok:
  assumes l: "ll_succs h p = ptr_to s" "ll_preds h s = ptr_to p" "\<not> ptr_flag (ll_preds h p)" "p \<noteq> 0" "s \<noteq> 0"
      "1 \<le> refcnts h p" "1 \<le> refcnts h s"
    and n: "ll_succs h n = ptr_to 0" "ll_preds h n = ptr_to 0" "n \<noteq> 0" "n \<noteq> p" "n \<noteq> s"
  shows "ll_insert_after q n p False h = Inr (True, link_in q n p s h)"
  using assms by (cases "p = s") (simp_all add: ll_insert_after_def after_loop.simps insert_between_ll_ok, simp_all add: link_in_def fun_upd_twist)

lemma ll_insert_before_ok:
  assumes l: "ll_succs h p = ptr_to s" "ll_preds h s = ptr_to p" "\<not> ptr_flag (ll_preds h p)" "p \<noteq> 0" "s \<noteq> 0"
      "1 \<le> refcnts h p" "1 \<le> refcnts h s"
    and n: "ll_succs h n = ptr_to 0" "ll_preds h n = ptr_to 0" "n \<noteq> 0" "n \<noteq> p" "n \<noteq> s"
  shows "ll_insert_before q n s False h = Inr (True, link_in q n p s h)"
  using assms by (cases "p = s") (simp_all add: ll_insert_before_def before_loop.simps find_pred_ok insert_between_ll_ok, simp_all add: link_in_def fun_upd_twist)

lemma fresh_not_member:
  assumes ok: "ll_ok q xs ext h" and n: "fresh_elem n h"
  shows "n \<notin> set (q # xs)"
proof
  assume "n \<in> set (q # xs)"
  then obtain as bs where "q # xs = as @ n # bs" by (meson split_list)
  then have "\<exists>b. b \<noteq> 0 \<and> ll_succs h n = ptr_to b"
  proof (cases as)
    case Nil
    then show ?thesis using ll_okD(1,4) [of q "[]" xs ext h] ok \<open>q # xs = as @ n # bs\<close> by auto
  next
    case (Cons a as')
    then have "xs = (as' @ [n]) @ bs" using \<open>q # xs = as @ n # bs\<close> by simp
    then show ?thesis using ll_okD(1,4) [of q "as' @ [n]" bs ext h] ok by auto
  qed
  then show False using n by (auto simp: fresh_elem_def)
qed

lemma ll_ok_insert:
  assumes ok: "ll_ok q (xs @ ys) ext h" and n: "fresh_elem n h"
  defines "p \<equiv> last (q # xs)" and "s \<equiv> hd (ys @ [q])"
  shows "ll_insert_after q n p False h = Inr (True, link_in q n p s h)"
    "ll_insert_before q n s False h = Inr (True, link_in q n p s h)"
    "ll_ok q (xs @ n # ys) (ext (n := refcnts h n)) (link_in q n p s h)"
proof -
  note D = ll_okD [OF ok, folded p_def s_def]
  have u: "\<not> ptr_flag (ll_preds h p)" using D(5) by (intro ll_ok_pred_unmarked [OF ok]) auto
  have m: "n \<noteq> p" "n \<noteq> s" using fresh_not_member [OF ok n] D(5,6) by auto
  have k: "1 \<le> refcnts h p" "1 \<le> refcnts h s" using D by simp_all
  note f = n [unfolded fresh_elem_def]
  show "ll_insert_after q n p False h = Inr (True, link_in q n p s h)"
    using f by (intro ll_insert_after_ok D u m k) auto
  show "ll_insert_before q n s False h = Inr (True, link_in q n p s h)"
    using f by (intro ll_insert_before_ok D u m k) auto
  show "ll_ok q (xs @ n # ys) (ext (n := refcnts h n)) (link_in q n p s h)"
    unfolding p_def s_def using fresh_not_member [OF ok n] f by (intro link_in_ok [OF ok]) auto
qed

lemma ll_ok_insert_ends:
  assumes ok: "ll_ok q xs ext h" and n: "fresh_elem n h"
  shows "ll_insert_head q n False h = Inr (True, link_in q n q (hd (xs @ [q])) h)"
    "ll_insert_tail q n False h = Inr (True, link_in q n (last (q # xs)) q h)"
proof -
  have HT: "ll_ok q ([] @ xs) ext h" "ll_ok q (xs @ []) ext h" using ok by simp_all
  note H = ll_okD [OF HT(1)] and T = ll_okD [OF HT(2)]
  have f: "ll_succs h n = ptr_to 0" "ll_preds h n = ptr_to 0" "n \<noteq> 0" using n by (auto simp: fresh_elem_def)
  have m: "n \<notin> set (q # xs)" by (rule fresh_not_member [OF ok n])
  show "ll_insert_head q n False h = Inr (True, link_in q n q (hd (xs @ [q])) h)"
    using H m ll_ok_pred_unmarked [OF ok, of q] by (intro ll_insert_head_ok f) auto
  have t: "last (q # xs) \<in> set (q # xs)" by (rule last_in_set) simp
  show "ll_insert_tail q n False h = Inr (True, link_in q n (last (q # xs)) q h)"
    using T m t ll_ok_pred_unmarked [OF ok t] by (intro ll_insert_tail_ok f) auto
qed

lemma LL_INIT_ok: "q \<noteq> 0 \<Longrightarrow> ll_ok q [] (\<lambda>_. 0) (LL_INIT q h)"
  by (simp add: ll_ok_def LL_INIT_def linked_to_def)

lemma LL_INIT_ENTRY_ok:
  assumes ok: "ll_ok q xs ext h" and n: "n \<notin> set (q # xs)"
  shows "ll_ok q xs ext (LL_INIT_ENTRY n h)"
proof -
  have "successively (linked_to (LL_INIT_ENTRY n h)) (q # xs @ [q])"
  proof (rule successively_upto)
    show "successively (linked_to h) (q # xs @ [q])" using ok by (simp add: ll_ok_def)
    fix a b assume ab: "a \<in> set (butlast (q # xs @ [q]))" "b \<in> set (tl (q # xs @ [q]))" "linked_to h a b"
    have "a \<noteq> n" "b \<noteq> n" using ab(1,2) n by (auto simp: butlast_append)
    then show "linked_to (LL_INIT_ENTRY n h) a b" using ab(3) by (simp add: linked_to_def LL_INIT_ENTRY_def)
  qed
  then show ?thesis using ok n by (auto simp: ll_ok_def LL_INIT_ENTRY_def)
qed

lemma LL_INIT_ENTRY_fresh: "n \<noteq> 0 \<Longrightarrow> fresh_elem n (LL_INIT_ENTRY n h)"
  by (simp add: fresh_elem_def LL_INIT_ENTRY_def)

lemma held_simps [simp]:
  "ll_succs (held a h) = ll_succs h" "ll_preds (held a h) = ll_preds h" "ll_sizes (held a h) = ll_sizes h"
  "refcnts (held a h) a = Suc (refcnts h a)" "b \<noteq> a \<Longrightarrow> refcnts (held a h) b = refcnts h b"
  "a \<noteq> 0 \<Longrightarrow> deref_release a (Suc 0) (held a h) = Inr h"
  by (simp_all add: held_def)

lemma release_other [simp]: "a \<noteq> 0 \<Longrightarrow> deref_release a (Suc 0) (held b (held a h)) = Inr (held b h)"
  by (cases "a = b") (simp_all add: held_def fun_upd_twist)

lemma find_succ_held:
  assumes "ll_succs h n = ptr_to s" "n \<noteq> 0" "s \<noteq> 0" "\<not> ptr_flag (ll_preds h s)"
  shows "ll_find_succ n h = Inr (ptr_to s, held s h)"
  using assms by (simp add: held_def)

lemma find_pred_held:
  assumes "ll_preds h n = ptr_to p" "n \<noteq> 0" "p \<noteq> 0" "ll_succs h p = ptr_to n" "\<not> ptr_flag (ll_preds h p)"
  shows "ll_find_pred n h = Inr (ptr_to p, held p h)"
  using find_pred_ok [OF assms] by (simp add: held_def)

text \<open>Walking on from an element behind the removed one changes no pointer.\<close>

lemma sweep_walk:
  assumes "successively (\<lambda>a b. ll_succs h a = ptr_to b) (xs @ [q])" "q \<notin> set xs"
    "\<forall>x \<in> set (xs @ [q]). x \<noteq> 0 \<and> x \<noteq> n \<and> \<not> ptr_flag (ll_preds h x) \<and> ptr_addr (ll_preds h x) \<noteq> n"
  shows "\<exists>j. j \<noteq> 0 \<and> unlink_sweep q n (hd (xs @ [q])) (held (hd (xs @ [q])) h) = Some (Inr (j, held j h))"
  using assms
proof (induction xs)
  case Nil
  then show ?case by (intro exI [of _ q]) (simp add: unlink_sweep.simps [of q n q])
next
  case (Cons x xs)
  let ?y = "hd (xs @ [q])"
  have "?y \<in> set (xs @ [q])" by (rule hd_in_set) simp
  then have y: "?y \<noteq> 0" "\<not> ptr_flag (ll_preds h ?y)" using Cons.prems(3) by auto
  have x: "ll_succs h x = ptr_to ?y" "x \<noteq> 0" "x \<noteq> q" "x \<noteq> n" "ptr_addr (ll_preds h x) \<noteq> n"
    using Cons.prems by (auto simp: successively_Cons)
  obtain j where j: "j \<noteq> 0" "unlink_sweep q n ?y (held ?y h) = Some (Inr (j, held j h))"
    using Cons by (auto simp: successively_Cons)
  show ?case
  proof (cases "refcnts h n \<le> 1")
    case True
    then show ?thesis using x by (intro exI [of _ x]) (simp add: unlink_sweep.simps [of q n x])
  next
    case False
    then show ?thesis using x y j by (intro exI [of _ j]) (simp add: unlink_sweep.simps [of q n x] find_succ_held del: find_succ_ok ref_simps)
  qed
qed

lemma unlink_mark_ok:
  assumes "ll_preds h n = ptr_to p" "ll_succs h p = ptr_to n" "\<not> ptr_flag (ll_preds h p)" "p \<noteq> 0" "n \<noteq> 0" "n \<noteq> p"
  shows "unlink_mark n h = Some (Inr (Some (ptr_to p), held p (h \<lparr> ll_preds := (ll_preds h) (n := flagged_to p) \<rparr>)))"
proof -
  have "unlink_find n h = Some (Inr (Some (ptr_to p), held p (h \<lparr> ll_succs := (ll_succs h) (p := (ptr_to n) \<lparr> ptr_deref := True \<rparr>) \<rparr>)))"
    using assms by (simp add: unlink_find.simps find_pred_held unlink_ps_lock_def Let_def) (simp add: held_def)
  then show ?thesis
    using assms by (simp add: unlink_mark.simps Let_def ptr_clear_deref_def assert_that_def) (simp add: held_def fun_upd_idem)
qed

lemma linked_preds:
  "successively (linked_to h) l \<Longrightarrow> x \<in> set (tl l) \<Longrightarrow> \<exists>a \<in> set (butlast l). ll_preds h x = ptr_to a"
  by (induction "linked_to h" l rule: successively.induct) (auto simp: linked_to_def)

lemma cut_out_simps:
  "ll_succs (cut_out q n p s k h) = (ll_succs h) (p := ptr_to s)"
  "ll_preds (cut_out q n p s k h) = (ll_preds h) (n := flagged_to p, s := ptr_to p)"
  "n \<noteq> p \<Longrightarrow> n \<noteq> s \<Longrightarrow> refcnts (cut_out q n p s k h) n = k"
  by (simp_all add: cut_out_def)

text \<open>The first round of the sweep takes the last pointer to \<open>n\<close> away, the others only walk to the end.\<close>

lemma sweep_fix:
  fixes q :: addr and k :: nat
  assumes "ll_preds h s = ptr_to n" "ll_succs h n = ptr_to s" "\<not> ptr_flag (ll_preds h p)"
    "p \<noteq> 0" "n \<noteq> 0" "s \<noteq> 0" "n \<noteq> p" "n \<noteq> s" 
  defines "g \<equiv> held s (h \<lparr> ll_succs := (ll_succs h) (p := ptr_to s), ll_preds := (ll_preds h) (n := flagged_to p),
    refcnts := (refcnts h) (n := Suc k), ll_sizes := (ll_sizes h) (q := ll_sizes h q - 1) \<rparr>)"
  shows "cbind (ll_find_pred s (held s g)) (\<lambda>(x, h1). deref_release (ptr_addr x) 1 h1) = Inr (held s (cut_out q n p s k h))"
proof -
  have "ll_find_pred s (held s g) = Inr (ptr_to p, held s g \<lparr> ll_preds := (ll_preds (held s g)) (s := ptr_to p),
      refcnts := (refcnts (held s g)) (n := refcnts (held s g) n - 1, p := refcnts (held s g) p + 2) \<rparr>)"
    using assms by (intro find_pred_skip) (auto simp: g_def)
  then show ?thesis
    using assms by (cases "p = s") (simp_all add: g_def cut_out_def held_def fun_upd_twist)
qed

lemma cut_first:
  assumes "ll_succs h p = ptr_to n" "ll_succs h n = ptr_to s" "\<not> ptr_flag (ll_preds h s)"
    "p \<noteq> 0" "n \<noteq> 0" "s \<noteq> 0" "n \<noteq> p" "n \<noteq> s" "refcnts h n = 2 + k"
  shows "cbind (ll_find_succ p (held p (h \<lparr> ll_preds := (ll_preds h) (n := flagged_to p) \<rparr>))) (\<lambda>(x, h2).
      cbind (deref_release (ptr_addr x) 1 h2) (deref_release p 1)) =
    Inr (held s (h \<lparr> ll_succs := (ll_succs h) (p := ptr_to s), ll_preds := (ll_preds h) (n := flagged_to p),
      refcnts := (refcnts h) (n := Suc k) \<rparr>))"
proof -
  define g where "g = held p (h \<lparr> ll_preds := (ll_preds h) (n := flagged_to p) \<rparr>)"
  have "ll_find_succ p g = Inr (ptr_to s, g \<lparr> ll_succs := (ll_succs g) (p := ptr_to s),
      refcnts := (refcnts g) (n := refcnts g n - 1, s := refcnts g s + 2) \<rparr>)"
    using assms by (intro find_succ_skip) (auto simp: g_def)
  then show ?thesis
    using assms unfolding g_def [symmetric] by (cases "p = s") (simp_all add: g_def held_def fun_upd_twist)
qed

text \<open>The neighbours of a member.\<close>

lemma ll_ok_neighbours:
  assumes ok: "ll_ok q (xs @ n # ys) ext h"
  defines "p \<equiv> last (q # xs)" and "s \<equiv> hd (ys @ [q])"
  shows "ll_succs h p = ptr_to n" "ll_preds h n = ptr_to p" "ll_succs h n = ptr_to s" "ll_preds h s = ptr_to n"
    "p \<noteq> 0" "n \<noteq> 0" "s \<noteq> 0" "n \<noteq> p" "n \<noteq> s" "\<not> ptr_flag (ll_preds h p)" "\<not> ptr_flag (ll_preds h s)" "refcnts h n = 2 + ext n"
    "successively (linked_to h) (ys @ [q])"
proof -
  have ok2: "ll_ok q ((xs @ [n]) @ ys) ext h" using ok by simp
  note A = ll_okD [OF ok] and B = ll_okD [OF ok2]
  show "ll_succs h p = ptr_to n" "ll_preds h n = ptr_to p" "ll_succs h n = ptr_to s" "ll_preds h s = ptr_to n"
    "p \<noteq> 0" "n \<noteq> 0" "s \<noteq> 0"
    using A B by (simp_all add: p_def s_def)
  show "refcnts h n = 2 + ext n" using ok by (simp add: ll_ok_def)
  have m: "p \<in> set (q # xs)" "s \<in> set (q # ys)" using A(5) B(6) by (simp_all only: p_def s_def)
  then show "n \<noteq> p" "n \<noteq> s" using ok by (auto simp: ll_ok_def)
  show "\<not> ptr_flag (ll_preds h p)" "\<not> ptr_flag (ll_preds h s)" using m by (auto intro!: ll_ok_pred_unmarked [OF ok])
  show "successively (linked_to h) (ys @ [q])" using ok unfolding ll_ok_def linked_split_mid by blast
qed

lemma sweep_all:
  assumes ok: "ll_ok q (xs @ n # ys) ext h" and k: "ext n = Suc k"
  defines "p \<equiv> last (q # xs)" and "s \<equiv> hd (ys @ [q])"
  defines "g \<equiv> held s (h \<lparr> ll_succs := (ll_succs h) (p := ptr_to s), ll_preds := (ll_preds h) (n := flagged_to p),
    refcnts := (refcnts h) (n := Suc (ext n)), ll_sizes := (ll_sizes h) (q := ll_sizes h q - 1) \<rparr>)"
  shows "\<exists>j. j \<noteq> 0 \<and> unlink_sweep q n s (held s g) = Some (Inr (j, held j (cut_out q n p s (ext n) h)))"
proof -
  let ?c = "cut_out q n p s (ext n) h"
  note N = ll_ok_neighbours [OF ok, folded p_def s_def]
  have d: "distinct (q # xs @ n # ys)" using ok by (simp add: ll_ok_def)
  have g: "\<not> refcnts (held s g) n \<le> 1" "ptr_addr (ll_preds (held s g) s) = n" using N k by (auto simp: g_def)
  note repair = sweep_fix [OF N(4,3,10,5-9), of q "ext n", folded g_def]
  show ?thesis
  proof (cases ys)
    case Nil
    then have "s = q" by (simp add: s_def)
    then show ?thesis using repair g N by (intro exI [of _ q]) (simp add: unlink_sweep.simps [of q n q])
  next
    case (Cons b zs)
    then have b: "b = s" by (simp add: s_def)
    let ?t = "hd (zs @ [q])"
    have walk: "\<exists>j. j \<noteq> 0 \<and> unlink_sweep q n ?t (held ?t ?c) = Some (Inr (j, held j ?c))"
    proof (rule sweep_walk)
      have l: "successively (linked_to h) (s # zs @ [q])" using N(13) Cons b by simp
      then have "successively (linked_to h) (zs @ [q])" by (simp add: successively_Cons)
      then show "successively (\<lambda>a b. ll_succs ?c a = ptr_to b) (zs @ [q])"
      proof (rule successively_upto)
        fix a y assume "a \<in> set (butlast (zs @ [q]))" "linked_to h a y"
        moreover have "p \<notin> set zs" using last_hd_simps(2) [of q xs ys] d Cons by (auto simp: p_def)
        ultimately show "ll_succs ?c a = ptr_to y" by (auto simp: linked_to_def cut_out_simps)
      qed
      show "\<forall>x \<in> set (zs @ [q]). x \<noteq> 0 \<and> x \<noteq> n \<and> \<not> ptr_flag (ll_preds ?c x) \<and> ptr_addr (ll_preds ?c x) \<noteq> n"
      proof
        fix x assume x: "x \<in> set (zs @ [q])"
        then obtain a where "a \<in> set (butlast (s # zs @ [q]))" "ll_preds h x = ptr_to a" using linked_preds [OF l, of x] by auto
        moreover have "x \<noteq> s" "x \<noteq> n" "x \<noteq> 0" using x d Cons b ok by (auto simp: ll_ok_def)
        ultimately show "x \<noteq> 0 \<and> x \<noteq> n \<and> \<not> ptr_flag (ll_preds ?c x) \<and> ptr_addr (ll_preds ?c x) \<noteq> n"
          using d Cons b by (auto simp: cut_out_simps butlast_append split: if_splits)
      qed
    qed (use d Cons in auto)
    then obtain j where j: "j \<noteq> 0" "unlink_sweep q n ?t (held ?t ?c) = Some (Inr (j, held j ?c))" by blast
    have t: "?t \<in> set (q # zs)" by (cases zs) auto
    have "ll_succs h s = ptr_to ?t" "s \<noteq> p" "s \<noteq> q" 
      using N(13) Cons b d last_hd_simps(2) [of q xs ys] by (auto simp: successively_Cons linked_to_def p_def)
    moreover have "\<not> ptr_flag (ll_preds ?c ?t)" "?t \<noteq> 0"
      using t d Cons b ll_ok_pred_unmarked [OF ok, of ?t] ok by (auto simp: cut_out_simps ll_ok_def)
    ultimately have "ll_find_succ s (held s ?c) = Inr (ptr_to ?t, held ?t (held s ?c))"
      using N by (intro find_succ_held) (auto simp: cut_out_simps)
    then show ?thesis
      using repair g N j \<open>s \<noteq> q\<close> by (intro exI [of _ j]) (simp add: unlink_sweep.simps [of q n s] del: find_succ_ok ref_simps)
  qed
qed

lemma cbind_assoc: "cbind (cbind m f) g = cbind m (\<lambda>x. cbind (f x) g)"
  by (simp add: cbind_def split: sum.split)

lemma llll_unlink_ok:
  assumes ok: "ll_ok q (xs @ n # ys) ext h" and k: "ext n = Suc k"
  shows "llll_unlink q n h = Inr (True, cut_out q n (last (q # xs)) (hd (ys @ [q])) (ext n) h)"
proof -
  define p s where ps: "p = last (q # xs)" "s = hd (ys @ [q])"
  note N = ll_ok_neighbours [OF ok, folded ps]
  let ?g = "\<lambda>sz. h \<lparr> ll_succs := (ll_succs h) (p := ptr_to s), ll_preds := (ll_preds h) (n := flagged_to p),
      refcnts := (refcnts h) (n := Suc (ext n)), ll_sizes := sz \<rparr>"
  obtain j where j: "j \<noteq> 0"
      "unlink_sweep q n s (held s (held s (?g ((ll_sizes h) (q := ll_sizes h q - 1))))) = Some (Inr (j, held j (cut_out q n p s (ext n) h)))"
    using sweep_all [OF ok k, folded ps] by blast
  have mark: "unlink_mark n h = Some (Inr (Some (ptr_to p), held p (h \<lparr> ll_preds := (ll_preds h) (n := flagged_to p) \<rparr>)))"
    using N by (intro unlink_mark_ok)
  have cut: "cbind (ll_find_succ p (held p (h \<lparr> ll_preds := (ll_preds h) (n := flagged_to p) \<rparr>))) (\<lambda>(x, h2).
      cbind (deref_release (ptr_addr x) 1 h2) (\<lambda>h3. cbind (deref_release p 1 h3) f)) = f (held s (?g (ll_sizes h)))" for f :: "ll_heap \<Rightarrow> (bool \<times> ll_heap) c_res"
    using arg_cong [OF cut_first [OF N(1,3,11,5-9,12)], of "\<lambda>r. cbind r f"] by (simp add: cbind_assoc split_def)
  have "held s (?g (ll_sizes h)) \<lparr> ll_sizes := (ll_sizes h) (q := ll_sizes h q - 1) \<rparr> = held s (?g ((ll_sizes h) (q := ll_sizes h q - 1)))"
    by (simp add: held_def)
  then show ?thesis
    using N j unfolding ps [symmetric] llll_unlink_def mark loop_res_def
    by (simp add: cut [unfolded One_nat_def] find_succ_held del: find_succ_ok ref_simps)
qed

lemma unlink_release_ok:
  assumes ok: "ll_ok q (xs @ n # ys) ext h" and k: "ext n = 1"
  defines "p \<equiv> last (q # xs)" and "s \<equiv> hd (ys @ [q])"
  shows "unlink_release n False (cut_out q n p s (ext n) h) = Inr (link_out q n p s h)"
proof -
  note N = ll_ok_neighbours [OF ok, folded p_def s_def]
  show ?thesis
    using N k by (cases "p = s") (simp_all add: unlink_release_def cut_out_def link_out_def cas_surely_def ptr_cas_def Let_def ptr_clear_deref_def
        assert_that_def held_def fun_upd_twist)
qed

lemma unlink_release_waits: "refcnts h n > 1 \<Longrightarrow> unlink_release n w h = Inl NoReturn"
  by (simp add: unlink_release_def)

lemma link_out_links:
  assumes "linked_to h a b" "a \<noteq> n" "a \<noteq> p" "b \<noteq> n" "b \<noteq> s"
  shows "linked_to (link_out q n p s h) a b"
  using assms by (simp add: linked_to_def link_out_def)

lemma link_out_ok:
  assumes ok: "ll_ok q (xs @ n # ys) ext h"
  shows "ll_ok q (xs @ ys) ext (link_out q n (last (q # xs)) (hd (ys @ [q])) h)"
proof -
  define p s where ps: "p = last (q # xs)" "s = hd (ys @ [q])"
  let ?h = "link_out q n p s h"
  note N = ll_ok_neighbours [OF ok, folded ps]
  have d: "distinct (q # xs @ n # ys)" "distinct (q # xs @ ys)" using ok by (auto simp: ll_ok_def)
  note e = last_hd_simps [OF d(2), folded ps]
  have l: "successively (linked_to h) (q # xs)" "successively (linked_to h) (ys @ [q])"
    using ok unfolding ll_ok_def linked_split_mid by auto
  have "successively (linked_to ?h) (q # xs)"
  proof (rule successively_upto [OF l(1)])
    fix a b assume k: "a \<in> set (butlast (q # xs))" "b \<in> set (tl (q # xs))" "linked_to h a b"
    have "a \<in> set (q # xs)" using k(1) by (rule in_set_butlastD)
    then show "linked_to ?h a b" using k d(1) e(1,4) by (intro link_out_links) auto
  qed
  moreover have "successively (linked_to ?h) (ys @ [q])"
  proof (rule successively_upto [OF l(2)])
    fix a b assume k: "a \<in> set (butlast (ys @ [q]))" "b \<in> set (tl (ys @ [q]))" "linked_to h a b"
    have "b \<in> set (ys @ [q])" using k(2) by (rule list.set_sel(2) [rotated]) simp
    then show "linked_to ?h a b" using k d(1) e(2,3) by (intro link_out_links) auto
  qed
  moreover have "linked_to ?h p s" using N(8,9) by (auto simp: linked_to_def link_out_def)
  ultimately have "successively (linked_to ?h) (q # (xs @ ys) @ [q])" unfolding linked_split ps by blast
  then show ?thesis using ok unfolding ps [symmetric] by (auto simp: ll_ok_def link_out_def)
qed

text \<open>
  The contract of a reference-counted list: \<open>holds xs ext h\<close> says that the heap \<open>h\<close> has the list \<open>xs\<close>, whose
  elements callers hold \<open>ext\<close> times.  A lookup hands out one more reference; a removal wants exactly one.
\<close>

locale ref_list =
  fixes holds :: "'a list \<Rightarrow> ('a \<Rightarrow> nat) \<Rightarrow> 'h \<Rightarrow> bool"
    and first :: "'h \<Rightarrow> ('a option \<times> 'h) c_res"
    and nxt :: "'a \<Rightarrow> 'h \<Rightarrow> ('a option \<times> 'h) c_res"
    and release :: "'a \<Rightarrow> 'h \<Rightarrow> 'h c_res"
    and unlink :: "'a \<Rightarrow> 'h \<Rightarrow> (bool \<times> 'h) c_res"
  assumes holds_distinct: "holds xs ext h \<Longrightarrow> distinct xs"
    and holds_cong: "holds xs ext h \<Longrightarrow> (\<And>x. x \<in> set xs \<Longrightarrow> ext x = ext' x) \<Longrightarrow> holds xs ext' h"
    and first_ok: "holds xs ext h \<Longrightarrow> \<exists>h'. first h = Inr (first_of xs, h') \<and> holds xs (one_more (first_of xs) ext) h'"
    and nxt_ok: "holds (xs @ x # ys) ext h \<Longrightarrow>
      \<exists>h'. nxt x h = Inr (first_of ys, h') \<and> holds (xs @ x # ys) (one_more (first_of ys) ext) h'"
    and release_ok: "holds xs ext h \<Longrightarrow> x \<in> set xs \<Longrightarrow> 0 < ext x \<Longrightarrow>
      \<exists>h'. release x h = Inr h' \<and> holds xs (ext (x := ext x - 1)) h'"
    and unlink_ok: "holds (xs @ x # ys) ext h \<Longrightarrow> ext x = 1 \<Longrightarrow> \<exists>h'. unlink x h = Inr (True, h') \<and> holds (xs @ ys) ext h'"
begin

lemma step_ok:
  assumes "holds (xs @ x # ys) (one_more (Some x) ext) h"
  shows "\<exists>h'. ll_foreach_succ nxt release x h = Inr (first_of ys, h') \<and> holds (xs @ x # ys) (one_more (first_of ys) ext) h'"
proof -
  define e where "e = one_more (first_of ys) (one_more (Some x) ext)"
  obtain h1 where 1: "nxt x h = Inr (first_of ys, h1)" "holds (xs @ x # ys) e h1"
    using nxt_ok [OF assms] unfolding e_def by blast
  have d: "distinct (xs @ x # ys)" by (rule holds_distinct [OF assms])
  have e: "0 < e x" "(e (x := e x - 1)) y = one_more (first_of ys) ext y" for y
    using d by (cases ys; auto simp: e_def one_more_def first_of_def)+
  obtain h2 where 2: "release x h1 = Inr h2" "holds (xs @ x # ys) (e (x := e x - 1)) h2"
    using release_ok [OF 1(2) _ e(1)] by auto
  have "holds (xs @ x # ys) (one_more (first_of ys) ext) h2"
    using 2(2) e(2) by (rule holds_cong)
  then show ?thesis using 1(1) 2(1) by (simp add: ll_foreach_succ_def)
qed

lemma walk_ok:
  assumes "holds (xs @ ys) (one_more (first_of ys) ext) h"
  shows "\<exists>h'. ll_foreach nxt release P (first_of ys) h = Some (Inr (find P ys, h')) \<and> holds (xs @ ys) (one_more (find P ys) ext) h'"
  using assms
proof (induction ys arbitrary: xs h)
  case Nil
  then show ?case by (simp add: first_of_def ll_foreach.simps)
next
  case (Cons y ys)
  have y: "first_of (y # ys) = Some y" by (simp add: first_of_def)
  show ?case
  proof (cases "P y")
    case True
    then show ?thesis using Cons.prems by (simp add: y ll_foreach.simps)
  next
    case False
    obtain h1 where 1: "ll_foreach_succ nxt release y h = Inr (first_of ys, h1)" "holds ((xs @ [y]) @ ys) (one_more (first_of ys) ext) h1"
      using step_ok [of xs y ys ext h] Cons.prems by (auto simp: y)
    obtain h' where "ll_foreach nxt release P (first_of ys) h1 = Some (Inr (find P ys, h'))" "holds ((xs @ [y]) @ ys) (one_more (find P ys) ext) h'"
      using Cons.IH [OF 1(2)] by blast
    then show ?thesis using False 1(1) by (simp add: y ll_foreach.simps [of _ _ _ "Some y"])
  qed
qed

lemma search_ok:
  assumes "holds xs ext h"
  shows "\<exists>h1 h'. first h = Inr (first_of xs, h1) \<and> ll_foreach nxt release P (first_of xs) h1 = Some (Inr (find P xs, h')) \<and>
    holds xs (one_more (find P xs) ext) h'"
  using first_ok [OF assms] walk_ok [of "[]" xs ext] by fastforce

lemma unlink_remove1:
  assumes h: "holds xs (one_more (Some x) ext) h" and x: "x \<in> set xs" "ext x = 0"
  shows "\<exists>h'. unlink x h = Inr (True, h') \<and> holds (remove1 x xs) ext h'"
proof -
  obtain as bs where s: "xs = as @ x # bs" using x(1) by (meson split_list)
  then have n: "x \<notin> set as" "x \<notin> set bs" using holds_distinct [OF h] by auto
  obtain h' where "unlink x h = Inr (True, h')" "holds (as @ bs) (one_more (Some x) ext) h'"
    using unlink_ok [of as x bs "one_more (Some x) ext" h] h x(2) s by (auto simp: one_more_def)
  moreover have "holds (as @ bs) ext h'"
    using calculation(2) by (rule holds_cong) (use n in \<open>auto simp: one_more_def\<close>)
  ultimately show ?thesis using n s by (simp add: remove1_append)
qed

end

lemma ll_ok_cong: "ll_ok q xs ext h \<Longrightarrow> (\<And>x. x \<in> set xs \<Longrightarrow> ext x = ext' x) \<Longrightarrow> ll_ok q xs ext' h"
  by (auto simp: ll_ok_def)

lemma linked_refs [simp]: "linked_to (h \<lparr> refcnts := r \<rparr>) = linked_to h"
  by (intro ext) (simp add: linked_to_def)

lemma held_ok: "ll_ok q xs ext h \<Longrightarrow> x \<in> set xs \<Longrightarrow> ll_ok q xs (ext (x := Suc (ext x))) (held x h)"
  by (auto simp: ll_ok_def held_def)

lemma release_ok:
  assumes "ll_ok q xs ext h" "x \<in> set xs" "0 < ext x"
  shows "\<exists>h'. ll_release q x h = Inr h' \<and> ll_ok q xs (ext (x := ext x - 1)) h'"
proof -
  have "x \<noteq> q" "refcnts h x = 2 + ext x" "x \<noteq> 0" using assms by (auto simp: ll_ok_def intro: gr0I)
  then show ?thesis using assms by (auto simp: ll_release_def ll_ok_def)
qed

text \<open>A lookup that finds \<open>s\<close> behind \<open>n\<close>: the head itself is not handed out.\<close>

lemma ll_succ_ok:
  assumes ok: "ll_ok q xs ext h" and n: "ll_succs h n = ptr_to s" "n \<noteq> 0" and s: "s = hd (ys @ [q])" "set ys \<subseteq> set xs"
  shows "\<exists>h'. ll_succ q n h = Inr (first_of ys, h') \<and> ll_ok q xs (one_more (first_of ys) ext) h'"
proof -
  have m: "s \<in> set (q # xs)" using s by (cases ys) auto
  have "s \<noteq> 0" "\<not> ptr_flag (ll_preds h s)" using m ok ll_ok_pred_unmarked [OF ok m] by (auto simp: ll_ok_def intro: gr0I)
  then have f: "ll_find_succ n h = Inr (ptr_to s, held s h)" using n by (intro find_succ_held)
  show ?thesis
  proof (cases ys)
    case Nil
    then show ?thesis using f ok s \<open>s \<noteq> 0\<close>
      by (simp add: ll_succ_def not_head_def first_of_def one_more_def del: find_succ_ok ref_simps)
  next
    case (Cons y zs)
    then have "s \<noteq> q" "s = y" using s ok by (auto simp: ll_ok_def)
    then show ?thesis using f held_ok [OF ok, of s] Cons \<open>s \<noteq> 0\<close> m
      by (auto simp: ll_succ_def not_head_def first_of_def one_more_def simp del: find_succ_ok ref_simps)
  qed
qed

lemma ll_unlink_ok:
  assumes ok: "ll_ok q (xs @ n # ys) ext h" and n: "ext n = 1"
  shows "ll_unlink q n True h = Inr (True, link_out q n (last (q # xs)) (hd (ys @ [q])) h)"
  using llll_unlink_ok [OF ok, of 0] unlink_release_ok [OF ok n] n by (simp add: ll_unlink_def)

lemma ll_unlink_waits:
  assumes ok: "ll_ok q (xs @ n # ys) ext h" and n: "1 < ext n"
  shows "ll_unlink q n True h = Inl NoReturn"
proof -
  have "1 < refcnts (cut_out q n (last (q # xs)) (hd (ys @ [q])) (ext n) h) n"
    using n ll_ok_neighbours(8,9) [OF ok] by (simp add: cut_out_simps(3))
  then show ?thesis
    using llll_unlink_ok [OF ok, of "ext n - 1"] n by (simp add: ll_unlink_def unlink_release_waits)
qed

interpretation nodes: ref_list "ll_ok q" "ll_first q" "ll_succ q" "ll_release q" "\<lambda>n. ll_unlink q n True" for q
proof unfold_locales
  fix xs :: "addr list" and ext :: "addr \<Rightarrow> nat" and h
  assume ok: "ll_ok q xs ext h"
  show "distinct xs" using ok by (simp add: ll_ok_def)
  have "ll_ok q ([] @ xs) ext h" using ok by simp
  then show "\<exists>h'. ll_first q h = Inr (first_of xs, h') \<and> ll_ok q xs (one_more (first_of xs) ext) h'"
    using ll_okD(1,3) [of q "[]" xs ext h] unfolding ll_first_def by (intro ll_succ_ok [OF ok]) auto
next
  fix xs ys :: "addr list" and x ext h
  assume ok: "ll_ok q (xs @ x # ys) ext h"
  show "\<exists>h'. ll_succ q x h = Inr (first_of ys, h') \<and> ll_ok q (xs @ x # ys) (one_more (first_of ys) ext) h'"
    using ll_ok_neighbours(3,6) [OF ok] by (intro ll_succ_ok [OF ok]) auto
  show "ext x = 1 \<Longrightarrow> \<exists>h'. ll_unlink q x True h = Inr (True, h') \<and> ll_ok q (xs @ ys) ext h'"
    using ll_unlink_ok [OF ok] link_out_ok [OF ok] by blast
qed (blast intro: ll_ok_cong release_ok)+

section \<open>Properties\<close>

lemma demo_ll_ok: "ll_ok 1 [10, 20] (\<lambda>_. 0) demo_ll" "fresh_elem 30 demo_ll" "refcnts demo_ll 30 = 0"
  by (simp_all add: demo_ll_def ll_ok_def link_in_def LL_INIT_def linked_to_def fresh_elem_def)

text \<open>C10. The four insertions of the reference-counted list implement insertion into the list of its elements: an
  element that is on no list ends up exactly behind its predecessor and before its successor, also at the two ends,
  every link in both directions is right again, and the references that callers hold are unchanged.
\<close>

theorem ll_insertions_refine:
  assumes ok: "ll_ok q (xs @ ys) ext h" and n: "fresh_elem n h"
  shows "\<exists>h'. ll_insert_after q n (last (q # xs)) False h = Inr (True, h') \<and>
    ll_insert_before q n (hd (ys @ [q])) False h = Inr (True, h') \<and>
    (xs = [] \<longrightarrow> ll_insert_head q n False h = Inr (True, h')) \<and> (ys = [] \<longrightarrow> ll_insert_tail q n False h = Inr (True, h')) \<and>
    ll_ok q (xs @ n # ys) (ext (n := refcnts h n)) h'"
  using ll_ok_insert [OF ok n] ll_ok_insert_ends [OF ok n] by (intro exI conjI) auto

theorem ll_insertions_refine_witness:
  "\<exists>h'. ll_insert_after 1 30 10 False demo_ll = Inr (True, h') \<and> ll_insert_before 1 30 20 False demo_ll = Inr (True, h') \<and>
    ll_ok 1 [10, 30, 20] (\<lambda>_. 0) h'"
  using ll_insertions_refine [of 1 "[10]" "[20]" "\<lambda>_. 0" demo_ll 30] demo_ll_ok by (auto simp: fun_upd_idem)

text \<open>C9. Removing an element of which the caller holds the only reference takes it out of the list and leaves every
  other link and reference as it was; the element is then on no list and its counter is zero, so that its memory
  can be used again.  While somebody else holds a reference to the element, the call does not come back.
\<close>

theorem ll_unlink_refines:
  assumes ok: "ll_ok q (xs @ n # ys) ext h" and n: "0 < ext n"
  shows "if ext n = 1
    then \<exists>h'. ll_unlink q n True h = Inr (True, h') \<and> ll_ok q (xs @ ys) ext h' \<and> fresh_elem n h' \<and> refcnts h' n = 0
    else ll_unlink q n True h = Inl NoReturn"
proof (cases "ext n = 1")
  case True
  then show ?thesis
    using ll_unlink_ok [OF ok True] link_out_ok [OF ok] ll_ok_neighbours(6) [OF ok]
    by (auto simp: fresh_elem_def link_out_def)
next
  case False
  then show ?thesis using ll_unlink_waits [OF ok] n by simp
qed

theorem ll_unlink_refines_witness:
  "(\<exists>h'. ll_unlink 1 10 True (held 10 demo_ll) = Inr (True, h') \<and> ll_ok 1 [20] (\<lambda>_. 0) h' \<and> refcnts h' 10 = 0) \<and>
   ll_unlink 1 10 True (held 10 (held 10 demo_ll)) = Inl NoReturn"
proof -
  have 1: "ll_ok 1 ([] @ 10 # [20]) ((\<lambda>_. 0) (10 := 1)) (held 10 demo_ll)" using held_ok [OF demo_ll_ok(1), of 10] by simp
  have 2: "ll_ok 1 ([] @ 10 # [20]) ((\<lambda>_. 0) (10 := 2)) (held 10 (held 10 demo_ll))" using held_ok [OF 1, of 10] by (simp add: numeral_2_eq_2)
  obtain h' where u: "ll_unlink 1 10 True (held 10 demo_ll) = Inr (True, h')" "ll_ok 1 [20] ((\<lambda>_. 0) (10 := 1)) h'" "refcnts h' 10 = 0"
    using ll_unlink_refines [OF 1] by auto
  have "ll_ok 1 [20] (\<lambda>_. 0) h'" using u(2) by (rule ll_ok_cong) simp
  then show ?thesis using u ll_unlink_refines [OF 2] by simp
qed

text \<open>
  \<open>ll_pop_front\<close> and \<open>ll_pop_back\<close> take the first and the last element of a list of which nobody
  holds a reference, and return NULL, leaving the heap alone, when there is none.
\<close>

theorem ll_pop_refines:
  assumes ok: "ll_ok q xs (\<lambda>_. 0) h"
  shows "\<exists>f b. ll_pop_front q True h = Inr (first_of xs, f) \<and> ll_ok q (tl xs) (\<lambda>_. 0) f \<and>
    ll_pop_back q True h = Inr (first_of (rev xs), b) \<and> ll_ok q (butlast xs) (\<lambda>_. 0) b"
proof -
  have q: "q \<noteq> 0" "\<not> ptr_flag (ll_preds h q)" using ok ll_ok_pred_unmarked [OF ok, of q] by (auto simp: ll_ok_def)
  have HT: "ll_ok q ([] @ xs) (\<lambda>_. 0) h" "ll_ok q (xs @ []) (\<lambda>_. 0) h" using ok by simp_all
  note H = ll_okD [OF HT(1)] and T = ll_okD [OF HT(2)]
  have pop: "\<exists>h'. ll_unlink q x True (held x h) = Inr (True, h') \<and> ll_ok q (ys @ zs) (\<lambda>_. 0) h'" if x: "xs = ys @ x # zs" for x ys zs
    using nodes.unlink_remove1 [of q xs x "\<lambda>_. 0" "held x h"] held_ok [OF ok, of x] x ok
    by (auto simp: one_more_def remove1_append ll_ok_def)
  have "\<exists>f. ll_pop_front q True h = Inr (first_of xs, f) \<and> ll_ok q (tl xs) (\<lambda>_. 0) f"
  proof (cases xs)
    case Nil
    then show ?thesis using ok q H by (simp add: ll_pop_front_def ll_pop_def find_succ_held first_of_def del: find_succ_ok ref_simps)
  next
    case (Cons x ys)
    then show ?thesis using pop [of "[]" x ys] ok H ll_ok_pred_unmarked [OF ok, of x]
      by (auto simp: ll_pop_front_def ll_pop_def find_succ_held first_of_def pop_loop.simps ll_ok_def simp del: find_succ_ok ref_simps)
  qed
  moreover have "\<exists>b. ll_pop_back q True h = Inr (first_of (rev xs), b) \<and> ll_ok q (butlast xs) (\<lambda>_. 0) b"
  proof (cases xs rule: rev_cases)
    case Nil
    then show ?thesis using ok q T by (simp add: ll_pop_back_def ll_pop_def find_pred_held first_of_def del: ref_simps)
  next
    case (snoc ys x)
    then show ?thesis using pop [of ys x "[]"] ok T ll_ok_pred_unmarked [OF ok, of x]
      by (auto simp: ll_pop_back_def ll_pop_def find_pred_held first_of_def pop_loop.simps ll_ok_def simp del: ref_simps)
  qed
  ultimately show ?thesis by blast
qed

theorem ll_pop_refines_witness:
  "\<exists>f b. ll_pop_front 1 True demo_ll = Inr (Some 10, f) \<and> ll_ok 1 [20] (\<lambda>_. 0) f \<and>
    ll_pop_back 1 True demo_ll = Inr (Some 20, b) \<and> ll_ok 1 [10] (\<lambda>_. 0) b"
  using ll_pop_refines [OF demo_ll_ok(1)] by (simp add: first_of_def)

end
