(* ===== verification/Epoll_Nodes.thy ===== *)
theory Epoll_Nodes
  imports Epoll Ll_List
begin

text \<open>
  The epoll nodes of a socket on the reference-counted list.  The other theories keep the nodes of a socket as a list;
  here the functions of \<open>light_api.c\<close> and \<open>light_server_side.h\<close> that walk over, extend and shorten that list are
  modelled once more with the calls of \<open>ll.c\<close> they make, on a heap with the list at address \<open>q\<close>, and shown
  to agree with the functions on the list of nodes, references included.  A node and its list entry have one address.
\<close>

section \<open>Operations\<close>


definition search_epoll_node :: "addr \<Rightarrow> int \<Rightarrow> 'z epoll_env_scheme \<Rightarrow> ll_heap \<Rightarrow> (addr option \<times> ll_heap) c_res" where
  "search_epoll_node q e s h =
     cbind (ll_first q h) (\<lambda>(v, h1).
     cbind (loop_res (ll_foreach (ll_succ q) (ll_release q) (\<lambda>o'. node_epoll_idx (enodes s o') = e) v h1)) (\<lambda>r. r))"

definition delete_epoll_node ::
  "addr \<Rightarrow> int \<Rightarrow> 'z epoll_env_scheme \<Rightarrow> ll_heap \<Rightarrow> (int \<times> 'z epoll_env_scheme \<times> ll_heap) c_res" where
  "delete_epoll_node q e s h =
     cbind (search_epoll_node q e s h) (\<lambda>(v, h1).
     case v of None \<Rightarrow> Inr (- 1, s, h1)
     | Some o' \<Rightarrow>
       cbind (ll_unlink q o' True h1) (\<lambda>(_, h2).
       Inr (0, free_epoll_node_buf o' (upd_node o' (\<lambda>n. n \<lparr> node_epoll_idx := - 1, epoll_events := 0, ready_events := 0 \<rparr>) s), h2)))"

text \<open>A node from the pool is initialised before it is put on the list.\<close>

definition add_epoll_node :: "addr \<Rightarrow> addr \<Rightarrow> ll_heap \<Rightarrow> ll_heap c_res" where
  "add_epoll_node q o' h = cbind (ll_insert_head q o' False (LL_INIT_ENTRY o' h)) (\<lambda>(_, h1). Inr h1)"

text \<open>
  Queueing an event on the shadow ring.  The reference that the search took is given back on every path but
  one: without a free event record the function returns with it.
\<close>

definition add_shadow_event ::
  "addr \<Rightarrow> nat \<Rightarrow> nat \<Rightarrow> u32 \<Rightarrow> 'z epoll_env_scheme \<Rightarrow> ll_heap \<Rightarrow> (int \<times> 'z epoll_env_scheme \<times> ll_heap) c_res" where
  "add_shadow_event q e k event s h =
     (if event = 0 then Inr (- 1, s, h)
      else cbind (search_epoll_node q (ep_epoll_idx (epoll_objs s e)) s h) (\<lambda>(v, h1).
        case v of None \<Rightarrow> Inr (- 1, s, h1)
        | Some o' \<Rightarrow>
          if ready_events (enodes s o') AND event \<noteq> 0 then cbind (ll_release q o' h1) (\<lambda>h2. Inr (0, s, h2))
          else case get_event_info s of
            (None, s1) \<Rightarrow> Inr (- 1, s1, h1)
          | (Some a, s1) \<Rightarrow>
            (case enqueue_shadow e a (connection_idx (socks s1 k)) event s1 of
               (False, s2) \<Rightarrow> cbind (ll_release q o' h1) (\<lambda>h2. Inr (- 1, s2, h2))
             | (True, s2) \<Rightarrow> cbind (ll_release q o' h1) (\<lambda>h2.
                 Inr (0, upd_node o' (\<lambda>n. n \<lparr> ready_events := ready_events n OR event \<rparr>) s2, h2)))))"

text \<open>The choice of a node for an event of the stack: the walk is left at position \<open>n\<close>.\<close>

fun walk_to :: "addr \<Rightarrow> nat \<Rightarrow> addr option \<Rightarrow> ll_heap \<Rightarrow> (addr option \<times> ll_heap) c_res" where
  "walk_to q n None h = Inr (None, h)"
| "walk_to q 0 (Some x) h = Inr (Some x, h)"
| "walk_to q (Suc n) (Some x) h = cbind (ll_foreach_succ (ll_succ q) (ll_release q) x h) (\<lambda>(v, h1). walk_to q n v h1)"

definition pick_epoll_node :: "addr \<Rightarrow> 'z stack_env_scheme \<Rightarrow> ll_heap \<Rightarrow> (addr option \<times> 'z stack_env_scheme \<times> ll_heap) c_res" where
  "pick_epoll_node q s h =
     (let n = sint (ucast (ll_size q h) :: 32 word) in
      if n = 0 then Inr (None, s, h)
      else if n = 1 then cbind (ll_first q h) (\<lambda>(v, h1). Inr (v, s, h1))
      else cbind (ll_first q h) (\<lambda>(v, h1). cbind (walk_to q (nat (int (round_robin_counter s) mod \<bar>n\<bar>)) v h1) (\<lambda>(w, h2).
           Inr (w, s \<lparr> round_robin_counter := round_robin_counter s + 1 \<rparr>, h2))))"

text \<open>
  Closing a socket takes its nodes off one by one; the next node is looked up, and so held, before the current one
  is removed.
\<close>

partial_function (option) close_nodes ::
  "nat \<Rightarrow> addr \<Rightarrow> addr option \<Rightarrow> 'z sock_env_scheme \<Rightarrow> ll_heap \<Rightarrow> ('z sock_env_scheme \<times> ll_heap) c_res option" where
  "close_nodes i q v s h =
     (case v of None \<Rightarrow> Some (Inr (s, h))
      | Some o' \<Rightarrow>
        (case cbind (list_remove (node_epoll_idx (enodes s o')) i s) (\<lambda>s1.
                cbind (ll_succ q o' h) (\<lambda>(v1, h1). cbind (ll_unlink q o' True h1) (\<lambda>(_, h2).
                Inr (v1, free_epoll_node_buf o'
                  (upd_node o' (\<lambda>n. n \<lparr> node_epoll_idx := - 1, epoll_events := 0, ready_events := 0 \<rparr>) s1), h2)))) of
           Inl e \<Rightarrow> Some (Inl e) | Inr (v1, s2, h2) \<Rightarrow> close_nodes i q v1 s2 h2))"

definition with_nodes :: "nat \<Rightarrow> addr list \<Rightarrow> 'z sock_env_scheme \<Rightarrow> 'z sock_env_scheme" where
  "with_nodes k xs s = upd_sock k (\<lambda>x. x \<lparr> epoll_node_list := xs \<rparr>) s"

text \<open>The list of the demonstration socket: one node at address 40, the head at address 1.\<close>

definition demo_nodes :: ll_heap where
  "demo_nodes = link_in 1 40 1 1 (LL_INIT 1
     \<lparr> ll_succs = \<lambda>_. ptr_to 0, ll_preds = \<lambda>_. ptr_to 0, refcnts = \<lambda>_. 0, ll_sizes = \<lambda>_. 0 \<rparr>)"

section \<open>Lemmas\<close>

lemma search_epoll_node_ok:
  assumes "ll_ok q (epoll_node_list (socks s k)) ext h"
  shows "\<exists>h'. search_epoll_node q e s h = Inr (search_epoll_node_in_socket e k s, h') \<and>
    ll_ok q (epoll_node_list (socks s k)) (one_more (search_epoll_node_in_socket e k s) ext) h'"
  using nodes.search_ok [OF assms, of "\<lambda>o'. node_epoll_idx (enodes s o') = e"]
  by (auto simp: search_epoll_node_def search_epoll_node_in_socket_def loop_res_def)

lemma search_member: "search_epoll_node_in_socket e k s = Some o' \<Longrightarrow> o' \<in> set (epoll_node_list (socks s k))"
  by (auto simp: search_epoll_node_in_socket_def find_Some_iff)

text \<open>C11. Taking the registration of an epoll object off the list of a socket by the list functions does what removing
  the node from a list of nodes does: the same result, the same node given back, and the heap left with the shorter
  list, no reference being held.
\<close>

theorem delete_epoll_node_refines:
  assumes ok: "ll_ok q (epoll_node_list (socks s k)) (\<lambda>_. 0) h"
    and abs: "delete_epoll_node_in_socket e k s = (rc, t)"
  shows "\<exists>s' h'. delete_epoll_node q e s h = Inr (rc, s', h') \<and>
    t = upd_sock k (\<lambda>x. x \<lparr> epoll_node_list := epoll_node_list (socks t k) \<rparr>) s' \<and>
    ll_ok q (epoll_node_list (socks t k)) (\<lambda>_. 0) h'"
proof -
  obtain h1 where h1: "search_epoll_node q e s h = Inr (search_epoll_node_in_socket e k s, h1)"
      "ll_ok q (epoll_node_list (socks s k)) (one_more (search_epoll_node_in_socket e k s) (\<lambda>_. 0)) h1"
    using search_epoll_node_ok [OF ok] by blast
  show ?thesis
  proof (cases "search_epoll_node_in_socket e k s")
    case None
    then show ?thesis using h1 abs
      by (auto simp: delete_epoll_node_def delete_epoll_node_in_socket_def upd_sock_def one_more_def)
  next
    case (Some o')
    obtain h2 where "ll_unlink q o' True h1 = Inr (True, h2)" "ll_ok q (remove1 o' (epoll_node_list (socks s k))) (\<lambda>_. 0) h2"
      using nodes.unlink_remove1 [of q "epoll_node_list (socks s k)" o' "\<lambda>_. 0" h1] h1(2) Some search_member [OF Some] by auto
    then show ?thesis using h1(1) Some abs
      by (auto simp: delete_epoll_node_def delete_epoll_node_in_socket_def unlink_node_def upd_sock_def upd_node_def free_epoll_node_buf_def)
  qed
qed

text \<open>
  Putting a node from the pool at the front of the list of a socket by the list functions gives the heap of the
  longer list, whatever the entry of the node contained before.
\<close>

theorem add_epoll_node_refines:
  assumes ok: "ll_ok q (epoll_node_list (socks s k)) (\<lambda>_. 0) h"
    and new: "o' \<noteq> 0" "o' \<noteq> q" "o' \<notin> set (epoll_node_list (socks s k))"
  shows "\<exists>h'. add_epoll_node q o' h = Inr h' \<and>
    ll_ok q (epoll_node_list (socks (add_epoll_node_in_socket o' k s) k)) (\<lambda>_. 0) h'"
proof -
  let ?xs = "epoll_node_list (socks s k)" and ?h = "LL_INIT_ENTRY o' h"
  have "ll_ok q ?xs (\<lambda>_. 0) ?h" by (rule LL_INIT_ENTRY_ok [OF ok]) (use new in auto)
  then have i: "ll_ok q ([] @ ?xs) (\<lambda>_. 0) ?h" by simp
  have f: "fresh_elem o' ?h" "refcnts ?h o' = 0" using new(1) by (simp_all add: LL_INIT_ENTRY_fresh) (simp add: LL_INIT_ENTRY_def)
  have "ll_insert_head q o' False ?h = Inr (True, link_in q o' q (hd (?xs @ [q])) ?h)"
    using ll_ok_insert_ends(1) [OF i f(1)] by simp
  moreover have "ll_ok q (o' # ?xs) (\<lambda>_. 0) (link_in q o' q (hd (?xs @ [q])) ?h)"
    using ll_ok_insert(3) [OF i f(1)] f(2) by (simp add: fun_upd_idem)
  ultimately show ?thesis by (simp add: add_epoll_node_def add_epoll_node_in_socket_def upd_sock_def)
qed

lemma release_searched:
  assumes "ll_ok q xs (one_more (Some x) (\<lambda>_. 0)) h" "x \<in> set xs"
  shows "\<exists>h'. ll_release q x h = Inr h' \<and> ll_ok q xs (\<lambda>_. 0) h'"
  using release_ok [OF assms] by (simp add: one_more_def fun_upd_idem)

lemma enqueue_shadow_socks [simp]: "enqueue_shadow e a i ev s = (ok, t) \<Longrightarrow> socks t = socks s"
  by (auto simp: enqueue_shadow_def put_event_info_def upd_epoll_def Let_def split: prod.splits if_splits)

text \<open>
  Queueing an event on the shadow ring of an epoll object has the same result with the list functions as on the
  list of nodes, on every path.  The reference that the search took is given back unless the pool of event records
  is empty.
\<close>

theorem add_shadow_event_refines:
  assumes ok: "ll_ok q (epoll_node_list (socks s k)) (\<lambda>_. 0) h"
    and abs: "add_epoll_event_to_shadow e k event s = (rc, t)"
  shows "\<exists>h'. add_shadow_event q e k event s h = Inr (rc, t, h') \<and>
    (fst (get_event_info s) \<noteq> None \<longrightarrow> ll_ok q (epoll_node_list (socks s k)) (\<lambda>_. 0) h')"
proof -
  let ?i = "ep_epoll_idx (epoll_objs s e)" and ?xs = "epoll_node_list (socks s k)"
  obtain h1 where h1: "search_epoll_node q ?i s h = Inr (search_epoll_node_in_socket ?i k s, h1)"
      "ll_ok q ?xs (one_more (search_epoll_node_in_socket ?i k s) (\<lambda>_. 0)) h1"
    using search_epoll_node_ok [OF ok] by blast
  consider "event = 0" | "event \<noteq> 0" "search_epoll_node_in_socket ?i k s = None"
    | o' where "event \<noteq> 0" "search_epoll_node_in_socket ?i k s = Some o'" by fastforce
  then show ?thesis
  proof cases
    case 1
    then show ?thesis using abs ok by (simp add: add_shadow_event_def add_epoll_event_to_shadow_def)
  next
    case 2
    then show ?thesis using h1 abs ok
      by (auto simp: add_shadow_event_def add_epoll_event_to_shadow_def one_more_def)
  next
    case (3 o')
    obtain h2 where "ll_release q o' h1 = Inr h2" "ll_ok q ?xs (\<lambda>_. 0) h2"
      using release_searched [of q ?xs o' h1] h1(2) 3 search_member [OF 3(2)] by auto
    then show ?thesis using h1 abs 3
      by (auto simp: add_shadow_event_def add_epoll_event_to_shadow_def split: bool.splits prod.splits if_splits option.splits)
  qed
qed

text \<open>C12. When the pool of event records is empty, the reference to the node stays taken: the application's next attempt
  to remove the registration of the socket waits for ever.
\<close>

theorem leaked_reference_blocks_delete:
  assumes ok: "ll_ok q (epoll_node_list (socks s k)) (\<lambda>_. 0) h"
    and node: "search_epoll_node_in_socket (ep_epoll_idx (epoll_objs s e)) k s = Some o'"
    and event: "event \<noteq> 0" "ready_events (enodes s o') AND event = 0" and pool: "get_event_info s = (None, s)"
  shows "\<exists>h1. add_shadow_event q e k event s h = Inr (- 1, s, h1) \<and>
    delete_epoll_node q (ep_epoll_idx (epoll_objs s e)) s h1 = Inl NoReturn"
proof -
  let ?i = "ep_epoll_idx (epoll_objs s e)" and ?xs = "epoll_node_list (socks s k)"
  obtain h1 where h1: "search_epoll_node q ?i s h = Inr (Some o', h1)" "ll_ok q ?xs (one_more (Some o') (\<lambda>_. 0)) h1"
    using search_epoll_node_ok [OF ok, of ?i] node by auto
  obtain h2 where h2: "search_epoll_node q ?i s h1 = Inr (Some o', h2)" "ll_ok q ?xs (one_more (Some o') (one_more (Some o') (\<lambda>_. 0))) h2"
    using search_epoll_node_ok [OF h1(2), of ?i] node by auto
  obtain as bs where "?xs = as @ o' # bs" using search_member [OF node] by (meson split_list)
  then have "ll_unlink q o' True h2 = Inl NoReturn" using h2(2) by (intro ll_unlink_waits) (auto simp: one_more_def)
  then show ?thesis using h1(1) h2(1) event pool by (simp add: add_shadow_event_def delete_epoll_node_def)
qed

lemma walk_to_ok:
  assumes "ll_ok q (xs @ ys) (one_more (first_of ys) ext) h" "n < length ys"
  shows "\<exists>h'. walk_to q n (first_of ys) h = Inr (Some (ys ! n), h') \<and> ll_ok q (xs @ ys) (one_more (Some (ys ! n)) ext) h'"
  using assms
proof (induction n arbitrary: xs ys h)
  case 0
  then show ?case by (cases ys) (auto simp: first_of_def)
next
  case (Suc n)
  then obtain y zs where y: "ys = y # zs" "n < length zs" by (cases ys) auto
  have f: "first_of ys = Some y" by (simp add: y first_of_def)
  obtain h1 where h1: "ll_foreach_succ (ll_succ q) (ll_release q) y h = Inr (first_of zs, h1)"
      "ll_ok q ((xs @ [y]) @ zs) (one_more (first_of zs) ext) h1"
    using nodes.step_ok [of q xs y zs ext h] Suc.prems(1) unfolding f by (auto simp: y)
  show ?case using Suc.IH [OF h1(2) y(2)] h1(1) unfolding f by (auto simp: y)
qed

lemma small_size:
  assumes "length xs < 2 ^ 31"
  shows "sint (ucast (of_nat (length xs) :: u64) :: 32 word) = int (length xs)"
proof -
  have "ucast (of_nat (length xs) :: u64) = (of_nat (length xs) :: 32 word)"
    using assms by (simp add: unsigned_of_nat take_bit_nat_eq_self)
  then show ?thesis using assms by (simp add: signed_of_nat signed_take_bit_int_eq_self)
qed

text \<open>
  The stack chooses the node for an event by the size field of the list and by walking over it: this is the node
  at the position of the round-robin counter, and the stack holds one reference to it afterwards.
\<close>

theorem pick_epoll_node_refines:
  assumes ok: "ll_ok q (epoll_node_list (socks s k)) (\<lambda>_. 0) h" and len: "length (epoll_node_list (socks s k)) < 2 ^ 31"
    and abs: "pick_node k s = (v, t)"
  shows "\<exists>h'. pick_epoll_node q s h = Inr (v, t, h') \<and> ll_ok q (epoll_node_list (socks s k)) (one_more v (\<lambda>_. 0)) h'"
proof -
  let ?xs = "epoll_node_list (socks s k)"
  have n: "sint (ucast (ll_size q h) :: 32 word) = int (length ?xs)"
    using ok small_size [OF len] by (simp add: ll_size_def ll_ok_def)
  obtain h1 where h1: "ll_first q h = Inr (first_of ?xs, h1)" "ll_ok q ([] @ ?xs) (one_more (first_of ?xs) (\<lambda>_. 0)) h1"
    using nodes.first_ok [OF ok] by auto
  consider "?xs = []" | "length ?xs = 1" | "1 < length ?xs" by (cases ?xs) force+
  then show ?thesis
  proof cases
    case 1
    then show ?thesis using n ok abs by (auto simp: pick_epoll_node_def pick_node_def one_more_def Let_def)
  next
    case 2
    then obtain y where "?xs = [y]" by (auto simp: length_Suc_conv)
    then show ?thesis using n h1 abs by (auto simp: pick_epoll_node_def pick_node_def first_of_def Let_def)
  next
    case 3
    let ?i = "round_robin_counter s mod length ?xs"
    have i: "?i < length ?xs" by (rule mod_less_divisor) (use 3 in linarith)
    obtain h2 where h2: "walk_to q ?i (first_of ?xs) h1 = Inr (Some (?xs ! ?i), h2)" "ll_ok q ?xs (one_more (Some (?xs ! ?i)) (\<lambda>_. 0)) h2"
      using walk_to_ok [OF h1(2) i] by auto
    have "nat (int (round_robin_counter s) mod int (length ?xs)) = ?i" by (simp add: nat_mod_as_int)
    moreover have "?xs \<noteq> []" "length ?xs \<noteq> 1" using 3 by auto
    ultimately show ?thesis using n h1(1) h2 abs by (auto simp: pick_epoll_node_def pick_node_def Let_def)
  qed
qed

lemma with_nodes_simps [simp]:
  "enodes (with_nodes k xs s) = enodes s" "with_nodes k ys (with_nodes k xs s) = with_nodes k ys s"
  "upd_node o' f (with_nodes k xs s) = with_nodes k xs (upd_node o' f s)"
  "free_epoll_node_buf o' (with_nodes k xs s) = with_nodes k xs (free_epoll_node_buf o' s)"
  "upd_sock k (\<lambda>x. x \<lparr> epoll_node_list := remove1 o' (epoll_node_list x) \<rparr>) (with_nodes k xs s) = with_nodes k (remove1 o' xs) s"
  by (simp_all add: with_nodes_def upd_sock_def upd_node_def free_epoll_node_buf_def)

lemma list_remove_with_nodes:
  "list_remove e i (with_nodes k xs s) = cbind (list_remove e i s) (\<lambda>s1. Inr (with_nodes k xs s1))"
  by (simp add: list_remove_def with_nodes_def upd_sock_def cbind_def split: sum.split)

lemma close_nodes_ok:
  assumes "detach_nodes i k xs (with_nodes k xs s) = Inr t" "ll_ok q xs (one_more (first_of xs) (\<lambda>_. 0)) h"
  shows "\<exists>s' h'. close_nodes i q (first_of xs) s h = Some (Inr (s', h')) \<and> t = with_nodes k [] s' \<and> ll_ok q [] (\<lambda>_. 0) h'"
  using assms
proof (induction xs arbitrary: s h)
  case Nil
  then show ?case by (auto simp: first_of_def one_more_def close_nodes.simps)
next
  case (Cons x xs)
  have f: "first_of (x # xs) = Some x" by (simp add: first_of_def)
  obtain s1 where s1: "list_remove (node_epoll_idx (enodes s x)) i s = Inr s1"
    using Cons.prems(1) by (auto simp: list_remove_with_nodes cbind_Inr_iff)
  define s2 where "s2 = free_epoll_node_buf x (upd_node x (\<lambda>n. n \<lparr> node_epoll_idx := - 1, epoll_events := 0, ready_events := 0 \<rparr>) s1)"
  have t: "detach_nodes i k xs (with_nodes k xs s2) = Inr t"
    using Cons.prems(1) s1 by (simp add: list_remove_with_nodes s2_def)
  obtain h1 where h1: "ll_succ q x h = Inr (first_of xs, h1)" "ll_ok q (x # xs) (one_more (first_of xs) (one_more (Some x) (\<lambda>_. 0))) h1"
    using nodes.nxt_ok [of q "[]" x xs _ h] Cons.prems(2) unfolding f by auto
  have d: "x \<notin> set xs" using Cons.prems(2) by (simp add: ll_ok_def)
  have "ll_ok q (x # xs) (one_more (Some x) (one_more (first_of xs) (\<lambda>_. 0))) h1"
    using h1(2) by (rule ll_ok_cong) (auto simp: one_more_def first_of_def split: list.splits)
  moreover have "one_more (first_of xs) (\<lambda>_. 0) x = 0" using d by (cases xs) (auto simp: one_more_def first_of_def)
  ultimately obtain h2 where h2: "ll_unlink q x True h1 = Inr (True, h2)" "ll_ok q xs (one_more (first_of xs) (\<lambda>_. 0)) h2"
    using nodes.unlink_remove1 [of q "x # xs" x "one_more (first_of xs) (\<lambda>_. 0)" h1] by auto
  show ?case
    using Cons.IH [OF t h2(2)] s1 h1(1) h2(1) unfolding f by (subst close_nodes.simps) (simp add: s2_def)
qed

text \<open>
  Closing a socket: the loop over its list of nodes ends with an empty list on the heap and no reference held, and
  does to every node and to the lists of the epoll objects what detaching the nodes one by one does.
\<close>

theorem close_nodes_refines:
  assumes ok: "ll_ok q (epoll_node_list (socks s k)) (\<lambda>_. 0) h"
    and abs: "detach_nodes i k (epoll_node_list (socks s k)) s = Inr t"
  shows "\<exists>v h1 s' h'. ll_first q h = Inr (v, h1) \<and> close_nodes i q v s h1 = Some (Inr (s', h')) \<and>
    t = with_nodes k [] s' \<and> ll_ok q [] (\<lambda>_. 0) h'"
proof -
  have "with_nodes k (epoll_node_list (socks s k)) s = s" by (simp add: with_nodes_def upd_sock_def)
  then show ?thesis
    using nodes.first_ok [OF ok] close_nodes_ok [of i k "epoll_node_list (socks s k)" s t q] abs by fastforce
qed

lemma demo_nodes_ok: "epoll_node_list (socks demo_stack 3) = [40]" "ll_ok 1 (epoll_node_list (socks demo_stack 3)) (\<lambda>_. 0) demo_nodes"
  by (simp_all add: demo_stack_def epoll_env.defs sock_env.defs, simp add: demo_nodes_def ll_ok_def link_in_def LL_INIT_def linked_to_def)

theorem delete_epoll_node_refines_witness:
  "\<exists>s' h'. delete_epoll_node 1 5 demo_stack demo_nodes = Inr (0, s', h') \<and> ll_ok 1 [] (\<lambda>_. 0) h'"
proof -
  obtain rc t where d: "delete_epoll_node_in_socket 5 3 demo_stack = (rc, t)" by (cases "delete_epoll_node_in_socket 5 3 demo_stack") auto
  have "search_epoll_node_in_socket 5 3 demo_stack = Some 40"
    by (simp add: search_epoll_node_in_socket_def demo_stack_def epoll_env.defs sock_env.defs)
  then have "rc = 0" "epoll_node_list (socks t 3) = []"
    using d demo_nodes_ok(1) by (auto simp: delete_epoll_node_in_socket_def unlink_node_def upd_sock_def upd_node_def free_epoll_node_buf_def)
  then show ?thesis using delete_epoll_node_refines [OF demo_nodes_ok(2) d] by auto
qed

theorem leaked_reference_blocks_delete_witness:
  "\<exists>h1. add_shadow_event 1 5 3 LIGHT_EPOLLIN (demo_stack \<lparr> free_event_info_pool := pool_of 2 0 [] \<rparr>) demo_nodes =
      Inr (- 1, demo_stack \<lparr> free_event_info_pool := pool_of 2 0 [] \<rparr>, h1) \<and>
    delete_epoll_node 1 5 (demo_stack \<lparr> free_event_info_pool := pool_of 2 0 [] \<rparr>) h1 = Inl NoReturn"
proof -
  let ?s = "demo_stack \<lparr> free_event_info_pool := pool_of 2 0 [] \<rparr>"
  have e: "ep_epoll_idx (epoll_objs ?s 5) = 5" by (simp add: demo_stack_def epoll_env.defs sock_env.defs demo_epoll_def)
  have n: "search_epoll_node_in_socket (ep_epoll_idx (epoll_objs ?s 5)) 3 ?s = Some 40" "ready_events (enodes ?s 40) = 0"
    by (simp_all add: search_epoll_node_in_socket_def demo_stack_def epoll_env.defs sock_env.defs demo_epoll_def)
  have "fst (rte_mempool_get 0 (pool_of 2 (0 :: nat) []) 0) \<noteq> 0" by code_simp
  then have "get_event_info ?s = (None, ?s)" by (simp add: get_event_info_def split_def)
  then show ?thesis
    using leaked_reference_blocks_delete [of 1 ?s 3 demo_nodes 5 40 LIGHT_EPOLLIN] demo_nodes_ok n e by (auto simp: LIGHT_EPOLLIN_def)
qed

theorem pick_epoll_node_refines_witness:
  "\<exists>h'. pick_epoll_node 1 demo_stack demo_nodes = Inr (Some 40, demo_stack, h') \<and> ll_ok 1 [40] ((\<lambda>_. 0) (40 := 1)) h'"
  using pick_epoll_node_refines [OF demo_nodes_ok(2)] demo_nodes_ok(1) by (auto simp: pick_node_def one_more_def)

end
