(* ===== verification/Shared_Pool.thy ===== *)
theory Shared_Pool
  imports Socket_Api
begin

text \<open>
  The calls of \<open>light_api.c\<close> that were not moved to the command pools of the single stack processes: \<open>light_connect\<close>
  and \<open>light_recvfrom\<close>.  They use a pool and a ring shared by all processes, whose variables the application never
  sets; these are an optional part of the state here, so that the calls can be followed with and without them.
  \<open>light_read\<close> and the functions that walk over a received chain are here as well.
\<close>


section \<open>State\<close>

text \<open>
  The variables \<open>free_command_pool\<close>, \<open>free_return_value_pool\<close> and \<open>command_ring\<close> of the application; \<open>None\<close> is the
  NULL pointer they are initialised with.
\<close>

record conn_env = sock_env +
  free_command_pool :: "addr rte_mempool option"
  free_return_value_pool :: "addr rte_mempool option"
  command_ring :: "addr rte_ring option"

definition light_get_free_command_buf :: "'z conn_env_scheme \<Rightarrow> (addr option \<times> 'z conn_env_scheme) c_res" where
  "light_get_free_command_buf s =
     (case free_command_pool s of None \<Rightarrow> Inl BadPointer
      | Some mp \<Rightarrow>
        (let (ret, c, mp1) = rte_mempool_get 0 mp 0
         in Inr (if ret \<noteq> 0 then (None, s) else (Some c, s \<lparr> free_command_pool := Some mp1 \<rparr>))))"

definition light_free_command_buf :: "addr \<Rightarrow> 'z conn_env_scheme \<Rightarrow> 'z conn_env_scheme c_res" where
  "light_free_command_buf c s =
     (case free_command_pool s of None \<Rightarrow> Inl BadPointer
      | Some mp \<Rightarrow> Inr (s \<lparr> free_command_pool := Some (rte_mempool_put 0 mp c) \<rparr>))"

definition light_get_free_return_value_buf :: "'z conn_env_scheme \<Rightarrow> (addr option \<times> 'z conn_env_scheme) c_res" where
  "light_get_free_return_value_buf s =
     (case free_return_value_pool s of None \<Rightarrow> Inl BadPointer
      | Some mp \<Rightarrow>
        (let (ret, r, mp1) = rte_mempool_get 0 mp 0
         in Inr (if ret \<noteq> 0 then (None, s) else (Some r, s \<lparr> free_return_value_pool := Some mp1 \<rparr>))))"

definition light_free_return_value_buf :: "addr \<Rightarrow> 'z conn_env_scheme \<Rightarrow> 'z conn_env_scheme c_res" where
  "light_free_return_value_buf r s =
     (case free_return_value_pool s of None \<Rightarrow> Inl BadPointer
      | Some mp \<Rightarrow> Inr (s \<lparr> free_return_value_pool := Some (rte_mempool_put 0 mp r) \<rparr>))"

definition light_enqueue_command_buf :: "addr \<Rightarrow> 'z conn_env_scheme \<Rightarrow> (int \<times> 'z conn_env_scheme) c_res" where
  "light_enqueue_command_buf c s =
     (case command_ring s of None \<Rightarrow> Inl BadPointer
      | Some rg \<Rightarrow>
        (let (rc, rg1) = rte_ring_enqueue rg c
         in Inr (if rc = - ENOBUFS then 1 else 0, s \<lparr> command_ring := Some rg1 \<rparr>)))"

section \<open>Connecting\<close>

definition connect_cmd :: "int \<Rightarrow> u32 \<Rightarrow> u16 \<Rightarrow> light_cmd_t \<Rightarrow> light_cmd_t" where
  "connect_cmd sock ip port c =
     c \<lparr> cmd := LIGHT_SOCKET_CONNECT_BIND_COMMAND, ringset_idx := sock, parent_idx := - 1,
         u := socket_connect_bind ip port 1 \<rparr>"

definition clear_signal :: "nat \<Rightarrow> 'z sock_env_scheme \<Rightarrow> 'z sock_env_scheme" where
  "clear_signal k s = upd_sock k (\<lambda>x. x \<lparr> connect_close_signal := 0 \<rparr>) s"

definition set_remote :: "nat \<Rightarrow> u32 \<Rightarrow> u16 \<Rightarrow> 'z sock_env_scheme \<Rightarrow> 'z sock_env_scheme" where
  "set_remote i ip port s = upd_desc i (\<lambda>d. d \<lparr> remote_ipaddr := ip, remote_port := port \<rparr>) s"

text \<open>
  The wait taken when \<open>is_nonblock\<close> is 0: any signal ends it.  \<open>env n\<close> is what the other processes do between poll
  \<open>n\<close> and the next.
\<close>

partial_function (option) connect_poll ::
  "(nat \<Rightarrow> 'z sock_env_scheme \<Rightarrow> 'z sock_env_scheme) \<Rightarrow> nat \<Rightarrow> u32 \<Rightarrow> u16 \<Rightarrow> nat \<Rightarrow> 'z sock_env_scheme \<Rightarrow> 'z sock_env_scheme c_res option" where
  "connect_poll env i ip port n s =
     (case socket_ptr s i of Inl e \<Rightarrow> Some (Inl e)
      | Inr k \<Rightarrow>
        (let sig = connect_close_signal (socks s k) in
         if sig = 1 \<or> sig = 2 then Some (Inr (set_remote i ip port (clear_signal k s)))
         else if sig = 0 then connect_poll env i ip port (Suc n) (env n s)
         else Some (Inr (clear_signal k s))))"

text \<open>
  The wait taken otherwise: signal 1 does not end it, a passed send timeout does.  \<open>now n\<close> is the time of poll \<open>n\<close>;
  \<open>use\<close> keeps the last difference.
\<close>

partial_function (option) connect_timed ::
  "(nat \<Rightarrow> 'z sock_env_scheme \<Rightarrow> 'z sock_env_scheme) \<Rightarrow> (nat \<Rightarrow> timeval) \<Rightarrow> timeval \<Rightarrow> nat \<Rightarrow> u32 \<Rightarrow> u16 \<Rightarrow> timeval \<Rightarrow> nat \<Rightarrow>
   'z sock_env_scheme \<Rightarrow> 'z sock_env_scheme c_res option" where
  "connect_timed env now start i ip port use n s =
     (case time_substract start (now n) use of (rc, use1) \<Rightarrow>
      if rc \<noteq> 0 then connect_timed env now start i ip port use1 (Suc n) (env n s)
      else case socket_ptr s i of Inl e \<Rightarrow> Some (Inl e)
      | Inr k \<Rightarrow>
        (let lim = send_timeout (socks s k); sig = connect_close_signal (socks s k) in
         if tv_sec lim \<ge> 0 \<and> tv_usec lim \<ge> 0 \<and> time_cmp use1 lim > 0 then Some (Inr (clear_signal k s))
         else if sig = 0 \<or> sig = 1 then connect_timed env now start i ip port use1 (Suc n) (env n s)
         else if sig = 2 then Some (Inr (clear_signal k (set_remote i ip port (clear_signal k s))))
         else Some (Inr (clear_signal k (clear_signal k s)))))"

definition connect_wait ::
  "(nat \<Rightarrow> 'z conn_env_scheme \<Rightarrow> 'z conn_env_scheme) \<Rightarrow> (nat \<Rightarrow> timeval) \<Rightarrow> nat \<Rightarrow> u32 \<Rightarrow> u16 \<Rightarrow> 'z conn_env_scheme \<Rightarrow> 'z conn_env_scheme c_res" where
  "connect_wait env now i ip port s =
     cbind (socket_ptr s i) (\<lambda>k.
     cbind (loop_res (if is_nonblock (socks s k) = 0 then connect_poll env i ip port 0 s
                      else connect_timed env (\<lambda>n. now (Suc n)) (now 0) i ip port (now 0) 0 s)) (\<lambda>r. r))"

definition light_connect ::
  "(nat \<Rightarrow> 'z conn_env_scheme \<Rightarrow> 'z conn_env_scheme) \<Rightarrow> (nat \<Rightarrow> 'z conn_env_scheme \<Rightarrow> 'z conn_env_scheme) \<Rightarrow> (nat \<Rightarrow> timeval) \<Rightarrow>
   int \<Rightarrow> int \<Rightarrow> u32 \<Rightarrow> u16 \<Rightarrow> 'z conn_env_scheme \<Rightarrow> (int \<times> 'z conn_env_scheme) c_res" where
  "light_connect env env' now fd fam ip port s0 =
     cbind (light_fd_to_socket_epoll_index (fdt s0) fd) (\<lambda>(sock, _).
     let s = s0 \<lparr> errno := LIGHT_ERRNO \<rparr> in
     if fam \<noteq> AF_INET then Inr (- 1, s)
     else cbind (light_get_free_command_buf s) (\<lambda>(c, s1).
       case c of None \<Rightarrow> Inr (- 2, s1)
       | Some c \<Rightarrow>
         cbind (light_get_free_return_value_buf (write_cmd c (connect_cmd sock ip port) s1)) (\<lambda>(r, s2).
         case r of None \<Rightarrow> cbind (light_free_command_buf c s2) (\<lambda>s3. Inr (- 2, s3))
         | Some r \<Rightarrow>
           cbind (light_enqueue_command_buf c
             (write_ret r (\<lambda>v. v \<lparr> ready_signal := 0 \<rparr>) (write_cmd c (\<lambda>x. x \<lparr> res := Some r \<rparr>) s2))) (\<lambda>(rc, s3).
           if rc \<noteq> 0
           then cbind (light_free_command_buf c s3) (\<lambda>s4. cbind (light_free_return_value_buf r s4) (\<lambda>s5. Inr (- 2, s5)))
           else cbind (sock_idx sock) (\<lambda>i.
                cbind (connect_wait env now i ip port s3) (\<lambda>s4.
                cbind (loop_res (wait_ready env' 0 r s4)) (\<lambda>s5.
                cbind (light_free_return_value_buf r (s5 \<lparr> errno := return_errno (ret_mem s5 r) \<rparr>)) (\<lambda>s6.
                Inr (return_value (ret_mem s5 r), s6)))))))))"

section \<open>Datagrams\<close>

text \<open>
  \<open>light_dequeue_rx_buf\<close> moves up to \<open>MAX_PKT_BURST\<close> buffers from \<open>rx_ring\<close> to \<open>local_cache\<close>; both are the same ring.
\<close>

definition refill_cache :: "nat \<Rightarrow> 'z app_env_scheme \<Rightarrow> 'z app_env_scheme" where
  "refill_cache i s =
     (let rg = rx_ring (descs s i);
          n = min (min (unat (rte_ring_free_count rg)) MAX_PKT_BURST) (unat (rte_ring_count rg))
      in if n = 0 then s
         else let (got, tab, rg1) = sc_do_dequeue rg (replicate MAX_PKT_BURST 0) (of_nat n) RTE_RING_QUEUE_VARIABLE
              in if got > 0
                 then upd_desc i (rx_ring_update (\<lambda>_. snd (sp_do_enqueue rg1 tab (word_of_int got) RTE_RING_QUEUE_VARIABLE))) s
                 else upd_desc i (rx_ring_update (\<lambda>_. rg1)) s)"

definition shared_rx_kick :: "nat \<Rightarrow> 'z conn_env_scheme \<Rightarrow> 'z conn_env_scheme c_res" where
  "shared_rx_kick i s =
     cbind (light_get_free_command_buf s) (\<lambda>(c, s1).
     case c of None \<Rightarrow> Inr s1
     | Some c \<Rightarrow> cbind (light_enqueue_command_buf c (write_cmd c (rx_kick i) s1)) (\<lambda>(_, s2). Inr s2))"

definition light_dequeue_rx_buf ::
  "nat \<Rightarrow> (nat \<Rightarrow> 'z conn_env_scheme \<Rightarrow> 'z conn_env_scheme) \<Rightarrow> 'z conn_env_scheme \<Rightarrow> (addr option \<times> 'z conn_env_scheme) c_res" where
  "light_dequeue_rx_buf i env s =
     cbind (shared_rx_kick i s) (\<lambda>s1.
     cbind (loop_res (rx_spin i env 0 s1)) (\<lambda>r. cbind r (\<lambda>s2.
     case rx_dequeue i s2 of (m, s3) \<Rightarrow>
       (let s4 = refill_cache i s3
        in Inr (case m of None \<Rightarrow> rx_dequeue i s4 | Some _ \<Rightarrow> (m, s4))))))"

text \<open>The sender's address is stored in the 16 bytes in front of the data.\<close>

definition src_addr :: "rte_mbuf \<Rightarrow> u8 list c_res" where
  "src_addr m = (if data_off m < 16 then Inl OutOfBounds else Inr (take 16 (drop (data_off m - 16) (buf m))))"

text \<open>\<open>given\<close> says whether the caller passed a place for the address.\<close>

definition light_receivefrom_mbuf ::
  "nat \<Rightarrow> bool \<Rightarrow> (nat \<Rightarrow> 'z conn_env_scheme \<Rightarrow> 'z conn_env_scheme) \<Rightarrow> 'z conn_env_scheme \<Rightarrow>
   ((addr \<times> u8 list) option \<times> 'z conn_env_scheme) c_res" where
  "light_receivefrom_mbuf i given env s =
     cbind (light_dequeue_rx_buf i env s) (\<lambda>(m, s1).
     case m of None \<Rightarrow> Inr (None, s1)
     | Some a \<Rightarrow> if \<not> given then Inl BadPointer else cbind (src_addr (mbufs s1 a)) (\<lambda>ad. Inr (Some (a, ad), s1)))"

definition light_get_next_buffer_segment :: "(addr \<Rightarrow> rte_mbuf) \<Rightarrow> addr \<Rightarrow> (addr \<times> int) option" where
  "light_get_next_buffer_segment h a = map_option (\<lambda>b. (b, int (data_len (h b)))) (next_seg (h a))"

text \<open>
  The variant that means to cut the first segment off; it follows \<open>pdesc\<close> after moving it, so that the segment it cuts
  off is the second one.
\<close>

definition light_get_next_buffer_segment_and_detach_first ::
  "(addr \<Rightarrow> rte_mbuf) \<Rightarrow> addr \<Rightarrow> (addr \<times> int) option \<times> (addr \<Rightarrow> rte_mbuf)" where
  "light_get_next_buffer_segment_and_detach_first h a =
     (case next_seg (h a) of None \<Rightarrow> (None, h)
      | Some b \<Rightarrow> (Some (b, int (data_len (h b))), h (b := (h b) \<lparr> next_seg := None, nb_segs := 1 \<rparr>)))"

text \<open>\<open>real_read\<close> is the function of the C library.\<close>

definition light_read ::
  "(int \<Rightarrow> int \<Rightarrow> recv_result) \<Rightarrow> int \<Rightarrow> int \<Rightarrow> (nat \<Rightarrow> 'z app_env_scheme \<Rightarrow> 'z app_env_scheme) \<Rightarrow> 'z app_env_scheme \<Rightarrow>
   (recv_result \<times> 'z app_env_scheme) c_res" where
  "light_read real_read fd nbytes env s =
     cbind (is_light_fd (fdt s) fd) (\<lambda>l. if l = 1 then light_recv fd nbytes env s else Inr (real_read fd nbytes, s))"

text \<open>The comparison with the unsigned length of the caller.\<close>

definition clip :: "int \<Rightarrow> nat \<Rightarrow> int" where
  "clip ret_len len = (if ret_len < 0 \<or> ret_len > int len then int len else ret_len)"

record from_result =
  from_ret :: int
  from_written :: "u8 list"
  from_addr :: "u8 list"

definition recvfrom_shadow :: "nat \<Rightarrow> nat \<Rightarrow> bool \<Rightarrow> 'z app_env_scheme \<Rightarrow> (from_result \<times> 'z app_env_scheme) c_res" where
  "recvfrom_shadow i len given s =
     (let d = descs s i in
      case shadow_next d of None \<Rightarrow> Inl BadPointer
      | Some a \<Rightarrow>
        let m = mbufs s a; n = clip (shadow_len_delievered d) len; w = take (nat n) (drop (data_off m) (buf m)) in
        if \<not> given then Inl BadPointer
        else cbind (src_addr m) (\<lambda>ad.
          cbind (case light_get_next_buffer_segment (mbufs s) a of
                   None \<Rightarrow> loop_res (light_release_rx_buffer (shadow d) i
                     (upd_desc i (\<lambda>d. d \<lparr> shadow := None, shadow_next := None, shadow_len_delievered := 0 \<rparr>) s))
                 | Some (b, l) \<Rightarrow> Inr (upd_desc i (\<lambda>d. d \<lparr> shadow_next := Some b, shadow_len_delievered := l \<rparr>) s)) (\<lambda>s1.
          Inr (\<lparr> from_ret = n, from_written = w, from_addr = ad \<rparr>, s1))))"

definition recvfrom_ring ::
  "nat \<Rightarrow> nat \<Rightarrow> bool \<Rightarrow> (nat \<Rightarrow> 'z conn_env_scheme \<Rightarrow> 'z conn_env_scheme) \<Rightarrow> 'z conn_env_scheme \<Rightarrow> (from_result \<times> 'z conn_env_scheme) c_res" where
  "recvfrom_ring i len given env s =
     cbind (sock_of s i) (\<lambda>sk.
     if connect_close_signal sk \<ge> 3 then Inr (\<lparr> from_ret = - 1, from_written = [], from_addr = [] \<rparr>, s)
     else cbind (light_receivefrom_mbuf i given env s) (\<lambda>(r, s1).
       case r of None \<Rightarrow> Inr (\<lparr> from_ret = - 1, from_written = [], from_addr = [] \<rparr>, s1)
       | Some (a, ad) \<Rightarrow>
         (let m = mbufs s1 a; n = clip (int (data_len m)) len; w = take (nat n) (drop (data_off m) (buf m)) in
          cbind (case next_seg m of None \<Rightarrow> loop_res (light_release_rx_buffer (Some a) i s1)
                 | Some b \<Rightarrow> Inr (upd_desc i (\<lambda>d. d \<lparr> shadow := Some a, shadow_next := Some b,
                     shadow_len_delievered := int (data_len (mbufs s1 b)) \<rparr>) s1)) (\<lambda>s2.
          Inr (\<lparr> from_ret = n, from_written = w, from_addr = ad \<rparr>, s2)))))"

definition light_recvfrom ::
  "(nat \<Rightarrow> 'z conn_env_scheme \<Rightarrow> 'z conn_env_scheme) \<Rightarrow> int \<Rightarrow> nat \<Rightarrow> bool \<Rightarrow> 'z conn_env_scheme \<Rightarrow> (from_result \<times> 'z conn_env_scheme) c_res" where
  "light_recvfrom env fd len given s =
     cbind (fd_sock fd s) (\<lambda>i.
     case shadow (descs s i) of None \<Rightarrow> recvfrom_ring i len given env s | Some _ \<Rightarrow> recvfrom_shadow i len given s)"

text \<open>The handshake of the socket behind descriptor \<open>i\<close> is under way and there is no send timeout.\<close>

definition syn_sent :: "nat \<Rightarrow> nat \<Rightarrow> 'z sock_env_scheme \<Rightarrow> bool" where
  "syn_sent i k s \<longleftrightarrow> socket_ptr s i = Inr k \<and> connect_close_signal (socks s k) = 1 \<and> tv_sec (send_timeout (socks s k)) < 0"

text \<open>A process with the shared pool, and one waiting datagram behind its sender's address, for concrete runs.\<close>

definition demo_conn :: conn_env where
  "demo_conn = sock_env.extend ((demo_net [10] []) \<lparr> fdt := demo_tables \<lparr> true_to_light := [3] \<rparr>,
       mbufs := (\<lambda>_. \<lparr> buf = replicate 16 7 @ [1, 2, 3], data_off = 16, data_len = 3, pkt_len = 3, nb_segs = 1, next_seg = None, refcnt = 1 \<rparr>) \<rparr>)
     \<lparr> free_command_pool = Some (pool_of 2 0 [6]), free_return_value_pool = Some (pool_of 2 0 [30]), command_ring = Some (ring_of 2 0 []) \<rparr>"

section \<open>Lemmas\<close>

lemma refill_cache_ok:
  assumes ok: "ring_ok (rx_ring (descs s i))"
  defines "rg \<equiv> rx_ring (descs s i)"
  defines "n \<equiv> min (min (room rg) MAX_PKT_BURST) (length (contents rg))"
  shows "\<exists>rg'. refill_cache i s = upd_desc i (rx_ring_update (\<lambda>_. rg')) s \<and> ring_ok rg' \<and>
    contents rg' = drop n (contents rg) @ take n (contents rg)"
proof (cases "n = 0")
  case True
  then show ?thesis
    using ok by (intro exI [of _ rg]) (auto simp: refill_cache_def Let_def rte_ring_free_count_eq rte_ring_count_eq n_def rg_def upd_desc_def)
next
  case False
  let ?w = "of_nat n :: u32"
  have wf: "wf_ring rg" "ring_ok rg" using ok by (auto simp: rg_def)
  have n: "n \<le> 32" "n \<le> length (contents rg)" by (auto simp: n_def MAX_PKT_BURST_def)
  have w: "unat ?w = n" "sint ?w = int n" using n(1) by (simp_all add: unat_of_nat sint_of_small)
  define r1 where "r1 = consumed rg ?w"
  have r1: "ring_ok r1" "contents r1 = drop n (contents rg)" using wf n w by (simp_all add: r1_def ring_ok_consumed contents_consumed)
  have room: "n \<le> room r1"
    using ring_ok_count [OF wf(2)] n r1 by (simp add: room_def r1_def)
  define tab where "tab = take n (contents rg) @ drop n (replicate MAX_PKT_BURST (0 :: addr))"
  have deq: "sc_do_dequeue rg (replicate MAX_PKT_BURST 0) ?w RTE_RING_QUEUE_VARIABLE = (int n, tab, r1)"
    using sc_do_dequeue_variable [OF wf(2), of ?w "replicate MAX_PKT_BURST 0"] n w
    by (simp add: Let_def min_def MAX_PKT_BURST_def tab_def r1_def)
  have enq: "sp_do_enqueue r1 tab (word_of_int (int n)) RTE_RING_QUEUE_VARIABLE = (int n, published r1 tab ?w)"
    using sp_do_enqueue_variable [OF r1(1), of tab ?w] room w by (simp add: Let_def min_def)
  have "contents (published r1 tab ?w) = drop n (contents rg) @ take n (contents rg)" "ring_ok (published r1 tab ?w)"
    using contents_published_room [OF r1(1), of ?w tab] ring_ok_published [OF r1(1), of ?w] room r1(2) w n by (simp_all add: tab_def)
  moreover have "refill_cache i s = upd_desc i (rx_ring_update (\<lambda>_. published r1 tab ?w)) s"
    using False deq enq wf by (simp add: refill_cache_def Let_def rg_def [symmetric] rte_ring_free_count_eq rte_ring_count_eq n_def [symmetric])
  ultimately show ?thesis by blast
qed

lemma shared_rx_kick_ok:
  assumes "free_command_pool s = Some mp" "command_ring s = Some rg"
  obtains s1 where "shared_rx_kick i s = Inr s1" "descs s1 = descs s" "mbufs s1 = mbufs s" "socks s1 = socks s" "released s1 = released s"
proof -
  obtain ret c mp1 where g: "rte_mempool_get 0 mp 0 = (ret, c, mp1)" by (cases "rte_mempool_get 0 mp 0") auto
  obtain rc rg1 where e: "rte_ring_enqueue rg c = (rc, rg1)" by (cases "rte_ring_enqueue rg c") auto
  show thesis
    using that [of s] that [of "write_cmd c (rx_kick i) (s \<lparr> free_command_pool := Some mp1 \<rparr>) \<lparr> command_ring := Some rg1 \<rparr>"] assms g e
    by (cases "ret \<noteq> 0") (auto simp: shared_rx_kick_def light_get_free_command_buf_def light_enqueue_command_buf_def write_cmd_def)
qed

text \<open>The first waiting chain is dequeued; the others are rotated.\<close>

lemma light_dequeue_rx_buf_ok:
  assumes pool: "free_command_pool s = Some mp" "command_ring s = Some cr"
    and ring: "ring_ok (rx_ring (descs s i))" "contents (rx_ring (descs s i)) = a # cs"
  defines "n \<equiv> min (min (Suc (room (rx_ring (descs s i)))) MAX_PKT_BURST) (length cs)"
  shows "\<exists>t rg. light_dequeue_rx_buf i env s = Inr (Some a, t) \<and> ring_ok rg \<and> contents rg = drop n cs @ take n cs \<and>
    descs t = (descs s) (i := (descs s i) \<lparr> rx_ring := rg \<rparr>) \<and> mbufs t = mbufs s \<and> released t = released s"
proof -
  obtain s1 where s1: "shared_rx_kick i s = Inr s1" "descs s1 = descs s" "mbufs s1 = mbufs s" "released s1 = released s"
    using pool by (rule shared_rx_kick_ok)
  have w: "rx_must_wait i s1 = Inr False" by (rule rx_must_wait_ready) (use ring s1 in simp_all)
  define rg where "rg = consumed (rx_ring (descs s i)) 1"
  have rg: "ring_ok rg" "contents rg = cs" "room rg = Suc (room (rx_ring (descs s i)))"
    using ring ring_ok_count [OF ring(1)] by (simp_all add: rg_def ring_ok_consumed contents_consumed room_def Suc_diff_le)
  define s2 where "s2 = upd_desc i (rx_ring_update (\<lambda>_. rg)) s1"
  have d: "rx_dequeue i s1 = (Some a, s2)"
    using ring s1 by (simp add: rx_dequeue_def rte_ring_dequeue_eq s2_def rg_def)
  have "rx_ring (descs s2 i) = rg" by (simp add: s2_def upd_desc_def)
  then obtain rg' where rg': "refill_cache i s2 = upd_desc i (rx_ring_update (\<lambda>_. rg')) s2" "ring_ok rg'" "contents rg' = drop n cs @ take n cs"
    using refill_cache_ok [of s2 i] rg by (auto simp: n_def)
  have "light_dequeue_rx_buf i env s = Inr (Some a, upd_desc i (rx_ring_update (\<lambda>_. rg')) s2)"
    using s1 w d rg' by (simp add: light_dequeue_rx_buf_def rx_spin.simps loop_res_def)
  then show ?thesis using rg' s1 by (auto simp: s2_def upd_desc_def)
qed


lemma demo_conn_simps:
  "descs demo_conn i = demo_desc [10]" "socks demo_conn k = demo_sock 0" "released demo_conn = []"
  "mbufs demo_conn a = \<lparr> buf = replicate 16 7 @ [1, 2, 3], data_off = 16, data_len = 3, pkt_len = 3, nb_segs = 1, next_seg = None, refcnt = 1 \<rparr>"
  "fdt demo_conn = demo_tables \<lparr> true_to_light := [3] \<rparr>" "free_command_pool demo_conn = Some (pool_of 2 0 [6])"
  "command_ring demo_conn = Some (ring_of 2 0 [])"
  by (simp_all add: demo_conn_def demo_net_def demo_app_def sock_env.defs app_env.defs cmd_env.defs)

lemma demo_conn_fd: "fd_sock 0 demo_conn = Inr 3" "sock_of demo_conn 3 = Inr (demo_sock 0)"
  by (simp_all add: fd_sock_def light_fd_to_socket_epoll_index_def demo_conn_simps aget_def sock_idx_def LIGHT_CONNECTION_POOL_SIZE_def
      sock_of_def demo_desc_def)




lemma connect_timed_waits:
  fixes s :: "'z sock_env_scheme"
  assumes s: "syn_sent i k s" and env: "\<And>n t. syn_sent i k t \<Longrightarrow> syn_sent i k (env n t)"
  shows "connect_timed env now start i ip port use n s = None"
proof (rule ccontr)
  assume "connect_timed env now start i ip port use n s \<noteq> None"
  then obtain r where "connect_timed env now start i ip port use n s = Some r" by blast
  then have "env = env \<and> i = i \<and> syn_sent i k s \<longrightarrow> False"
    by (rule connect_timed.raw_induct [where P = "\<lambda>e nw st j a p us n t r. e = env \<and> j = i \<and> syn_sent i k t \<longrightarrow> False", rotated])
      (auto simp: syn_sent_def Let_def split: prod.splits if_splits, (metis env [unfolded syn_sent_def])+)
  then show False using s by simp
qed

text \<open>
  While the handshake is under way, a socket in blocking mode leaves the wait of \<open>light_connect\<close> at once, and a
  socket in non-blocking mode without a send timeout does not leave it as long as nothing changes: the two
  branches are the wrong way round.
\<close>

theorem connect_modes_swapped:
  fixes s :: "'z conn_env_scheme"
  assumes s: "syn_sent i k s" and env: "\<And>n t. syn_sent i k t \<Longrightarrow> syn_sent i k (env n t)"
  shows "connect_wait env now i ip port s =
    (if is_nonblock (socks s k) = 0 then Inr (set_remote i ip port (clear_signal k s)) else Inl NoReturn)"
  using s connect_timed_waits [OF s env] by (auto simp: connect_wait_def syn_sent_def connect_poll.simps loop_res_def)

text \<open>An object that is taken and put back is in the pool again.\<close>

lemma pool_take_put:
  assumes "pool_ok mp" "pool_free mp = x # xs" "rte_mempool_get lc mp d = (ret, y, mp1)"
  shows "ret = 0" "y = x" "mset (pool_free (rte_mempool_put lc mp1 x)) = mset (pool_free mp)"
proof -
  obtain mp' where m: "rte_mempool_get lc mp d = (0, x, mp')" "pool_ok mp'" "pool_free mp' = xs" "pool_cap mp' = pool_cap mp"
    using assms(1,2) by (rule pool_take)
  have "length (x # xs) \<le> pool_cap mp" using mpool.bound [OF assms(1)] assms(2) by simp
  then have "pool_free (rte_mempool_put lc mp' x) = xs @ [x]" using mpool.put_room [OF m(2)] m(3,4) by simp
  then show "ret = 0" "y = x" "mset (pool_free (rte_mempool_put lc mp1 x)) = mset (pool_free mp)" using m(1) assms(2,3) by auto
qed

text \<open>
  When a pool is empty or the command ring is full, \<open>light_connect\<close> gives up with -2, and both pools and the
  ring hold exactly what they held before.
\<close>

theorem light_connect_refused_conserves:
  assumes fd: "fd_sock fd s = Inr i"
    and pools: "free_command_pool s = Some mp" "pool_ok mp" "free_return_value_pool s = Some rp" "pool_ok rp"
    and ring: "command_ring s = Some cr" "ring_ok cr"
    and none: "pool_free mp = [] \<or> pool_free rp = [] \<or> room cr = 0"
  shows "\<exists>t mp' rp'. light_connect env env' now fd AF_INET ip port s = Inr (- 2, t) \<and>
    free_command_pool t = Some mp' \<and> mset (pool_free mp') = mset (pool_free mp) \<and>
    free_return_value_pool t = Some rp' \<and> mset (pool_free rp') = mset (pool_free rp) \<and> command_ring t = Some cr"
proof -
  obtain j ty where j: "light_fd_to_socket_epoll_index (fdt s) fd = Inr (j, ty)"
    using fd by (auto simp: fd_sock_def cbind_Inr_iff)
  show ?thesis
  proof (cases "pool_free mp")
    case Nil
    then show ?thesis using j pools ring
      by (auto simp: light_connect_def light_get_free_command_buf_def rte_mempool_get_eq)
  next
    case (Cons c cs)
    obtain mp1 where c: "rte_mempool_get 0 mp 0 = (0, c, mp1)" "mset (pool_free (rte_mempool_put 0 mp1 c)) = mset (pool_free mp)"
      using pool_take_put [OF pools(2) Cons] by (metis prod_cases3)
    show ?thesis
    proof (cases "pool_free rp")
      case Nil
      then show ?thesis using j pools ring c
        by (auto simp: light_connect_def light_get_free_command_buf_def light_get_free_return_value_buf_def light_free_command_buf_def
            write_cmd_def rte_mempool_get_eq Let_def)
    next
      case (Cons r rs)
      obtain rp1 where r: "rte_mempool_get 0 rp 0 = (0, r, rp1)" "mset (pool_free (rte_mempool_put 0 rp1 r)) = mset (pool_free rp)"
        using pool_take_put [OF pools(4) Cons] by (metis prod_cases3)
      have "\<not> length (contents cr) < capacity cr" using none Cons \<open>pool_free mp = c # cs\<close> by (auto simp: room_def)
      then have "rte_ring_enqueue cr c = (- ENOBUFS, cr)" using ring(2) by (simp add: rte_ring_enqueue_eq)
      then show ?thesis using j pools ring c r
        by (auto simp: light_connect_def light_get_free_command_buf_def light_get_free_return_value_buf_def light_free_command_buf_def
            light_free_return_value_buf_def light_enqueue_command_buf_def write_cmd_def write_ret_def Let_def)
    qed
  qed
qed

text \<open>Cutting off the first segment of a chain loses every segment behind the second instead.\<close>

theorem detach_first_cuts_second:
  assumes "chain h (Some a) (a # b # as)" "a \<noteq> b"
  shows "light_get_next_buffer_segment_and_detach_first h a = (r, h') \<Longrightarrow>
    r = Some (b, int (data_len (h b))) \<and> chain h' (Some a) [a, b]"
  using assms by (auto simp: light_get_next_buffer_segment_and_detach_first_def)

end
