(* ===== verification/Interpose.thy ===== *)
theory Interpose
  imports Light_Types
begin

text \<open>
  The interposition layer \<open>src/light_h.c\<close>, which replaces functions of the C library in the application.  Most of
  its functions call the library function until \<open>light_init\<close> has succeeded and the function of the socket library
  afterwards; both are arguments here.  \<open>open64\<close>, \<open>pread64\<close> and \<open>close\<close> also keep one file open and a copy of what was
  read from it.  The world of the kernel is the type \<open>'w\<close>.
\<close>

section \<open>State\<close>

record hook_env =
  light_sock_enable :: int
  inited :: int
  file_fd :: int
  file_prefd :: int
  file_open :: int
  file_read :: int
  file_content :: "u8 list"

text \<open>The functions of the C library: \<open>real_pread64\<close> gives the result and the bytes stored.\<close>

record 'w libc =
  real_open64 :: "string \<Rightarrow> int \<Rightarrow> 'w \<Rightarrow> int \<times> 'w"
  real_pread64 :: "int \<Rightarrow> nat \<Rightarrow> int \<Rightarrow> 'w \<Rightarrow> int \<times> u8 list \<times> 'w"

definition hook_start :: hook_env where
  "hook_start = \<lparr> light_sock_enable = 1, inited = 0, file_fd = - 1, file_prefd = - 1, file_open = 0, file_read = 0,
     file_content = replicate 100 0 \<rparr>"

definition fast_file :: string where
  "fast_file = ''/srv/www/htdocs/index.html''"

section \<open>Operations\<close>

text \<open>\<open>init\<close> is the result of \<open>light_app_init\<close>.\<close>

definition light_init :: "'w libc \<Rightarrow> int \<Rightarrow> hook_env \<Rightarrow> 'w \<Rightarrow> (hook_env \<times> 'w) c_res" where
  "light_init l init h w =
     (if init < 0 then Inr (h, w)
      else if init \<noteq> 0 then Inl Exit
      else let (fd, w1) = real_open64 l fast_file 2048 w in Inr (h \<lparr> file_prefd := fd, inited := 1 \<rparr>, w1))"

definition use_real :: "hook_env \<Rightarrow> bool" where
  "use_real h \<longleftrightarrow> light_sock_enable h = 0 \<or> inited h = 0"

text \<open>The body that \<open>socket\<close> shares with the other calls on sockets and epoll objects.\<close>

definition hooked :: "hook_env \<Rightarrow> ('w \<Rightarrow> int \<times> 'w) \<Rightarrow> ('w \<Rightarrow> int \<times> 'w) \<Rightarrow> 'w \<Rightarrow> int \<times> 'w" where
  "hooked h real light w = (if use_real h then real w else light w)"

text \<open>\<open>send\<close> and \<open>recv\<close> do not hand their flags on.\<close>

definition hook_send :: "hook_env \<Rightarrow> (int \<Rightarrow> u8 list \<Rightarrow> int \<Rightarrow> 'w \<Rightarrow> int \<times> 'w) \<Rightarrow> (int \<Rightarrow> u8 list \<Rightarrow> int \<Rightarrow> 'w \<Rightarrow> int \<times> 'w) \<Rightarrow>
    int \<Rightarrow> u8 list \<Rightarrow> int \<Rightarrow> 'w \<Rightarrow> int \<times> 'w" where
  "hook_send h real light fd bs fl w = (if use_real h then real fd bs 0 w else light fd bs 0 w)"

definition hook_recv :: "hook_env \<Rightarrow> (int \<Rightarrow> nat \<Rightarrow> int \<Rightarrow> 'w \<Rightarrow> 'r \<times> 'w) \<Rightarrow> (int \<Rightarrow> nat \<Rightarrow> int \<Rightarrow> 'w \<Rightarrow> 'r \<times> 'w) \<Rightarrow>
    int \<Rightarrow> nat \<Rightarrow> int \<Rightarrow> 'w \<Rightarrow> 'r \<times> 'w" where
  "hook_recv h real light fd len fl w = (if use_real h then real fd len 0 w else light fd len 0 w)"

text \<open>Only two commands of \<open>fcntl\<close> reach the socket library; every other returns 0 without any effect.\<close>

definition hook_fcntl :: "hook_env \<Rightarrow> (int \<Rightarrow> int \<Rightarrow> 'w \<Rightarrow> int \<times> 'w) \<Rightarrow> (int \<Rightarrow> int \<Rightarrow> 'w \<Rightarrow> int \<times> 'w) \<Rightarrow> int \<Rightarrow> int \<Rightarrow> 'w \<Rightarrow> int \<times> 'w" where
  "hook_fcntl h real light fd command w =
     (if use_real h then real fd command w
      else if command = 3 \<or> command = 4 then light fd command w else (0, w))"

definition hook_open64 :: "'w libc \<Rightarrow> string \<Rightarrow> int \<Rightarrow> hook_env \<Rightarrow> 'w \<Rightarrow> int \<times> hook_env \<times> 'w" where
  "hook_open64 l path fl h w =
     (if path = fast_file
      then if file_open h = 0
           then let (fd, w1) = real_open64 l path fl w in (fd, h \<lparr> file_open := 1, file_fd := fd \<rparr>, w1)
           else (file_prefd h, h \<lparr> file_fd := file_prefd h \<rparr>, w)
      else let (fd, w1) = real_open64 l path fl w in (fd, h, w1))"

text \<open>
  The buffer \<open>file_content\<close> has 100 bytes: the library function writes to its start, and \<open>count\<close> bytes are then
  copied out of it.
\<close>

definition hook_pread64 :: "'w libc \<Rightarrow> int \<Rightarrow> nat \<Rightarrow> int \<Rightarrow> hook_env \<Rightarrow> 'w \<Rightarrow> (int \<times> u8 list \<times> hook_env \<times> 'w) c_res" where
  "hook_pread64 l fd n offset h w =
     (if fd = file_fd h
      then if file_read h = 0
           then let (ret, bs, w1) = real_pread64 l fd n offset w; c = bs @ drop (length bs) (file_content h) in
                if length bs > length (file_content h) \<or> n > length (file_content h) then Inl OutOfBounds
                else Inr (ret, take n c, h \<lparr> file_content := c, file_read := 1 \<rparr>, w1)
           else if n > length (file_content h) then Inl OutOfBounds
           else Inr (int n, take n (file_content h), h, w)
      else let (ret, bs, w1) = real_pread64 l fd n offset w in Inr (ret, bs, h, w1))"

definition hook_close :: "hook_env \<Rightarrow> (int \<Rightarrow> 'w \<Rightarrow> int \<times> 'w) \<Rightarrow> (int \<Rightarrow> 'w \<Rightarrow> int \<times> 'w) \<Rightarrow> int \<Rightarrow> 'w \<Rightarrow> int \<times> 'w" where
  "hook_close h real light fd w =
     (if fd = file_prefd h then (0, w) else if use_real h then real fd w else light fd w)"

text \<open>A C library whose only file has the content \<open>bs\<close>.\<close>

definition one_file :: "u8 list \<Rightarrow> unit libc" where
  "one_file bs = \<lparr> real_open64 = (\<lambda>_ _ w. (7, w)),
     real_pread64 = (\<lambda>_ n offset w. let r = take n (drop (nat offset) bs) in (int (length r), r, w)) \<rparr>"

text \<open>Reading descriptor \<open>fd\<close> at an offset gives the bytes of the file \<open>bs\<close> there, and leaves the world alone.\<close>

definition reads_file :: "'w libc \<Rightarrow> int \<Rightarrow> u8 list \<Rightarrow> bool" where
  "reads_file l fd bs \<longleftrightarrow> (\<forall>n offset w. real_pread64 l fd n offset w =
     (int (length (take n (drop (nat offset) bs))), take n (drop (nat offset) bs), w))"

section \<open>Lemmas\<close>

text \<open>
  Before \<open>light_init\<close> has succeeded the layer is transparent: every call is the call of the C library, apart from the flags
  of \<open>send\<close> and \<open>recv\<close> and from the descriptor that the failed start left in \<open>file_prefd\<close>.
\<close>

theorem hooks_transparent:
  assumes "inited h = 0"
  shows "hooked h real light w = real w \<and> hook_fcntl h rf lf fd command w = rf fd command w \<and>
    (fd \<noteq> file_prefd h \<longrightarrow> hook_close h rc lc fd w = rc fd w) \<and> hook_send h rs ls fd bs 0 w = rs fd bs 0 w"
  using assms by (simp add: hooked_def hook_fcntl_def hook_close_def hook_send_def use_real_def)

text \<open>
  The copy of the file: after the first read of the file at offset 0, a read of as many bytes at any other offset gives
  the bytes from the start of the file again.
\<close>

lemma cached_read:
  assumes f: "file_read h = 0" "file_fd h = fd" "length (file_content h) = 100" and l: "reads_file l fd bs"
    and n: "n \<le> 100" "n \<le> length bs"
  shows "\<exists>h1. hook_pread64 l fd n 0 h w = Inr (int n, take n bs, h1, w) \<and>
    hook_pread64 l fd n offset h1 w = Inr (int n, take n bs, h1, w)"
  using assms by (simp add: hook_pread64_def reads_file_def Let_def)

text \<open>
  Reading the fast file piece by piece goes wrong: after a first read at offset 0 every later read of the same
  length returns the first piece again, so that unless the file repeats itself the application gets bytes that are
  not at the offset it asked for.  A read of more than 100 bytes overruns the buffer.
\<close>

theorem fast_file_ignores_offset:
  assumes f: "file_read h = 0" "file_fd h = fd" "length (file_content h) = 100" and l: "reads_file l fd bs"
    and n: "n \<le> 100" "n \<le> length bs" and diff: "take n (drop n bs) \<noteq> take n bs"
  shows "(\<exists>h1 r. hook_pread64 l fd n 0 h w = Inr (int n, take n bs, h1, w) \<and>
      hook_pread64 l fd n (int n) h1 w = Inr (int n, r, h1, w) \<and> r \<noteq> fst (snd (real_pread64 l fd n (int n) w))) \<and>
    (\<forall>m > 100. hook_pread64 l fd m 0 h w = Inl OutOfBounds)"
proof -
  have "\<forall>m > 100. hook_pread64 l fd m 0 h w = Inl OutOfBounds"
    using f l by (simp add: hook_pread64_def reads_file_def Let_def)
  then show ?thesis using cached_read [OF f l n, of w "int n"] diff l by (fastforce simp: reads_file_def)
qed

theorem fast_file_ignores_offset_witness:
  "\<exists>h1 r. hook_pread64 (one_file [1, 2, 3, 4]) (- 1) 2 0 hook_start () = Inr (2, [1, 2], h1, ()) \<and>
    hook_pread64 (one_file [1, 2, 3, 4]) (- 1) 2 2 h1 () = Inr (2, r, h1, ()) \<and> r \<noteq> [3, 4]"
proof -
  have l: "reads_file (one_file [1, 2, 3, 4]) (- 1) [1, 2, 3, 4]" by (simp add: reads_file_def one_file_def Let_def)
  then have "fst (snd (real_pread64 (one_file [1, 2, 3, 4]) (- 1) 2 2 ())) = [3, 4]" by (simp add: one_file_def Let_def)
  then show ?thesis
    using fast_file_ignores_offset [of hook_start "- 1" "one_file [1, 2, 3, 4]" "[1, 2, 3, 4]" 2 "()"] l
    by (auto simp: hook_start_def)
qed

end
