(* ===== verification/Startup.thy ===== *)
theory Startup
  imports App_Glue Ll_List Workers
begin

text \<open>
  The start of the primary stack process, \<open>light_service_api_init\<close>: the rings and pools shared with the applications are
  created and the free clients, connections and epoll objects are queued.  The memory DPDK hands out is an argument.
  The branch of the other stack processes and the start of an application are in theory \<open>Attach\<close>.
\<close>

section \<open>Creating rings\<close>

text \<open>
  The sizes of the C layout; the memory zone of a name and size, as its slots; whether the entry for the list of rings can
  be allocated; whether a memory pool can be created.
\<close>

record dpdk =
  ring_header :: int
  cache_line :: int
  memzone :: "string \<Rightarrow> int \<Rightarrow> nat list option"
  list_entry :: "string \<Rightarrow> bool"
  pool_created :: "string \<Rightarrow> bool"

definition rte_ring_create :: "dpdk \<Rightarrow> string \<Rightarrow> u32 \<Rightarrow> u32 \<Rightarrow> nat rte_ring option" where
  "rte_ring_create d nm n fl =
     (let sz = rte_ring_get_memsize (ring_header d) (cache_line d) n; mz_name = ''RG_'' @ nm in
      if sz < 0 \<or> length mz_name \<ge> RTE_MEMZONE_NAMESIZE \<or> \<not> list_entry d nm then None
      else case memzone d mz_name sz of None \<Rightarrow> None
           | Some slots \<Rightarrow> Some (snd (rte_ring_init (take (unat n) slots) nm n fl)))"

text \<open>\<open>sprintf\<close> with \<open>%d\<close>.\<close>

fun dec :: "nat \<Rightarrow> string" where
  "dec n = (if n < 10 then [char_of (48 + n)] else dec (n div 10) @ [char_of (48 + n mod 10)])"

section \<open>State\<close>

text \<open>
  Indices stand for the pointers to sockets and epoll objects.  \<open>node_lists\<close> is the heap of the lists of epoll nodes; the
  head of the list of socket \<open>i\<close> is at address \<open>i + 1\<close>.
\<close>

record startup =
  free_clients_ring :: "nat rte_ring"
  su_client_rings :: "nat \<Rightarrow> nat rte_ring option"
  su_command_rings :: "nat \<Rightarrow> nat rte_ring option"
  su_urgent_rings :: "nat \<Rightarrow> nat rte_ring option"
  rx_mbufs_ring :: "nat rte_ring option"
  g_light_sockets :: "nat \<Rightarrow> light_socket_t"
  su_connections_ring :: "nat rte_ring"
  su_satelites :: "nat \<Rightarrow> socket_satelite_data_t"
  sat_apppid :: "nat \<Rightarrow> int"
  su_tx_rings :: "nat \<Rightarrow> nat rte_ring option"
  su_rx_rings :: "nat \<Rightarrow> nat rte_ring option"
  node_lists :: ll_heap
  g_light_epolls :: "nat \<Rightarrow> light_epoll_t"
  epolls_ring :: "nat rte_ring"
  su_workers :: light_worker_info_t

definition LIGHT_CLIENTS_POOL_SIZE :: nat where "LIGHT_CLIENTS_POOL_SIZE = 64"

section \<open>The parts of the function\<close>

text \<open>A failed creation ends the program; a failed enqueue is only reported.\<close>

definition need_pool :: "dpdk \<Rightarrow> string \<Rightarrow> startup \<Rightarrow> startup c_res" where
  "need_pool d nm s = (if pool_created d nm then Inr s else Inl Exit)"

definition need_ring :: "dpdk \<Rightarrow> string \<Rightarrow> u32 \<Rightarrow> u32 \<Rightarrow> nat rte_ring c_res" where
  "need_ring d nm n fl = (case rte_ring_create d nm n fl of None \<Rightarrow> Inl Exit | Some r \<Rightarrow> Inr r)"

definition init_client :: "dpdk \<Rightarrow> nat \<Rightarrow> startup \<Rightarrow> startup c_res" where
  "init_client d i s =
     (let s1 = s \<lparr> free_clients_ring := snd (rte_ring_enqueue (free_clients_ring s) i) \<rparr> in
      cbind (need_ring d (''free_clients_ring'' @ dec i) 64 (RING_F_SP_ENQ OR RING_F_SC_DEQ)) (\<lambda>r.
        Inr (s1 \<lparr> su_client_rings := (su_client_rings s1) (i := Some r) \<rparr>)))"

text \<open>The rings of all stack processes are created; only that of the process itself is checked.\<close>

definition per_proc :: "dpdk \<Rightarrow> string \<Rightarrow> u32 \<Rightarrow> nat \<Rightarrow> (nat \<Rightarrow> nat rte_ring option) \<Rightarrow> nat \<Rightarrow> nat rte_ring option" where
  "per_proc d base n procs f i =
     (if i < procs then rte_ring_create d (base @ dec i) n (RING_F_SP_ENQ OR RING_F_SC_DEQ) else f i)"

definition init_proc_rings :: "dpdk \<Rightarrow> u32 \<Rightarrow> u32 \<Rightarrow> nat \<Rightarrow> nat \<Rightarrow> startup \<Rightarrow> startup c_res" where
  "init_proc_rings d command_bufs_count rx_bufs_count procs self s =
     (if procs > MAX_CORES_NUM then Inl OutOfBounds
      else let s1 = s \<lparr> su_command_rings := per_proc d ''COMMAND_RING'' command_bufs_count procs (su_command_rings s) \<rparr> in
      if self \<ge> procs \<or> su_command_rings s1 self = None then Inl Exit
      else let s2 = s1 \<lparr> su_urgent_rings := per_proc d ''URGENT_COMMAND_RING'' command_bufs_count procs (su_urgent_rings s1) \<rparr> in
      if su_urgent_rings s2 self = None then Inl Exit
      else cbind (need_ring d (''rx_mbufs_ring'' @ dec self) (rx_bufs_count * 2048) 0) (\<lambda>r.
        Inr (s2 \<lparr> rx_mbufs_ring := Some r \<rparr>)))"

definition cleared_socket :: "nat \<Rightarrow> light_socket_t" where
  "cleared_socket i = \<lparr> connection_idx = int i, write_done_from_app = 0, occupied_mbuf_num = 0, local_ipaddr = 0, local_port = 0,
     tx_space = 0, send_timeout = \<lparr> tv_sec = 0, tv_usec = 0 \<rparr>, receive_timeout = \<lparr> tv_sec = 0, tv_usec = 0 \<rparr>, is_nonblock = 0,
     connect_close_signal = 0, presented_in_chain = 0, epoll_node_list = [], is_multicore = 0,
     multicore_socket_copies = replicate MAX_CORES_NUM 0 \<rparr>"

definition init_connection :: "dpdk \<Rightarrow> u32 \<Rightarrow> u32 \<Rightarrow> nat \<Rightarrow> startup \<Rightarrow> startup c_res" where
  "init_connection d rx_bufs_count tx_bufs_count i s =
     (let s1 = s \<lparr> g_light_sockets := (g_light_sockets s) (i := cleared_socket i),
            su_connections_ring := snd (rte_ring_enqueue (su_connections_ring s) i),
            node_lists := LL_INIT (i + 1) (node_lists s) \<rparr> in
      cbind (need_ring d (''tx_ring'' @ dec i) tx_bufs_count (RING_F_SP_ENQ OR RING_F_SC_DEQ)) (\<lambda>tx.
      cbind (need_ring d (''rx_ring'' @ dec i) rx_bufs_count (RING_F_SP_ENQ OR RING_F_SC_DEQ)) (\<lambda>rx.
        Inr (s1 \<lparr> su_tx_rings := (su_tx_rings s1) (i := Some tx), su_rx_rings := (su_rx_rings s1) (i := Some rx),
          su_satelites := (su_satelites s1) (i := \<lparr> sat_socket = None, sat_ringset_idx = - 1, sat_parent_idx = - 1 \<rparr>),
          sat_apppid := (sat_apppid s1) (i := 0) \<rparr>))))"

definition init_epoll :: "dpdk \<Rightarrow> u32 \<Rightarrow> nat \<Rightarrow> startup \<Rightarrow> startup c_res" where
  "init_epoll d tx_bufs_count i s =
     cbind (need_ring d (''EPOLL_RING_NAME'' @ dec i) (push_bit 1 tx_bufs_count) 0) (\<lambda>ready.
     cbind (need_ring d (''EPOLL_SHADOW_RING_NAME'' @ dec i) (push_bit 1 tx_bufs_count) 0) (\<lambda>shadow.
       Inr (s \<lparr> g_light_epolls := (g_light_epolls s) (i := (g_light_epolls s i) \<lparr> ready_connections := ready,
            shadow_connections := shadow, ep_epoll_idx := int i, is_active := 0, is_sleeping := 0 \<rparr>),
          epolls_ring := snd (rte_ring_enqueue (epolls_ring s) i) \<rparr>)))"

text \<open>The counting loops.\<close>

fun each_index :: "(nat \<Rightarrow> startup \<Rightarrow> startup c_res) \<Rightarrow> nat list \<Rightarrow> startup \<Rightarrow> startup c_res" where
  "each_index f [] s = Inr s"
| "each_index f (i # js) s = cbind (f i s) (each_index f js)"

fun clear_served :: "nat \<Rightarrow> int list \<Rightarrow> int list c_res" where
  "clear_served 0 ws = Inr ws"
| "clear_served (Suc n) ws = cbind (clear_served n ws) (\<lambda>ws'. aset ws' (int n) 0)"

definition create_workers_info :: "dpdk \<Rightarrow> nat \<Rightarrow> startup \<Rightarrow> startup c_res" where
  "create_workers_info d procs s =
     (if \<not> pool_created d ''WORKER_INFO'' then Inl BadPointer
      else cbind (clear_served procs (workers_served (su_workers s))) (\<lambda>ws.
        Inr (s \<lparr> su_workers := (su_workers s) \<lparr> register_worker := 0, workers_served := ws \<rparr> \<rparr>)))"

section \<open>The whole function\<close>

definition light_service_api_init :: "dpdk \<Rightarrow> u32 \<Rightarrow> u32 \<Rightarrow> u32 \<Rightarrow> nat \<Rightarrow> nat \<Rightarrow> startup \<Rightarrow> startup c_res" where
  "light_service_api_init d command_bufs_count rx_bufs_count tx_bufs_count procs self s =
     cbind (need_ring d ''free_clients_ring'' (of_nat LIGHT_CLIENTS_POOL_SIZE) 0) (\<lambda>fc.
     cbind (each_index (init_client d) [0..<LIGHT_CLIENTS_POOL_SIZE]
              (s \<lparr> su_client_rings := \<lambda>_. None, free_clients_ring := fc \<rparr>)) (\<lambda>s1.
     cbind (need_pool d ''FREE_SOCKET_SAT_DATA_POOL'' s1) (\<lambda>s2.
     cbind (init_proc_rings d command_bufs_count rx_bufs_count procs self s2) (\<lambda>s3.
     cbind (need_pool d (''CMD_POOL'' @ dec self) s3) (\<lambda>s4.
     cbind (need_pool d (''RETURN_VALUE'' @ dec self) s4) (\<lambda>s5.
     cbind (need_pool d ''free_epoll_node_pool'' s5) (\<lambda>s6.
     cbind (need_pool d ''free_connections_pool'' s6) (\<lambda>s7.
     cbind (need_ring d ''free_connections_ring'' (of_int LIGHT_CONNECTION_POOL_SIZE) 0) (\<lambda>fr.
     cbind (each_index (init_connection d rx_bufs_count tx_bufs_count) [0..<nat LIGHT_CONNECTION_POOL_SIZE]
              (s7 \<lparr> su_connections_ring := fr \<rparr>)) (\<lambda>s8.
     cbind (need_pool d ''epoll_pool'' s8) (\<lambda>s9.
     cbind (need_ring d ''epoll_ring'' (of_int LIGHT_EPOLL_POOL_SIZE) 0) (\<lambda>er.
     cbind (each_index (init_epoll d tx_bufs_count) [0..<nat LIGHT_EPOLL_POOL_SIZE] (s9 \<lparr> epolls_ring := er \<rparr>)) (\<lambda>s10.
     cbind (need_pool d ''free_event_info_pool'' s10) (\<lambda>s11.
     cbind (need_pool d ''free_fd_mapping_storage'' s11) (create_workers_info d procs)))))))))))))))"

section \<open>What start-up relies on and promises\<close>

text \<open>
  DPDK hands out memory for everything that is asked for: a zone has at least the requested size, at eight bytes a slot
  behind the header.
\<close>

definition gives_memory :: "dpdk \<Rightarrow> bool" where
  "gives_memory d \<longleftrightarrow> 0 \<le> ring_header d \<and> 0 < cache_line d \<and> (\<forall>nm. list_entry d nm) \<and> (\<forall>nm. pool_created d nm) \<and>
     (\<forall>nm sz. \<exists>slots. memzone d nm sz = Some slots \<and> sz \<le> ring_header d + 8 * int (length slots))"

definition ring_count :: "u32 \<Rightarrow> bool" where
  "ring_count n \<longleftrightarrow> n \<noteq> 0 \<and> POWEROF2 n \<and> n \<le> RTE_RING_SZ_MASK"

definition empty_ring :: "u32 \<Rightarrow> 'a rte_ring \<Rightarrow> bool" where
  "empty_ring n r \<longleftrightarrow> ring_ok r \<and> contents r = [] \<and> capacity r = unat n - 1"

definition client_ready :: "nat \<Rightarrow> startup \<Rightarrow> bool" where
  "client_ready i s \<longleftrightarrow> (\<exists>r. su_client_rings s i = Some r \<and> empty_ring 64 r)"

definition connection_ready :: "u32 \<Rightarrow> u32 \<Rightarrow> nat \<Rightarrow> startup \<Rightarrow> bool" where
  "connection_ready rxc txc i s \<longleftrightarrow> g_light_sockets s i = cleared_socket i \<and>
     ll_ok (i + 1) [] (\<lambda>_. 0) (node_lists s) \<and>
     (\<exists>r. su_tx_rings s i = Some r \<and> empty_ring txc r) \<and> (\<exists>r. su_rx_rings s i = Some r \<and> empty_ring rxc r) \<and>
     su_satelites s i = \<lparr> sat_socket = None, sat_ringset_idx = - 1, sat_parent_idx = - 1 \<rparr> \<and> sat_apppid s i = 0"

definition epoll_ready :: "u32 \<Rightarrow> nat \<Rightarrow> startup \<Rightarrow> bool" where
  "epoll_ready txc i s \<longleftrightarrow> (let e = g_light_epolls s i in
     ep_epoll_idx e = int i \<and> is_active e = 0 \<and> is_sleeping e = 0 \<and>
     empty_ring (push_bit 1 txc) (ready_connections e) \<and> empty_ring (push_bit 1 txc) (shadow_connections e))"

text \<open>The fields that the later loops leave alone.\<close>

definition early :: "startup \<Rightarrow> _" where
  "early s = (free_clients_ring s, su_client_rings s, su_command_rings s, su_urgent_rings s, rx_mbufs_ring s, su_workers s)"

definition conns :: "startup \<Rightarrow> _" where
  "conns s = (su_connections_ring s, g_light_sockets s, node_lists s, su_tx_rings s, su_rx_rings s, su_satelites s, sat_apppid s)"

text \<open>A DPDK that always has memory, and some state before the start.\<close>

definition demo_dpdk :: dpdk where
  "demo_dpdk = \<lparr> ring_header = 384, cache_line = 64, memzone = \<lambda>_ sz. Some (replicate (nat sz) 0),
     list_entry = \<lambda>_. True, pool_created = \<lambda>_. True \<rparr>"

definition demo_startup :: startup where
  "demo_startup = (let r = ring_of 2 0 [] in
     \<lparr> free_clients_ring = r, su_client_rings = \<lambda>_. None, su_command_rings = \<lambda>_. None, su_urgent_rings = \<lambda>_. None, rx_mbufs_ring = None,
       g_light_sockets = \<lambda>_. demo_sock 0, su_connections_ring = r,
       su_satelites = \<lambda>_. \<lparr> sat_socket = None, sat_ringset_idx = 0, sat_parent_idx = 0 \<rparr>, sat_apppid = \<lambda>_. 0,
       su_tx_rings = \<lambda>_. None, su_rx_rings = \<lambda>_. None, node_lists = demo_ll, g_light_epolls = \<lambda>_. demo_epoll,
       epolls_ring = r, su_workers = init_workers \<rparr>)"

section \<open>Lemmas\<close>

lemma dec_length: "n < 10000 \<Longrightarrow> length (dec n) \<le> 4"
proof -
  have 1: "n < 10 \<Longrightarrow> length (dec n) \<le> 1" for n by simp
  have 2: "n < 100 \<Longrightarrow> length (dec n) \<le> 2" for n using 1 [of "n div 10"] by (subst dec.simps) auto
  have 3: "n < 1000 \<Longrightarrow> length (dec n) \<le> 3" for n using 2 [of "n div 10"] by (subst dec.simps) auto
  show "n < 10000 \<Longrightarrow> length (dec n) \<le> 4" using 3 [of "n div 10"] by (subst dec.simps) auto
qed

declare dec.simps [simp del]

lemma rte_ring_create_ok:
  assumes g: "gives_memory d" and n: "ring_count n" and nm: "length nm \<le> 28"
  obtains r where "rte_ring_create d nm n fl = Some r" "empty_ring n r"
proof -
  let ?sz = "rte_ring_get_memsize (ring_header d) (cache_line d) n"
  have d: "0 \<le> ring_header d" "0 < cache_line d" using g by (simp_all add: gives_memory_def)
  obtain slots where m: "memzone d (''RG_'' @ nm) ?sz = Some slots" "?sz \<le> ring_header d + 8 * int (length slots)"
    using g unfolding gives_memory_def by blast
  let ?x = "ring_header d + uint n * 8"
  have "?x \<le> (?x + cache_line d - 1) div cache_line d * cache_line d"
  proof -
    have "(?x + cache_line d - 1) mod cache_line d < cache_line d" using d(2) by simp
    then show ?thesis using div_mult_mod_eq [of "?x + cache_line d - 1" "cache_line d"] by linarith
  qed
  then have sz: "?x \<le> ?sz" using n by (auto simp: rte_ring_get_memsize_def ring_count_def Let_def)
  then have len: "unat n \<le> length slots" using m(2) uint_nat [of n] by linarith
  have pos: "0 \<le> ?sz" using sz d(1) uint_ge_0 [of n] by linarith
  have "rte_ring_create d nm n fl = Some (snd (rte_ring_init (take (unat n) slots) nm n fl))"
    using g m(1) pos nm by (simp add: rte_ring_create_def Let_def gives_memory_def RTE_MEMZONE_NAMESIZE_def)
  moreover have "empty_ring n (snd (rte_ring_init (take (unat n) slots) nm n fl))"
    using rte_ring_init_ok [of n "ring_header d" "cache_line d" "take (unat n) slots" nm fl] n d pos len nm
    by (simp add: empty_ring_def ring_count_def RTE_MEMZONE_NAMESIZE_def)
  ultimately show ?thesis by (rule that)
qed

lemma need_ring_ok:
  assumes "gives_memory d" "ring_count n" "length nm \<le> 28"
  obtains r where "need_ring d nm n fl = Inr r" "empty_ring n r"
  using rte_ring_create_ok [OF assms] by (metis need_ring_def option.simps(5))

lemma need_pool_ok: "gives_memory d \<Longrightarrow> need_pool d nm s = Inr s"
  by (simp add: need_pool_def gives_memory_def)

text \<open>
  A loop that queues every index and makes its object ready: when each turn succeeds, the queue holds the indices that fit
  and every object is ready.
\<close>

locale pool_filling =
  fixes f :: "nat \<Rightarrow> startup \<Rightarrow> startup c_res"
    and queue :: "startup \<Rightarrow> nat rte_ring"
    and inv :: "startup \<Rightarrow> bool"
    and ready :: "nat \<Rightarrow> startup \<Rightarrow> bool"
  assumes turn: "inv s \<Longrightarrow> i < 10000 \<Longrightarrow> \<exists>s'. f i s = Inr s' \<and> inv s' \<and>
    queue s' = snd (rte_ring_enqueue (queue s) i) \<and> ready i s' \<and> (\<forall>j. ready j s \<longrightarrow> ready j s')"
begin

lemma fill:
  "inv s \<Longrightarrow> \<forall>i \<in> set js. i < 10000 \<Longrightarrow> \<exists>s'. each_index f js s = Inr s' \<and> inv s' \<and>
     queue s' = snd (push_all rte_ring_enqueue js (queue s)) \<and> (\<forall>j. j \<in> set js \<or> ready j s \<longrightarrow> ready j s')"
proof (induction js arbitrary: s)
  case (Cons i js)
  obtain s1 where s1: "f i s = Inr s1" "inv s1" "queue s1 = snd (rte_ring_enqueue (queue s) i)" "ready i s1"
      "\<forall>j. ready j s \<longrightarrow> ready j s1"
    using turn [of s i] Cons.prems by auto
  obtain s2 where s2: "each_index f js s1 = Inr s2" "inv s2" "queue s2 = snd (push_all rte_ring_enqueue js (queue s1))"
      "\<forall>j. j \<in> set js \<or> ready j s1 \<longrightarrow> ready j s2"
    using Cons.IH [OF s1(2)] Cons.prems(2) by auto
  show ?case using s1 s2 by (auto simp: split_beta Let_def)
qed simp

lemma fill_from_empty:
  assumes "inv s" "empty_ring n (queue s)" "m = unat n" "m < 10000"
  obtains s' where "each_index f [0..<m] s = Inr s'" "inv s'" "contents (queue s') = [0..<m - 1]" "\<forall>i < m. ready i s'"
proof -
  obtain s' where s': "each_index f [0..<m] s = Inr s'" "inv s'" "queue s' = snd (push_all rte_ring_enqueue [0..<m] (queue s))"
      "\<forall>j. j \<in> set [0..<m] \<or> ready j s \<longrightarrow> ready j s'"
    using fill [OF assms(1), of "[0..<m]"] assms(4) by auto
  have "contents (queue s') = take (m - 1) [0..<m]"
    using rq.push_all_spec [of "queue s" "[0..<m]"] assms(2,3) s'(3) by (simp add: empty_ring_def)
  then show ?thesis using s' by (intro that) auto
qed

end

lemma named_ring_ok:
  assumes "gives_memory d" "ring_count n" "i < 10000" "length base \<le> 24"
  shows "\<exists>r. need_ring d (base @ dec i) n fl = Inr r \<and> empty_ring n r"
  by (rule need_ring_ok [of d n "base @ dec i" fl]) (use dec_length [OF assms(3)] assms(1,2,4) in auto)

lemma ring_count_64: "ring_count 64" and ring_count_2048: "ring_count 2048"
  by (simp_all add: ring_count_def POWEROF2_def RTE_RING_SZ_MASK_def)

interpretation clients: pool_filling "init_client d" free_clients_ring "\<lambda>s. gives_memory d \<and> su_workers s = w" client_ready for d w
proof
  fix s :: startup and i assume s: "gives_memory d \<and> su_workers s = w" and i: "i < (10000 :: nat)"
  obtain r where "need_ring d (''free_clients_ring'' @ dec i) 64 (RING_F_SP_ENQ OR RING_F_SC_DEQ) = Inr r" "empty_ring 64 r"
    using named_ring_ok [OF conjunct1 [OF s] ring_count_64 i, of "''free_clients_ring''"] by auto
  then show "\<exists>s'. init_client d i s = Inr s' \<and> (gives_memory d \<and> su_workers s' = w) \<and>
      free_clients_ring s' = snd (rte_ring_enqueue (free_clients_ring s) i) \<and> client_ready i s' \<and>
      (\<forall>j. client_ready j s \<longrightarrow> client_ready j s')"
    using s by (auto simp: init_client_def Let_def client_ready_def)
qed

interpretation connections: pool_filling "init_connection d rxc txc" su_connections_ring
  "\<lambda>s. gives_memory d \<and> ring_count rxc \<and> ring_count txc \<and> early s = e" "connection_ready rxc txc" for d rxc txc e
proof
  fix s :: startup and i assume s: "gives_memory d \<and> ring_count rxc \<and> ring_count txc \<and> early s = e" and i: "i < (10000 :: nat)"
  obtain tx where tx: "need_ring d (''tx_ring'' @ dec i) txc (RING_F_SP_ENQ OR RING_F_SC_DEQ) = Inr tx" "empty_ring txc tx"
    using named_ring_ok [OF _ _ i, of d txc "''tx_ring''"] s by auto
  obtain rx where rx: "need_ring d (''rx_ring'' @ dec i) rxc (RING_F_SP_ENQ OR RING_F_SC_DEQ) = Inr rx" "empty_ring rxc rx"
    using named_ring_ok [OF _ _ i, of d rxc "''rx_ring''"] s by auto
  have ll: "ll_ok (Suc j) [] (\<lambda>_. 0) h \<Longrightarrow> ll_ok (Suc j) [] (\<lambda>_. 0) (LL_INIT (Suc i) h)" for j h
    by (cases "i = j") (auto simp: LL_INIT_ok, simp add: ll_ok_def LL_INIT_def linked_to_def)
  show "\<exists>s'. init_connection d rxc txc i s = Inr s' \<and> (gives_memory d \<and> ring_count rxc \<and> ring_count txc \<and> early s' = e) \<and>
      su_connections_ring s' = snd (rte_ring_enqueue (su_connections_ring s) i) \<and> connection_ready rxc txc i s' \<and>
      (\<forall>j. connection_ready rxc txc j s \<longrightarrow> connection_ready rxc txc j s')"
    using s tx rx by (auto simp: init_connection_def Let_def connection_ready_def early_def LL_INIT_ok ll)
qed

interpretation epolls: pool_filling "init_epoll d txc" epolls_ring
  "\<lambda>s. gives_memory d \<and> ring_count (push_bit 1 txc) \<and> early s = e \<and> conns s = c" "epoll_ready txc" for d txc e c
proof
  fix s :: startup and i assume s: "gives_memory d \<and> ring_count (push_bit 1 txc) \<and> early s = e \<and> conns s = c" and i: "i < (10000 :: nat)"
  obtain r1 where r1: "need_ring d (''EPOLL_RING_NAME'' @ dec i) (push_bit 1 txc) 0 = Inr r1" "empty_ring (push_bit 1 txc) r1"
    using named_ring_ok [OF _ _ i, of d "push_bit 1 txc" "''EPOLL_RING_NAME''"] s by auto
  obtain r2 where r2: "need_ring d (''EPOLL_SHADOW_RING_NAME'' @ dec i) (push_bit 1 txc) 0 = Inr r2" "empty_ring (push_bit 1 txc) r2"
    using named_ring_ok [OF _ _ i, of d "push_bit 1 txc" "''EPOLL_SHADOW_RING_NAME''"] s by auto
  show "\<exists>s'. init_epoll d txc i s = Inr s' \<and> (gives_memory d \<and> ring_count (push_bit 1 txc) \<and> early s' = e \<and> conns s' = c) \<and>
      epolls_ring s' = snd (rte_ring_enqueue (epolls_ring s) i) \<and> epoll_ready txc i s' \<and>
      (\<forall>j. epoll_ready txc j s \<longrightarrow> epoll_ready txc j s')"
    using s r1 r2 by (auto simp: init_epoll_def Let_def epoll_ready_def early_def conns_def)
qed

lemma clear_served_ok:
  "n \<le> length ws \<Longrightarrow> \<exists>ws'. clear_served n ws = Inr ws' \<and> length ws' = length ws \<and> take n ws' = replicate n 0"
proof (induction n)
  case (Suc n)
  then obtain ws' where "clear_served n ws = Inr ws'" "length ws' = length ws" "take n ws' = replicate n 0" by auto
  then show ?case using Suc.prems by (auto simp: aset_def take_Suc_conv_app_nth replicate_append_same)
qed simp

lemma per_proc_ok:
  assumes g: "gives_memory d" and c: "ring_count n" and p: "procs \<le> MAX_CORES_NUM" "i < procs" and b: "length base \<le> 24"
  shows "\<exists>r. per_proc d base n procs f i = Some r \<and> empty_ring n r"
proof -
  have "length (base @ dec i) \<le> 28" using dec_length [of i] p b by (simp add: MAX_CORES_NUM_def)
  then obtain r where "rte_ring_create d (base @ dec i) n (RING_F_SP_ENQ OR RING_F_SC_DEQ) = Some r" "empty_ring n r"
    using rte_ring_create_ok [OF g c] by blast
  then show ?thesis using p by (simp add: per_proc_def)
qed

lemma init_proc_rings_ok:
  assumes g: "gives_memory d" and c: "ring_count cbc" "ring_count (rxc * 2048)" and p: "self < procs" "procs \<le> MAX_CORES_NUM"
  obtains s' where "init_proc_rings d cbc rxc procs self s = Inr s'" "early s' = (free_clients_ring s, su_client_rings s,
      su_command_rings s', su_urgent_rings s', rx_mbufs_ring s', su_workers s)"
    "\<forall>i < procs. \<exists>r. su_command_rings s' i = Some r \<and> empty_ring cbc r"
    "\<forall>i < procs. \<exists>r. su_urgent_rings s' i = Some r \<and> empty_ring cbc r"
proof -
  have self: "self < 10000" using p by (simp add: MAX_CORES_NUM_def)
  let ?c = "per_proc d ''COMMAND_RING'' cbc procs (su_command_rings s)"
  let ?u = "per_proc d ''URGENT_COMMAND_RING'' cbc procs (su_urgent_rings s)"
  have r: "\<exists>r. ?c i = Some r \<and> empty_ring cbc r" "\<exists>r. ?u i = Some r \<and> empty_ring cbc r" if "i < procs" for i
    using per_proc_ok [OF g c(1) p(2) that] by simp_all
  obtain r3 where r3: "need_ring d (''rx_mbufs_ring'' @ dec self) (rxc * 2048) 0 = Inr r3"
    using named_ring_ok [OF g c(2) self, of "''rx_mbufs_ring''" 0] by auto
  have "init_proc_rings d cbc rxc procs self s = Inr (s \<lparr> su_command_rings := ?c, su_urgent_rings := ?u, rx_mbufs_ring := Some r3 \<rparr>)"
    using r [OF p(1)] r3 p by (auto simp: init_proc_rings_def Let_def)
  then show ?thesis
    by (rule that) (use r in \<open>auto simp: early_def\<close>)
qed

text \<open>The whole start, part by part.\<close>

lemma light_service_api_init_ok:
  assumes g: "gives_memory d" and c: "ring_count cbc" "ring_count rxc" "ring_count (rxc * 2048)" "ring_count txc" "ring_count (push_bit 1 txc)"
    and p: "self < procs" "procs \<le> MAX_CORES_NUM"
    and w: "length (workers_served (su_workers s)) = MAX_CORES_NUM" "length (worker_appids (su_workers s)) = MAX_WORKER"
      "length (worker_procids (su_workers s)) = MAX_WORKER"
  shows "\<exists>s'. light_service_api_init d cbc rxc txc procs self s = Inr s' \<and>
     contents (free_clients_ring s') = [0..<63] \<and> contents (su_connections_ring s') = [0..<2047] \<and>
     contents (epolls_ring s') = [0..<63] \<and>
     (\<forall>i < 64. client_ready i s') \<and> (\<forall>i < 2048. connection_ready rxc txc i s') \<and> (\<forall>i < 64. epoll_ready txc i s') \<and>
     (\<forall>i < procs. \<exists>r. su_command_rings s' i = Some r \<and> empty_ring cbc r) \<and>
     (\<forall>i < procs. \<exists>r. su_urgent_rings s' i = Some r \<and> empty_ring cbc r) \<and> balanced procs 0 (su_workers s')"
proof -
  obtain fc where fc: "need_ring d ''free_clients_ring'' 64 0 = Inr fc" "empty_ring 64 fc"
    using need_ring_ok [OF g ring_count_64, of "''free_clients_ring''"] by auto
  let ?s0 = "s \<lparr> su_client_rings := \<lambda>_. None, free_clients_ring := fc \<rparr>"
  obtain s1 where s1: "each_index (init_client d) [0..<64] ?s0 = Inr s1" "su_workers s1 = su_workers s"
      "contents (free_clients_ring s1) = [0..<63]" "\<forall>i < 64. client_ready i s1"
    by (rule clients.fill_from_empty [where d = d and w = "su_workers s" and s = ?s0 and n = 64 and m = 64]) (use g fc in auto)
  obtain s2 where s2: "init_proc_rings d cbc rxc procs self s1 = Inr s2" "early s2 = (free_clients_ring s1, su_client_rings s1,
      su_command_rings s2, su_urgent_rings s2, rx_mbufs_ring s2, su_workers s1)"
      "\<forall>i < procs. \<exists>r. su_command_rings s2 i = Some r \<and> empty_ring cbc r" "\<forall>i < procs. \<exists>r. su_urgent_rings s2 i = Some r \<and> empty_ring cbc r"
    by (rule init_proc_rings_ok [OF g c(1,3) p, of s1])
  obtain fr where fr: "need_ring d ''free_connections_ring'' 2048 0 = Inr fr" "empty_ring 2048 fr"
    using need_ring_ok [OF g ring_count_2048, of "''free_connections_ring''"] by auto
  obtain s3 where s3: "each_index (init_connection d rxc txc) [0..<2048] (s2 \<lparr> su_connections_ring := fr \<rparr>) = Inr s3"
      "early s3 = early s2" "contents (su_connections_ring s3) = [0..<2047]" "\<forall>i < 2048. connection_ready rxc txc i s3"
    by (rule connections.fill_from_empty [where s = "s2 \<lparr> su_connections_ring := fr \<rparr>" and d = d and rxc = rxc and txc = txc and e = "early s2" and n = 2048 and m = 2048])
      (use g c fr in \<open>auto simp: early_def\<close>)
  obtain er where er: "need_ring d ''epoll_ring'' 64 0 = Inr er" "empty_ring 64 er"
    using need_ring_ok [OF g ring_count_64, of "''epoll_ring''"] by auto
  obtain s4 where s4: "each_index (init_epoll d txc) [0..<64] (s3 \<lparr> epolls_ring := er \<rparr>) = Inr s4"
      "early s4 = early s3" "conns s4 = conns s3" "contents (epolls_ring s4) = [0..<63]" "\<forall>i < 64. epoll_ready txc i s4"
    by (rule epolls.fill_from_empty [where s = "s3 \<lparr> epolls_ring := er \<rparr>" and d = d and txc = txc and e = "early s3" and c = "conns s3" and n = 64 and m = 64])
      (use g c er in \<open>auto simp: early_def conns_def\<close>)
  obtain ws where ws: "clear_served procs (workers_served (su_workers s)) = Inr ws" "length ws = MAX_CORES_NUM"
      "take procs ws = replicate procs 0"
    using clear_served_ok [of procs "workers_served (su_workers s)"] w(1) p(2) by auto
  have wk: "su_workers s4 = su_workers s" using s1(2) s2(2) s3(2) s4(2) by (simp add: early_def)
  let ?w = "(su_workers s) \<lparr> register_worker := 0, workers_served := ws \<rparr>"
  let ?s = "s4 \<lparr> su_workers := ?w \<rparr>"
  have run: "light_service_api_init d cbc rxc txc procs self s = Inr ?s"
    using fc s1 s2 fr s3 er s4 ws wk need_pool_ok [OF g] g
    by (simp add: light_service_api_init_def LIGHT_CLIENTS_POOL_SIZE_def LIGHT_CONNECTION_POOL_SIZE_def LIGHT_EPOLL_POOL_SIZE_def
        create_workers_info_def gives_memory_def)
  have "ws ! i = 0" if "i < procs" for i
    using ws(3) nth_take [OF that, of ws] that by simp
  then have bal: "balanced procs 0 ?w" using ws w by (simp add: balanced_def sum_list_replicate)
  have same: "connection_ready rxc txc i ?s = connection_ready rxc txc i s3" "client_ready i ?s = client_ready i s1"
      "epoll_ready txc i ?s = epoll_ready txc i s4" for i
    using s2(2) s3(2) s4(2,3) by (simp_all add: connection_ready_def client_ready_def epoll_ready_def early_def conns_def)
  show ?thesis
    using run bal s1(3,4) s2(2-4) s3(2-4) s4(2-5) by (intro exI [of _ ?s] conjI) (simp_all add: same early_def conns_def)
qed

lemma demo_dpdk_gives: "gives_memory demo_dpdk"
  by (simp add: gives_memory_def demo_dpdk_def)

section \<open>Properties\<close>

text \<open>C29. Start-up in full.  When DPDK gives all the memory it is asked for, the start of the primary stack process succeeds:
  every socket is cleared, with an empty list of epoll nodes, empty rings and no kernel socket, every epoll object is idle
  with empty rings, the command rings of all stack processes are empty and the workers are balanced.  The queues of free objects however lack
  the last object of each pool, since a ring created for \<open>n\<close> entries holds \<open>n - 1\<close>: the failed last enqueue is only
  reported, and socket 2047, client 63 and epoll object 63 can never be used.
\<close>

theorem light_service_api_init_pools:
  assumes g: "gives_memory d" and c: "ring_count cbc" "ring_count rxc" "ring_count (rxc * 2048)" "ring_count txc" "ring_count (push_bit 1 txc)"
    and p: "self < procs" "procs \<le> MAX_CORES_NUM"
    and w: "length (workers_served (su_workers s)) = MAX_CORES_NUM" "length (worker_appids (su_workers s)) = MAX_WORKER"
      "length (worker_procids (su_workers s)) = MAX_WORKER"
  shows "\<exists>s'. light_service_api_init d cbc rxc txc procs self s = Inr s' \<and>
     contents (free_clients_ring s') = [0..<63] \<and> contents (su_connections_ring s') = [0..<2047] \<and>
     contents (epolls_ring s') = [0..<63] \<and>
     (\<forall>i < 64. client_ready i s') \<and> (\<forall>i < 2048. connection_ready rxc txc i s') \<and> (\<forall>i < 64. epoll_ready txc i s') \<and>
     (\<forall>i < procs. \<exists>r. su_command_rings s' i = Some r \<and> empty_ring cbc r) \<and>
     (\<forall>i < procs. \<exists>r. su_urgent_rings s' i = Some r \<and> empty_ring cbc r) \<and> balanced procs 0 (su_workers s')"
  using light_service_api_init_ok [OF assms] .

theorem light_service_api_init_pools_witness:
  "\<exists>s'. light_service_api_init demo_dpdk 32768 1024 1024 2 0 demo_startup = Inr s' \<and>
     2047 \<notin> set (contents (su_connections_ring s'))"
proof -
  have c: "ring_count 32768" "ring_count 1024" "ring_count (1024 * 2048)" "ring_count (push_bit 1 1024)"
    by (simp_all add: ring_count_def POWEROF2_def RTE_RING_SZ_MASK_def)
  have w: "su_workers demo_startup = init_workers" by (simp add: demo_startup_def Let_def)
  show ?thesis
    using light_service_api_init_pools [OF demo_dpdk_gives c(1,2,3,2,4), of 0 2 demo_startup]
    by (auto simp: w init_workers_def MAX_CORES_NUM_def)
qed

end
