(* ===== verification/Attach.thy ===== *)
theory Attach
  imports Startup
begin

text \<open>
  Joining a running stack: the branch of \<open>light_service_api_init\<close> that a further stack process takes, and
  \<open>light_app_init\<close>, the start of an application.  Both look rings and pools up by name; the result of a lookup is an
  argument.
\<close>

record lookup =
  ring_lookup :: "string \<Rightarrow> nat rte_ring option"
  pool_lookup :: "string \<Rightarrow> bool"

section \<open>A further stack process\<close>

definition found_ring :: "lookup \<Rightarrow> string \<Rightarrow> nat rte_ring c_res" where
  "found_ring l nm = (case ring_lookup l nm of None \<Rightarrow> Inl Exit | Some r \<Rightarrow> Inr r)"

definition found_pools :: "lookup \<Rightarrow> string list \<Rightarrow> unit c_res" where
  "found_pools l nms = (if list_all (pool_lookup l) nms then Inr () else Inl Exit)"

definition per_proc_found :: "lookup \<Rightarrow> string \<Rightarrow> nat \<Rightarrow> (nat \<Rightarrow> nat rte_ring option) \<Rightarrow> nat \<Rightarrow> nat rte_ring option" where
  "per_proc_found l base procs f i = (if i < procs then ring_lookup l (base @ dec i) else f i)"

text \<open>The rings of the clients are cleared and not looked up.\<close>

definition light_service_api_join :: "lookup \<Rightarrow> nat \<Rightarrow> nat \<Rightarrow> startup \<Rightarrow> startup c_res" where
  "light_service_api_join l procs self s =
     cbind (found_ring l ''free_clients_ring'') (\<lambda>fc.
     cbind (found_pools l [''FREE_SOCKET_SAT_DATA_POOL'']) (\<lambda>_.
     if procs > MAX_CORES_NUM then Inl OutOfBounds else
     cbind (found_ring l (''COMMAND_RING'' @ dec self)) (\<lambda>_.
     cbind (found_ring l (''URGENT_COMMAND_RING'' @ dec self)) (\<lambda>_.
     cbind (found_ring l (''rx_mbufs_ring'' @ dec self)) (\<lambda>rx.
     cbind (found_pools l [''CMD_POOL'' @ dec self, ''RETURN_VALUE'' @ dec self, ''free_epoll_node_pool'', ''free_connections_pool'']) (\<lambda>_.
     cbind (found_ring l ''free_connections_ring'') (\<lambda>fr.
     cbind (found_pools l [''epoll_pool'']) (\<lambda>_.
     cbind (found_ring l ''epoll_ring'') (\<lambda>er.
     cbind (found_pools l [''free_event_info_pool'', ''free_fd_mapping_storage'']) (\<lambda>_.
     Inr (s \<lparr> su_client_rings := \<lambda>_. None, free_clients_ring := fc,
        su_command_rings := per_proc_found l ''COMMAND_RING'' procs (su_command_rings s),
        su_urgent_rings := per_proc_found l ''URGENT_COMMAND_RING'' procs (su_urgent_rings s), rx_mbufs_ring := Some rx,
        su_connections_ring := fr, epolls_ring := er \<rparr>)))))))))))"

section \<open>An application\<close>

record app_start =
  as_clients_ring :: "nat rte_ring option"
  as_connections_ring :: "nat rte_ring option"
  as_rx_rings :: "nat \<Rightarrow> nat rte_ring option"
  as_local_caches :: "nat \<Rightarrow> nat rte_ring option"
  as_tx_rings :: "nat \<Rightarrow> nat rte_ring option"
  as_num_procs :: nat
  as_return_value_pools :: "nat \<Rightarrow> bool"
  as_command_rings :: "nat \<Rightarrow> nat rte_ring option"
  as_urgent_rings :: "nat \<Rightarrow> nat rte_ring option"
  as_epoll_ring :: "nat rte_ring option"
  as_workers :: light_worker_info_t
  as_fdt :: "fd_tables option"

definition attach_desc :: "lookup \<Rightarrow> nat \<Rightarrow> app_start \<Rightarrow> app_start c_res" where
  "attach_desc l i s =
     cbind (found_ring l (''rx_ring'' @ dec i)) (\<lambda>rx.
     cbind (found_ring l (''rx_ring'' @ dec i)) (\<lambda>cache.
     cbind (found_ring l (''tx_ring'' @ dec i)) (\<lambda>tx.
     Inr (s \<lparr> as_rx_rings := (as_rx_rings s) (i := Some rx), as_local_caches := (as_local_caches s) (i := Some cache),
        as_tx_rings := (as_tx_rings s) (i := Some tx) \<rparr>))))"

fun attach_descs :: "lookup \<Rightarrow> nat list \<Rightarrow> app_start \<Rightarrow> app_start c_res" where
  "attach_descs l [] s = Inr s"
| "attach_descs l (i # js) s = cbind (attach_desc l i s) (attach_descs l js)"

text \<open>The first missing command pool gives the number of stack processes; when none is missing the number is not set.\<close>

fun count_procs :: "lookup \<Rightarrow> nat \<Rightarrow> nat \<Rightarrow> nat \<Rightarrow> nat" where
  "count_procs l i 0 n = n"
| "count_procs l i (Suc k) n = (if pool_lookup l (''CMD_POOL'' @ dec i) then count_procs l (Suc i) k n else i)"

text \<open>The rings and pools of all stack processes; what an attempt that fails has stored before is not kept.\<close>

definition attach_procs :: "lookup \<Rightarrow> app_start \<Rightarrow> app_start option" where
  "attach_procs l s =
     (let n = as_num_procs s in
      if \<not> list_all (\<lambda>i. pool_lookup l (''RETURN_VALUE'' @ dec i)) [0..<n] \<or> \<not> pool_lookup l ''free_epoll_node_pool''
        \<or> \<not> list_all (\<lambda>i. ring_lookup l (''COMMAND_RING'' @ dec i) \<noteq> None) [0..<n]
        \<or> \<not> list_all (\<lambda>i. ring_lookup l (''URGENT_COMMAND_RING'' @ dec i) \<noteq> None) [0..<n] then None
      else Some (s \<lparr> as_return_value_pools := (\<lambda>i. i < n \<or> as_return_value_pools s i),
             as_command_rings := per_proc_found l ''COMMAND_RING'' n (as_command_rings s),
             as_urgent_rings := per_proc_found l ''URGENT_COMMAND_RING'' n (as_urgent_rings s),
             as_epoll_ring := ring_lookup l ''epoll_ring'' \<rparr>))"

text \<open>
  The end: the worker is registered, the C library is opened, the descriptors are created.  The result is 1 when a ring or
  pool of process 0 is missing.
\<close>

definition finish_app ::
  "lookup \<Rightarrow> bool \<Rightarrow> int \<Rightarrow> fd_tables c_res \<Rightarrow> app_start \<Rightarrow> (int \<times> app_start) c_res" where
  "finish_app l libs self_pid fds s =
     (if \<not> pool_lookup l ''WORKER_INFO'' then Inl BadPointer
      else cbind (update_worker_info (as_num_procs s) self_pid (as_workers s)) (\<lambda>(_, _, w).
        let s1 = s \<lparr> as_workers := w \<rparr> in
        if \<not> libs then Inr (- 1, s1)
        else cbind fds (\<lambda>t.
          Inr (if as_command_rings s1 0 = None \<or> as_urgent_rings s1 0 = None \<or> \<not> pool_lookup l (''CMD_POOL'' @ dec 0)
                 \<or> \<not> as_return_value_pools s1 0 then 1 else 0, s1 \<lparr> as_fdt := Some t \<rparr>))))"

text \<open>
  \<open>eal\<close> is the result of \<open>rte_eal_init\<close>, \<open>libs\<close> whether both libraries could be opened, \<open>fds\<close> the result of
  \<open>fd_mapping_init\<close>.
\<close>

definition light_app_init ::
  "int \<Rightarrow> lookup \<Rightarrow> bool \<Rightarrow> int \<Rightarrow> fd_tables c_res \<Rightarrow> app_start \<Rightarrow> (int \<times> app_start) c_res" where
  "light_app_init eal l libs self_pid fds s =
     (if eal < 0 then Inr (- 1, s)
      else cbind (found_ring l ''free_clients_ring'') (\<lambda>fc.
        let s1 = s \<lparr> as_clients_ring := Some fc, as_connections_ring := ring_lookup l ''free_connections_ring'' \<rparr> in
        if as_connections_ring s1 = None \<or> \<not> pool_lookup l ''free_connections_pool'' \<or> \<not> pool_lookup l ''free_event_info_pool''
        then Inr (- 1, s1)
        else cbind (attach_descs l [0..<nat LIGHT_CONNECTION_POOL_SIZE] s1) (\<lambda>s2.
          if \<not> pool_lookup l ''mbufs_mempool'' then Inr (- 1, s2)
          else let s3 = s2 \<lparr> as_num_procs := count_procs l 0 MAX_CORES_NUM (as_num_procs s2) \<rparr> in
          if \<not> pool_lookup l (''CMD_POOL'' @ dec 0) then Inr (- 1, s3)
          else case attach_procs l s3 of None \<Rightarrow> Inr (- 1, s3) | Some s4 \<Rightarrow> finish_app l libs self_pid fds s4)))"

section \<open>What the lookups rely on\<close>

text \<open>The lookups find what the primary stack process created, and no more.\<close>

definition published :: "nat \<Rightarrow> startup \<Rightarrow> lookup \<Rightarrow> bool" where
  "published procs s l \<longleftrightarrow>
     ring_lookup l ''free_clients_ring'' = Some (free_clients_ring s) \<and>
     ring_lookup l ''free_connections_ring'' = Some (su_connections_ring s) \<and>
     ring_lookup l ''epoll_ring'' = Some (epolls_ring s) \<and>
     (\<forall>i < 2048. ring_lookup l (''rx_ring'' @ dec i) = su_rx_rings s i \<and> ring_lookup l (''tx_ring'' @ dec i) = su_tx_rings s i) \<and>
     (\<forall>i < procs. ring_lookup l (''COMMAND_RING'' @ dec i) = su_command_rings s i \<and>
        ring_lookup l (''URGENT_COMMAND_RING'' @ dec i) = su_urgent_rings s i) \<and>
     (\<forall>i < 32. pool_lookup l (''CMD_POOL'' @ dec i) \<longleftrightarrow> i < procs) \<and>
     (\<forall>i < procs. pool_lookup l (''RETURN_VALUE'' @ dec i)) \<and>
     list_all (pool_lookup l) [''free_epoll_node_pool'', ''free_connections_pool'', ''free_event_info_pool'', ''mbufs_mempool'', ''WORKER_INFO'']"

text \<open>Reading a number back, the lookups for the rings of a started stack, and an application before its start.\<close>

definition undec :: "string \<Rightarrow> nat" where
  "undec ds = foldl (\<lambda>a c. 10 * a + (of_char c - 48)) 0 ds"

definition lookup_of :: "nat \<Rightarrow> startup \<Rightarrow> lookup" where
  "lookup_of procs s =
     \<lparr> ring_lookup = (\<lambda>nm.
         if nm = ''free_clients_ring'' then Some (free_clients_ring s)
         else if nm = ''free_connections_ring'' then Some (su_connections_ring s)
         else if nm = ''epoll_ring'' then Some (epolls_ring s)
         else if take 7 nm = ''rx_ring'' then su_rx_rings s (undec (drop 7 nm))
         else if take 7 nm = ''tx_ring'' then su_tx_rings s (undec (drop 7 nm))
         else if take 12 nm = ''COMMAND_RING'' then su_command_rings s (undec (drop 12 nm))
         else if take 19 nm = ''URGENT_COMMAND_RING'' then su_urgent_rings s (undec (drop 19 nm))
         else None),
       pool_lookup = (\<lambda>nm. if take 8 nm = ''CMD_POOL'' then undec (drop 8 nm) < procs else True) \<rparr>"

definition demo_app :: "light_worker_info_t \<Rightarrow> app_start" where
  "demo_app w = \<lparr> as_clients_ring = None, as_connections_ring = None, as_rx_rings = \<lambda>_. None, as_local_caches = \<lambda>_. None,
     as_tx_rings = \<lambda>_. None, as_num_procs = 0, as_return_value_pools = \<lambda>_. False, as_command_rings = \<lambda>_. None,
     as_urgent_rings = \<lambda>_. None, as_epoll_ring = None, as_workers = w, as_fdt = None \<rparr>"

section \<open>Lemmas\<close>

lemma count_procs_found:
  assumes "\<forall>j < m. pool_lookup l (''CMD_POOL'' @ dec j) \<longleftrightarrow> j < procs" "i \<le> procs" "i + k = m"
  shows "count_procs l i k n = (if procs < m then procs else n)"
  using assms(2,3)
proof (induction k arbitrary: i)
  case (Suc k)
  have "pool_lookup l (''CMD_POOL'' @ dec i) \<longleftrightarrow> i < procs" using assms(1) Suc.prems by auto
  then show ?case using Suc.IH [of "Suc i"] Suc.prems by auto
qed auto

lemma attach_descs_found:
  assumes "\<forall>i \<in> set js. ring_lookup l (''rx_ring'' @ dec i) = Some (rx i) \<and> ring_lookup l (''tx_ring'' @ dec i) = Some (tx i)"
  shows "attach_descs l js s = Inr (s \<lparr> as_rx_rings := (\<lambda>i. if i \<in> set js then Some (rx i) else as_rx_rings s i),
      as_local_caches := (\<lambda>i. if i \<in> set js then Some (rx i) else as_local_caches s i),
      as_tx_rings := (\<lambda>i. if i \<in> set js then Some (tx i) else as_tx_rings s i) \<rparr>)"
  using assms
proof (induction js arbitrary: s)
  case (Cons i js)
  then show ?case by (auto simp: attach_desc_def found_ring_def fun_eq_iff intro!: app_start.fold_congs)
qed simp

lemma connections_found:
  assumes pub: "published procs s l" and ready: "\<forall>i < 2048. connection_ready rxc txc i s"
  obtains rx tx where "\<forall>i < 2048. su_rx_rings s i = Some (rx i) \<and> su_tx_rings s i = Some (tx i)"
    "\<forall>i \<in> set [0..<2048]. ring_lookup l (''rx_ring'' @ dec i) = Some (rx i) \<and> ring_lookup l (''tx_ring'' @ dec i) = Some (tx i)"
proof
  show 1: "\<forall>i < 2048. su_rx_rings s i = Some (the (su_rx_rings s i)) \<and> su_tx_rings s i = Some (the (su_tx_rings s i))"
    using ready by (fastforce simp: connection_ready_def)
  show "\<forall>i \<in> set [0..<2048]. ring_lookup l (''rx_ring'' @ dec i) = Some (the (su_rx_rings s i)) \<and>
      ring_lookup l (''tx_ring'' @ dec i) = Some (the (su_tx_rings s i))"
    using 1 pub by (simp add: published_def)
qed

lemma light_app_init_run:
  assumes pub: "published procs s l" and procs: "0 < procs" "procs \<le> 32"
    and ready: "\<forall>i < 2048. connection_ready rxc txc i s"
    and rings: "\<forall>i < procs. su_command_rings s i \<noteq> None \<and> su_urgent_rings s i \<noteq> None"
    and n: "as_num_procs a = 0"
  obtains a' where "light_app_init 0 l True me (Inr t) a = finish_app l True me (Inr t) a'"
    "as_num_procs a' = (if procs < 32 then procs else 0)" "as_workers a' = as_workers a"
    "\<forall>i < 2048. as_rx_rings a' i = su_rx_rings s i \<and> as_local_caches a' i = su_rx_rings s i \<and> as_tx_rings a' i = su_tx_rings s i"
    "\<forall>i < as_num_procs a'. as_return_value_pools a' i \<and> as_command_rings a' i = su_command_rings s i \<and> as_urgent_rings a' i = su_urgent_rings s i"
    "\<forall>i \<ge> as_num_procs a'. as_command_rings a' i = as_command_rings a i"
    "as_connections_ring a' = Some (su_connections_ring s)"
proof -
  obtain rx tx where f: "\<forall>i < 2048. su_rx_rings s i = Some (rx i) \<and> su_tx_rings s i = Some (tx i)"
    "\<forall>i \<in> set [0..<2048]. ring_lookup l (''rx_ring'' @ dec i) = Some (rx i) \<and> ring_lookup l (''tx_ring'' @ dec i) = Some (tx i)"
    using pub ready by (rule connections_found)
  let ?s1 = "a \<lparr> as_clients_ring := Some (free_clients_ring s), as_connections_ring := Some (su_connections_ring s) \<rparr>"
  obtain s2 where s2: "attach_descs l [0..<2048] ?s1 = Inr s2" "as_num_procs s2 = 0" "as_workers s2 = as_workers a"
      "as_command_rings s2 = as_command_rings a" "as_connections_ring s2 = Some (su_connections_ring s)"
      "\<forall>i < 2048. as_rx_rings s2 i = Some (rx i) \<and> as_local_caches s2 i = Some (rx i) \<and> as_tx_rings s2 i = Some (tx i)"
    using attach_descs_found [OF f(2), of ?s1] n by auto
  let ?n = "if procs < 32 then procs else 0"
  let ?s3 = "s2 \<lparr> as_num_procs := ?n \<rparr>"
  have cnt: "count_procs l 0 32 0 = ?n"
    by (rule count_procs_found) (use pub in \<open>simp_all add: published_def\<close>)
  have np: "?n \<le> procs" by simp
  obtain s4 where s4: "attach_procs l ?s3 = Some s4"
      "s4 = ?s3 \<lparr> as_return_value_pools := (\<lambda>i. i < ?n \<or> as_return_value_pools s2 i),
             as_command_rings := per_proc_found l ''COMMAND_RING'' ?n (as_command_rings s2),
             as_urgent_rings := per_proc_found l ''URGENT_COMMAND_RING'' ?n (as_urgent_rings s2),
             as_epoll_ring := ring_lookup l ''epoll_ring'' \<rparr>"
    using pub rings np by (auto simp: attach_procs_def Let_def published_def list_all_iff simp del: append.simps split: if_splits)
  have "light_app_init 0 l True me (Inr t) a = finish_app l True me (Inr t) s4"
    using s2 s4(1) cnt pub procs
    by (simp add: light_app_init_def found_ring_def Let_def published_def LIGHT_CONNECTION_POOL_SIZE_def MAX_CORES_NUM_def)
  then show ?thesis
    by (rule that) (use s2 s4(2) f pub np in \<open>auto simp: per_proc_found_def published_def\<close>)
qed

lemma undec_dec: "undec (dec n) = n"
proof (induction n rule: dec.induct)
  case (1 n)
  then show ?case
    by (subst dec.simps) (auto simp: undec_def)
qed

lemma lookup_of_published: "procs \<le> 32 \<Longrightarrow> published procs s (lookup_of procs s)"
  by (simp add: published_def lookup_of_def undec_dec)

lemma update_worker_info_none:
  assumes "workers_served w \<noteq> []" "register_worker w = int m" "m < length (worker_appids w)" "m < length (worker_procids w)"
  shows "\<exists>k w'. update_worker_info 0 me w = Inr (int m, k, w')"
proof -
  have 1: "0 < length (workers_served w)" using assms(1) by simp
  show ?thesis
    using assms 1 by (simp add: update_worker_info_def get_stack_proc_id_def aget_def aset_def Let_def del: length_greater_0_conv)
qed

section \<open>Properties\<close>

text \<open>C30. An application joins the stack that was started.  After the start of the primary stack process with fewer than 32
  processes, with lookups that find what it created, the start of an application succeeds: it counts the stack processes
  right, has the very rings of all sockets and all stack processes, and is registered as one more balanced worker.
\<close>

theorem application_joins_stack:
  assumes g: "gives_memory d" and c: "ring_count cbc" "ring_count rxc" "ring_count (rxc * 2048)" "ring_count txc" "ring_count (push_bit 1 txc)"
    and p: "self < procs" "procs < MAX_CORES_NUM"
    and w: "length (workers_served (su_workers s0)) = MAX_CORES_NUM" "length (worker_appids (su_workers s0)) = MAX_WORKER"
      "length (worker_procids (su_workers s0)) = MAX_WORKER"
  shows "\<exists>s. light_service_api_init d cbc rxc txc procs self s0 = Inr s \<and>
    (\<forall>l a. published procs s l \<longrightarrow> as_num_procs a = 0 \<longrightarrow> as_workers a = su_workers s \<longrightarrow>
      (\<exists>a'. light_app_init 0 l True me (Inr t) a = Inr (0, a') \<and> as_num_procs a' = procs \<and> balanced procs 1 (as_workers a') \<and>
        as_connections_ring a' = Some (su_connections_ring s) \<and>
        (\<forall>i < procs. as_command_rings a' i = su_command_rings s i \<and> as_urgent_rings a' i = su_urgent_rings s i) \<and>
        (\<forall>i < 2048. as_rx_rings a' i = su_rx_rings s i \<and> as_tx_rings a' i = su_tx_rings s i)))"
proof -
  obtain s where s: "light_service_api_init d cbc rxc txc procs self s0 = Inr s" "\<forall>i < 2048. connection_ready rxc txc i s"
      "\<forall>i < procs. \<exists>r. su_command_rings s i = Some r \<and> empty_ring cbc r"
      "\<forall>i < procs. \<exists>r. su_urgent_rings s i = Some r \<and> empty_ring cbc r" "balanced procs 0 (su_workers s)"
    using light_service_api_init_ok [OF g c p(1) less_imp_le [OF p(2)] w] by auto
  have rings: "\<forall>i < procs. su_command_rings s i \<noteq> None \<and> su_urgent_rings s i \<noteq> None" using s(3,4) by fastforce
  have pr: "0 < procs" "procs \<le> 32" "procs < 32" using p by (simp_all add: MAX_CORES_NUM_def)
  {
    fix l and a :: app_start
    assume pub: "published procs s l" and n: "as_num_procs a = 0" and wk: "as_workers a = su_workers s"
    obtain a' where a': "light_app_init 0 l True me (Inr t) a = finish_app l True me (Inr t) a'" "as_num_procs a' = procs"
        "as_workers a' = su_workers s"
        "\<forall>i < 2048. as_rx_rings a' i = su_rx_rings s i \<and> as_local_caches a' i = su_rx_rings s i \<and> as_tx_rings a' i = su_tx_rings s i"
        "\<forall>i < procs. as_return_value_pools a' i \<and> as_command_rings a' i = su_command_rings s i \<and> as_urgent_rings a' i = su_urgent_rings s i"
        "as_connections_ring a' = Some (su_connections_ring s)"
      by (rule light_app_init_run [OF pub pr(1,2) s(2) rings n, of me t]) (use pr wk in auto)
    obtain k w' where w': "update_worker_info procs me (su_workers s) = Inr (0, k, w')" "balanced procs 1 w'"
      using balanced_step [OF pr(1) less_imp_le [OF p(2)] _ s(5), of me] by (auto simp: MAX_WORKER_def)
    have "finish_app l True me (Inr t) a' = Inr (0, a' \<lparr> as_workers := w', as_fdt := Some t \<rparr>)"
      using a' w' pub pr rings by (auto simp: finish_app_def published_def Let_def)
    then have "\<exists>a'. light_app_init 0 l True me (Inr t) a = Inr (0, a') \<and> as_num_procs a' = procs \<and> balanced procs 1 (as_workers a') \<and>
        as_connections_ring a' = Some (su_connections_ring s) \<and>
        (\<forall>i < procs. as_command_rings a' i = su_command_rings s i \<and> as_urgent_rings a' i = su_urgent_rings s i) \<and>
        (\<forall>i < 2048. as_rx_rings a' i = su_rx_rings s i \<and> as_tx_rings a' i = su_tx_rings s i)"
      using a' w' by (intro exI [of _ "a' \<lparr> as_workers := w', as_fdt := Some t \<rparr>"]) auto
  }
  then show ?thesis using s(1) by blast
qed

theorem application_joins_stack_witness:
  "\<exists>s a'. light_service_api_init demo_dpdk 32768 1024 1024 2 0 demo_startup = Inr s \<and>
     light_app_init 0 (lookup_of 2 s) True 100 (Inr demo_tables) (demo_app (su_workers s)) = Inr (0, a') \<and> as_num_procs a' = 2"
proof -
  have c: "ring_count 32768" "ring_count 1024" "ring_count (1024 * 2048)" "ring_count (push_bit 1 1024)"
    by (simp_all add: ring_count_def POWEROF2_def RTE_RING_SZ_MASK_def)
  have w: "su_workers demo_startup = init_workers" by (simp add: demo_startup_def Let_def)
  have len: "length (workers_served (su_workers demo_startup)) = MAX_CORES_NUM" "length (worker_appids (su_workers demo_startup)) = MAX_WORKER"
      "length (worker_procids (su_workers demo_startup)) = MAX_WORKER" "(0 :: nat) < 2" "2 < MAX_CORES_NUM"
    by (simp_all add: w init_workers_def MAX_CORES_NUM_def)
  note joins = application_joins_stack [OF demo_dpdk_gives c(1,2,3,2,4) len(4,5,1-3), of 100 demo_tables]
  from joins obtain s where s: "light_service_api_init demo_dpdk 32768 1024 1024 2 0 demo_startup = Inr s"
    and a: "\<And>l a. published 2 s l \<Longrightarrow> as_num_procs a = 0 \<Longrightarrow> as_workers a = su_workers s \<Longrightarrow>
      \<exists>a'. light_app_init 0 l True 100 (Inr demo_tables) a = Inr (0, a') \<and> as_num_procs a' = 2"
    by blast
  have "\<exists>a'. light_app_init 0 (lookup_of 2 s) True 100 (Inr demo_tables) (demo_app (su_workers s)) = Inr (0, a') \<and> as_num_procs a' = 2"
    by (rule a) (simp_all add: lookup_of_published demo_app_def)
  then show ?thesis using s by blast
qed

text \<open>
  With 32 stack processes, as many as the tables have room for, no application can start: all command pools exist, so
  that the number of stack processes stays 0, no command ring is looked up and the result is 1, which \<open>light_init\<close>
  answers with a failed assertion.
\<close>

theorem full_stack_refuses_applications:
  assumes pub: "published MAX_CORES_NUM s l" and ready: "\<forall>i < 2048. connection_ready rxc txc i s"
    and rings: "\<forall>i < MAX_CORES_NUM. su_command_rings s i \<noteq> None \<and> su_urgent_rings s i \<noteq> None"
    and a: "as_num_procs a = 0" "as_command_rings a 0 = None" "balanced MAX_CORES_NUM m (as_workers a)" "m < MAX_WORKER"
  shows "\<exists>a'. light_app_init 0 l True me (Inr t) a = Inr (1, a') \<and> as_num_procs a' = 0"
proof -
  obtain a' where a': "light_app_init 0 l True me (Inr t) a = finish_app l True me (Inr t) a'" "as_num_procs a' = 0"
      "as_workers a' = as_workers a" "as_command_rings a' 0 = None"
    by (rule light_app_init_run [OF pub _ _ ready rings a(1), of me t]) (use a in \<open>auto simp: MAX_CORES_NUM_def\<close>)
  obtain k w' where w': "update_worker_info 0 me (as_workers a) = Inr (int m, k, w')"
    using update_worker_info_none [of "as_workers a" m me] a(3,4) by (fastforce simp: balanced_def MAX_CORES_NUM_def)
  have "finish_app l True me (Inr t) a' = Inr (1, a' \<lparr> as_workers := w', as_fdt := Some t \<rparr>)"
    using a' w' pub by (simp add: finish_app_def published_def Let_def)
  then show ?thesis using a' by simp
qed

text \<open>A further stack process has no rings to its clients, although the primary process created them.\<close>

theorem joined_process_has_no_client_rings:
  "light_service_api_join l procs self s = Inr s' \<Longrightarrow> su_client_rings s' i = None"
  by (auto simp: light_service_api_join_def cbind_Inr_iff split: if_splits)

end
