(* ===== verification/Spec2Isabelle.thy ===== *)
theory Spec2Isabelle
  imports Service_Loop Workers Epoll_Nodes Shared_Pool Interpose Attach
begin

text \<open>
  Verification of the Light user-space network stack (\<open>src/\<close>).

  \<^bold>\<open>The program.\<close>  Light moves the TCP/IP stack out of the kernel.  An application is linked against \<open>light_h.c\<close>, which
  replaces the socket functions of the C library by those of \<open>service/light_app_api/light_api.c\<close>.  These write commands
  and packet buffers into rings in shared memory.  One or more stack processes run the loop of
  \<open>service/light_service_loop.c\<close>: it takes the commands, calls the ported Linux stack through \<open>porting/app_glue.c\<close>, and
  the callbacks of \<open>user_callbacks.h\<close> put received data, accepted connections and events into rings back to the
  application.  Rings, memory pools and packet buffers are those of DPDK.  (Paths are below \<open>src/stack_and_service\<close>
  unless they name \<open>dpdk-17.02\<close> or \<open>light_h.c\<close>.)

  \<^bold>\<open>Shape of the model.\<close>  A C structure is a record, shared memory a function from addresses, and each process has one
  state record that the next component extends: \<open>cmd_env\<close> (command pools and rings), \<open>app_env\<close> (descriptors, receive
  rings, packet buffers), \<open>sock_env\<close> (control calls), \<open>epoll_env\<close>, \<open>stack_env\<close>, \<open>glue_env\<close>, \<open>service_env\<close>.  A function
  of the source is a definition of the same name, without a leading underscore, from state to result and state.  What C leaves undefined and
  what ends the process is a value of \<open>c_fault\<close>: \<open>Exit\<close>, \<open>OutOfBounds\<close>, \<open>BadPointer\<close>, \<open>NoReturn\<close> (a loop that never
  ends) and \<open>NoValue\<close>.  Ring indices are 32-bit words and wrap.

  \<^bold>\<open>Theories.\<close>
  \<^item> \<open>Prelude\<close>, \<open>Light_Types\<close>: results with faults, slices, words; the types of \<open>light_common.h\<close>.
  \<^item> \<open>Rte_Ring\<close>: \<open>dpdk-17.02/lib/librte_ring\<close>.  The unrolled copy loops are one modular copy; bulk and burst calls
    implement a bounded queue across index wrap-around.  Locale \<open>bounded_queue\<close> is what the clients use.
  \<^item> \<open>Mempool\<close>: \<open>dpdk-17.02/lib/librte_mempool\<close> with the per-core cache; no object is lost or given out twice.  Locale
    \<open>object_pool\<close>.
  \<^item> \<open>Commands\<close>: command buffers; a posted buffer is queued once or back in its pool.
  \<^item> \<open>Fd_Mapping\<close>: the descriptor tables of \<open>light_api.c\<close>, their invariant and round trips.
  \<^item> \<open>App_State\<close>, \<open>Rx_Path\<close>, \<open>Tx_Path\<close>, \<open>Time_Ops\<close>: \<open>light_recv\<close> delivers the waiting byte stream in order and
    accounts for every buffer; \<open>light_send\<close> and \<open>light_writev\<close> append exactly the accepted bytes, within the bounds of
    ring, pool and window.
  \<^item> \<open>Tailq\<close>, \<open>Socket_Api\<close>: the tail queues of \<open>sys/queue.h\<close>; opening, binding, listening, accepting, closing and options.
  \<^item> \<open>Shared_Pool\<close>: \<open>light_connect\<close>, \<open>light_recvfrom\<close> and \<open>light_read\<close>, and the pool of the process itself that the first
    two use.
  \<^item> \<open>Ll_List\<close>: every function of \<open>service/ll.c\<close>; insertions, removal and walks implement a list with reference counts
    (\<open>ll_ok\<close>), shared with the clients through locale \<open>ref_list\<close>.
  \<^item> \<open>Epoll\<close>, \<open>Epoll_Nodes\<close>: epoll objects with the nodes of a socket as a sequence, and the refinement to the
    reference-counted list; events arrive once, and where they get lost.
  \<^item> \<open>App_Glue\<close>: the ready queues and callbacks of the stack process; bytes accepted by \<open>light_send\<close> reach the network
    stack, arrived chains extend what \<open>light_recv\<close> sees, and the queues stay well-formed in every reachable state.
  \<^item> \<open>Service_Loop\<close>: all commands, the command loop, notifications and one turn of the main loop; a request is answered
    and its buffers come back.
  \<^item> \<open>Workers\<close>: the assignment of workers to stack processes stays balanced.
  \<^item> \<open>Startup\<close>, \<open>Attach\<close>: \<open>light_service_api_init\<close> establishes the initial state of rings, sockets, epoll objects and
    workers (locale \<open>pool_filling\<close> for its loops); a further stack process and \<open>light_app_init\<close> find it by name.
  \<^item> \<open>Interpose\<close>: the replaced library functions of \<open>light_h.c\<close>.

  \<^bold>\<open>Loops.\<close>  No fuel is used to cut a computation short.  Loops with a bound recurse on it.  Loops that wait for another
  process are \<open>partial_function (option)\<close>; an argument \<open>env n\<close> says what the others do between poll \<open>n\<close> and the next, and
  \<open>loop_res\<close> turns a missing result into \<open>NoReturn\<close>.  That such a loop returns, or that it never does, is proved where it
  is claimed.

  \<^bold>\<open>Arguments of the model.\<close>  The functions of the ported network stack the glue calls, the kernel (\<open>socket\<close>, \<open>epoll\<close>,
  fifos, clock), memory zones, memory pools and lookups of DPDK at start-up, and the functions of the C library behind
  \<open>light_h.c\<close>.  A theorem that relies on one of them says so in a hypothesis, and its witness instantiates it.

  \<^bold>\<open>Not modelled.\<close>
  \<^item> The ported network stack (\<open>net\<close>, \<open>kernel\<close>, \<open>lib\<close>), DPDK's drivers and its environment layer: the interface to them is an
    argument.
  \<^item> Interleavings inside one call of the multi-producer ring, the memory pool and \<open>ll.c\<close>: these run as if alone.  Steps
    of several processes interleave between polls and, for announcing an event, between its two steps.
  \<^item> Creation of memory pools, the reading of the configuration and \<open>get_all_devices\<close> and \<open>get_all_addresses\<close> of \<open>libinit.c\<close>,
    which encode interface lists of the network stack.
  \<^item> Crash detection, which is process control by signals and sockets.
  \<^item> Functions that nothing calls, such as \<open>_light_connect\<close>, \<open>_process_urgent_command\<close> and the client updates of
    \<open>_light_create_client\<close>; statistics counters, logging and debug output.
\<close>

end
